(* ===== verification/Prelude.thy ===== *)
theory Prelude
  imports Main "HOL-Library.Word"
begin

text \<open>
  Shared vocabulary of the development: names for Rust's machine types, the result type of
  fallible operations, the library operations on options, integers, strings and byte slices that
  several components call, and the generic lemmas about them. The collection \<open>branches\<close> gathers
  the split rules of the case combinators, \<open>bytes_simps\<close> the facts on byte encodings.
\<close>

named_theorems branches
named_theorems bytes_simps

lemmas [branches] = option.splits if_splits sum.splits prod.splits list.splits

section \<open>Machine types and results\<close>

type_synonym byte = "8 word"
type_synonym bytes = "byte list"

text \<open>A \<open>Result<T, E>\<close> is a sum, the error on the left.\<close>

type_synonym ('e, 'a) result = "'e + 'a"

definition bind_result :: "('e, 'a) result \<Rightarrow> ('a \<Rightarrow> ('e, 'b) result) \<Rightarrow> ('e, 'b) result" where
  "bind_result r f = (case r of Inl e \<Rightarrow> Inl e | Inr a \<Rightarrow> f a)"

lemma bind_result_simps [simp]:
  "bind_result (Inl e) f = Inl e"
  "bind_result (Inr a) f = f a"
  by (simp_all add: bind_result_def)

lemma bind_result_Inr_iff: "bind_result r f = Inr b \<longleftrightarrow> (\<exists>a. r = Inr a \<and> f a = Inr b)"
  by (cases r) auto

text \<open>\<open>Option::unwrap_or\<close> and \<open>bool::then_some\<close>.\<close>

definition unwrap_or :: "'a option \<Rightarrow> 'a \<Rightarrow> 'a" where
  "unwrap_or x d = (case x of None \<Rightarrow> d | Some v \<Rightarrow> v)"

lemma unwrap_or_simps [simp]: "unwrap_or None d = d" "unwrap_or (Some v) d = v"
  by (simp_all add: unwrap_or_def)

definition then_some :: "bool \<Rightarrow> 'a \<Rightarrow> 'a option" where
  "then_some b v = (if b then Some v else None)"

lemma then_some_simps [simp]: "then_some True v = Some v" "then_some False v = None"
  by (simp_all add: then_some_def)

lemma then_some_None_iff [simp]: "then_some b v = None \<longleftrightarrow> \<not> b"
  by (simp add: then_some_def)

lemma then_some_Some_iff [simp]: "then_some b v = Some w \<longleftrightarrow> b \<and> v = w"
  by (auto simp: then_some_def)

section \<open>Integers\<close>

text \<open>Two's complement ranges, saturating arithmetic and \<open>clamp\<close>.\<close>

definition i32_min :: int where "i32_min = - 2147483648"
definition i32_max :: int where "i32_max = 2147483647"
definition i64_min :: int where "i64_min = - 9223372036854775808"
definition i64_max :: int where "i64_max = 9223372036854775807"

definition saturate :: "int \<Rightarrow> int \<Rightarrow> int \<Rightarrow> int" where
  "saturate lo hi x = (if x < lo then lo else if hi < x then hi else x)"

lemma saturate_bounds: "lo \<le> hi \<Longrightarrow> lo \<le> saturate lo hi x \<and> saturate lo hi x \<le> hi"
  by (simp add: saturate_def)

lemma saturate_id: "lo \<le> x \<Longrightarrow> x \<le> hi \<Longrightarrow> saturate lo hi x = x"
  by (simp add: saturate_def)

text \<open>Wrap-around of \<open>i32\<close> arithmetic (and of \<open>as i32\<close>), and division that truncates.\<close>

definition wrap_i32 :: "int \<Rightarrow> int" where
  "wrap_i32 x = (x + 2147483648) mod 4294967296 - 2147483648"

lemma wrap_i32_id: "- 2147483648 \<le> x \<Longrightarrow> x < 2147483648 \<Longrightarrow> wrap_i32 x = x"
  by (simp add: wrap_i32_def)

lemma wrap_i32_range: "- 2147483648 \<le> wrap_i32 x \<and> wrap_i32 x < 2147483648"
  by (simp add: wrap_i32_def)

definition quot_i64 :: "int \<Rightarrow> int \<Rightarrow> int" where
  "quot_i64 n d = (if (0 \<le> n) = (0 < d) then \<bar>n\<bar> div \<bar>d\<bar> else - (\<bar>n\<bar> div \<bar>d\<bar>))"

lemma quot_i64_nonneg: "0 \<le> n \<Longrightarrow> 0 < d \<Longrightarrow> quot_i64 n d = n div d"
  by (simp add: quot_i64_def)

text \<open>Wrap-around of unsigned values, through \<open>int\<close> so that it evaluates on binary numerals.\<close>

definition wrap_u32 :: "nat \<Rightarrow> nat" where "wrap_u32 n = nat (int n mod 4294967296)"
definition wrap_u64 :: "nat \<Rightarrow> nat" where "wrap_u64 n = nat (int n mod 18446744073709551616)"

lemma wrap_u32_eq: "wrap_u32 n = n mod 2 ^ 32"
  by (simp add: wrap_u32_def nat_mod_distrib)

lemma wrap_u64_eq: "wrap_u64 n = n mod 2 ^ 64"
  by (simp add: wrap_u64_def nat_mod_distrib)

text \<open>\<open>Ord::clamp\<close> with \<open>min \<le> max\<close>, which is what it asserts.\<close>

definition clamp :: "'a::linorder \<Rightarrow> 'a \<Rightarrow> 'a \<Rightarrow> 'a" where
  "clamp lo hi x = (if x < lo then lo else if hi < x then hi else x)"

lemma clamp_bounds: "lo \<le> hi \<Longrightarrow> lo \<le> clamp lo hi x \<and> clamp lo hi x \<le> hi"
  by (auto simp: clamp_def)

lemma clamp_lower: "lo \<le> hi \<Longrightarrow> lo \<le> clamp lo hi x"
  and clamp_upper: "lo \<le> hi \<Longrightarrow> clamp lo hi x \<le> hi"
  by (auto simp: clamp_def)

lemma clamp_id: "lo \<le> x \<Longrightarrow> x \<le> hi \<Longrightarrow> clamp lo hi x = x"
  by (auto simp: clamp_def)

lemma clamp_mono: "x \<le> y \<Longrightarrow> lo \<le> hi \<Longrightarrow> clamp lo hi x \<le> clamp lo hi y"
  by (auto simp: clamp_def)

text \<open>The same with its assertion: \<open>None\<close> is the panic on \<open>min > max\<close>.\<close>

definition checked_clamp :: "'a::linorder \<Rightarrow> 'a \<Rightarrow> 'a \<Rightarrow> 'a option" where
  "checked_clamp lo hi x = (if lo \<le> hi then Some (clamp lo hi x) else None)"

lemma checked_clamp_Some: "lo \<le> hi \<Longrightarrow> checked_clamp lo hi x = Some (clamp lo hi x)"
  by (simp add: checked_clamp_def)

section \<open>Sequences of operations\<close>

text \<open>
  A component whose operations may panic, run on a list of operations. The locale is the contract
  every such component meets: an operation on a state that satisfies the invariant succeeds and
  keeps it. Then no sequence of operations panics and the invariant holds at its end.
\<close>

fun run_ops :: "('a \<Rightarrow> 's \<Rightarrow> 's option) \<Rightarrow> 'a list \<Rightarrow> 's \<Rightarrow> 's option" where
  "run_ops step [] s = Some s"
| "run_ops step (a # as) s = (case step a s of None \<Rightarrow> None | Some s' \<Rightarrow> run_ops step as s')"

locale panic_free =
  fixes inv :: "'s \<Rightarrow> bool"
    and step :: "'a \<Rightarrow> 's \<Rightarrow> 's option"
  assumes progress: "inv s \<Longrightarrow> \<exists>s'. step a s = Some s'"
    and preserved: "inv s \<Longrightarrow> step a s = Some s' \<Longrightarrow> inv s'"
begin

lemma run_total: "inv s \<Longrightarrow> \<exists>s'. run_ops step as s = Some s' \<and> inv s'"
proof (induction as arbitrary: s)
  case (Cons a as)
  then obtain s' where s': "step a s = Some s'" using progress by blast
  with Cons.prems have "inv s'" using preserved by blast
  with s' show ?case using Cons.IH by simp
qed simp

lemma run_preserved: "inv s \<Longrightarrow> run_ops step as s = Some s' \<Longrightarrow> inv s'"
  using run_total [of s as] by auto

end

section \<open>Maps\<close>

text \<open>\<open>HashMap::remove\<close> and \<open>HashMap::retain\<close> on partial functions.\<close>

definition map_remove :: "('k \<rightharpoonup> 'v) \<Rightarrow> 'k \<Rightarrow> ('k \<rightharpoonup> 'v)" where
  "map_remove m k = m(k := None)"

definition map_retain :: "('k \<Rightarrow> 'v \<Rightarrow> bool) \<Rightarrow> ('k \<rightharpoonup> 'v) \<Rightarrow> ('k \<rightharpoonup> 'v)" where
  "map_retain P m = (\<lambda>k. case m k of None \<Rightarrow> None | Some v \<Rightarrow> if P k v then Some v else None)"

lemma map_remove_apply [simp]: "map_remove m k j = (if j = k then None else m j)"
  by (simp add: map_remove_def)

lemma map_retain_Some_iff [simp]: "map_retain P m k = Some v \<longleftrightarrow> m k = Some v \<and> P k v"
  by (auto simp: map_retain_def split: option.splits)

lemma map_retain_None_iff: "map_retain P m k = None \<longleftrightarrow> (\<forall>v. m k = Some v \<longrightarrow> \<not> P k v)"
  by (auto simp: map_retain_def split: option.splits)

section \<open>Strings\<close>

text \<open>
  \<open>str::trim\<close> on the white space of the ASCII range (tab, line feed, vertical tab, form feed,
  carriage return and space).
\<close>

definition is_ws :: "char \<Rightarrow> bool" where
  "is_ws c \<longleftrightarrow> (let n = (of_char c :: nat) in n = 32 \<or> (9 \<le> n \<and> n \<le> 13))"

definition trim_start :: "string \<Rightarrow> string" where
  "trim_start s = dropWhile is_ws s"

definition trim_end :: "string \<Rightarrow> string" where
  "trim_end s = rev (dropWhile is_ws (rev s))"

definition trim :: "string \<Rightarrow> string" where
  "trim s = trim_end (trim_start s)"

text \<open>\<open>slice::split\<close> on a separator: never empty, one piece more than separators.\<close>

fun split_on :: "('a \<Rightarrow> bool) \<Rightarrow> 'a list \<Rightarrow> 'a list list" where
  "split_on p [] = [[]]"
| "split_on p (x # xs) =
     (if p x then [] # split_on p xs
      else (case split_on p xs of [] \<Rightarrow> [[x]] | y # ys \<Rightarrow> (x # y) # ys))"

lemma split_on_not_Nil [simp]: "split_on p xs \<noteq> []"
  by (induction xs) (auto split: list.splits)

lemma split_on_no_sep: "l \<in> set (split_on p xs) \<Longrightarrow> x \<in> set l \<Longrightarrow> \<not> p x"
  by (induction xs arbitrary: l) (fastforce split: list.splits if_splits)+

lemma split_on_free: "(\<And>x. x \<in> set xs \<Longrightarrow> \<not> p x) \<Longrightarrow> split_on p xs = [xs]"
  by (induction xs) auto

lemma length_split_on: "length (split_on p xs) = Suc (length (filter p xs))"
proof (induction xs)
  case (Cons x xs)
  then show ?case by (cases "split_on p xs") auto
qed simp

text \<open>Joining the pieces with the separator gives the input back.\<close>

fun join_with :: "'a \<Rightarrow> 'a list list \<Rightarrow> 'a list" where
  "join_with s [] = []"
| "join_with s [l] = l"
| "join_with s (l # m # ls) = l @ s # join_with s (m # ls)"

lemma join_with_Cons: "ls \<noteq> [] \<Longrightarrow> join_with s (l # ls) = l @ s # join_with s ls"
  by (cases ls) auto

lemma join_split_on: "join_with s (split_on (\<lambda>x. x = s) xs) = xs"
proof (induction xs)
  case (Cons x xs)
  then obtain y ys where ys: "split_on (\<lambda>x. x = s) xs = y # ys"
    by (cases "split_on (\<lambda>x. x = s) xs") auto
  with Cons show ?case by (cases ys) (auto simp: join_with_Cons)
qed simp

text \<open>Decimal \<open>Display\<close> of integers.\<close>

definition digit_char :: "nat \<Rightarrow> char" where
  "digit_char d = char_of (48 + d)"

fun show_nat :: "nat \<Rightarrow> string" where
  "show_nat n = (if n < 10 then [digit_char n] else show_nat (n div 10) @ [digit_char (n mod 10)])"

declare show_nat.simps [simp del]

definition show_int :: "int \<Rightarrow> string" where
  "show_int i = (if i < 0 then CHR ''-'' # show_nat (nat (- i)) else show_nat (nat i))"

section \<open>Byte encodings of machine words\<close>

text \<open>
  \<open>to_le_bytes\<close>/\<open>from_le_bytes\<close> and their big-endian forms for a width of \<open>n\<close> bytes, on the
  numbers the words stand for.
\<close>

fun le_bytes :: "nat \<Rightarrow> nat \<Rightarrow> bytes" where
  "le_bytes 0 v = []"
| "le_bytes (Suc n) v = of_nat (v mod 256) # le_bytes n (v div 256)"

fun le_value :: "bytes \<Rightarrow> nat" where
  "le_value [] = 0"
| "le_value (b # bs) = unat b + 256 * le_value bs"

definition be_bytes :: "nat \<Rightarrow> nat \<Rightarrow> bytes" where
  "be_bytes n v = rev (le_bytes n v)"

definition be_value :: "bytes \<Rightarrow> nat" where
  "be_value bs = le_value (rev bs)"

lemma length_le_bytes [simp, bytes_simps]: "length (le_bytes n v) = n"
  by (induction n arbitrary: v) auto

lemma length_be_bytes [simp, bytes_simps]: "length (be_bytes n v) = n"
  by (simp add: be_bytes_def)

lemma unat_of_nat_byte [simp]: "unat (of_nat (v mod 256) :: byte) = v mod 256"
  by (simp add: unat_of_nat)

lemma le_value_le_bytes [bytes_simps]: "v < 256 ^ n \<Longrightarrow> le_value (le_bytes n v) = v"
proof (induction n arbitrary: v)
  case (Suc n)
  then have "v div 256 < 256 ^ n"
    by (simp add: less_mult_imp_div_less mult.commute)
  with Suc.IH show ?case by simp
qed simp

lemma be_value_be_bytes [bytes_simps]: "v < 256 ^ n \<Longrightarrow> be_value (be_bytes n v) = v"
  by (simp add: be_value_def be_bytes_def le_value_le_bytes)

lemma le_value_bound: "le_value bs < 256 ^ length bs"
proof (induction bs)
  case (Cons b bs)
  have "unat b < 256" using unsigned_less [of b] by simp
  moreover have "256 * le_value bs + 256 \<le> 256 * 256 ^ length bs"
    using Cons.IH by simp
  ultimately have "unat b + 256 * le_value bs < 256 * 256 ^ length bs" by linarith
  then show ?case by simp
qed simp

lemma be_value_bound: "be_value bs < 256 ^ length bs"
  using le_value_bound [of "rev bs"] by (simp add: be_value_def)

lemma le_bytes_le_value: "le_bytes (length bs) (le_value bs) = bs"
proof (induction bs)
  case (Cons b bs)
  have "unat b < 256" using unsigned_less [of b] by simp
  then have "(unat b + 256 * le_value bs) mod 256 = unat b" "(unat b + 256 * le_value bs) div 256 = le_value bs"
    by simp_all
  with Cons show ?case by simp
qed simp

lemma be_bytes_be_value: "be_bytes (length bs) (be_value bs) = bs"
  using le_bytes_le_value [of "rev bs"] by (simp add: be_bytes_def be_value_def)

end
