(* ===== verification/LoginFailures.thy ===== *)
theory LoginFailures
  imports Prelude
begin

text \<open>
  Brute-force protection of logins: the back-off policy for operating-system credentials of
  \<^verbatim>\<open>src/server/login_failure_check.rs\<close> and the failure counters per address and IPv6 prefix of
  \<^verbatim>\<open>src/server/connection.rs\<close>. The process-wide mutexes are one record; times are milliseconds read
  by the caller, and the reads of the clock inside one call are taken at one instant. The text
  forms of IPv6 addresses are the parameters of \<open>ipv6_text\<close>.
\<close>

section \<open>Operating-system credential back-off\<close>

datatype failure_scope = Default | TerminalOsLogin

datatype alarm_audit_type =
    IpWhitelist | ExceedThirtyAttempts | SixAttemptsWithinOneMinute | ExceedIPv6PrefixAttempts
  | TerminalOsLoginBackoff | TerminalOsLoginConcurrency | SessionScopeViolation

record os_credential_policy_decision =
  allowed :: bool
  login_error :: "string option"
  audit :: "alarm_audit_type option"

record os_credential_failure_state =
  total_failures :: int
  backoff_until_ms :: "int option"
  last_failure_ms :: "int option"

definition default_os_credential_failure_state :: os_credential_failure_state where
  "default_os_credential_failure_state =
     \<lparr>total_failures = 0, backoff_until_ms = None, last_failure_ms = None\<rparr>"

definition OS_CREDENTIAL_LOGIN_TOTAL_IDLE_RESET_MS :: int where
  "OS_CREDENTIAL_LOGIN_TOTAL_IDLE_RESET_MS = 120 * 60 * 1000"

definition OS_CREDENTIAL_LOGIN_BACKOFF_BASE_SECONDS :: int where
  "OS_CREDENTIAL_LOGIN_BACKOFF_BASE_SECONDS = 15"

definition OS_CREDENTIAL_LOGIN_BACKOFF_MAX_SECONDS :: int where
  "OS_CREDENTIAL_LOGIN_BACKOFF_MAX_SECONDS = 30 * 60"

definition is_os_credential_scope :: "failure_scope \<Rightarrow> bool" where
  "is_os_credential_scope scope \<longleftrightarrow> scope = TerminalOsLogin"

definition backoff_audit_type_for_scope :: "failure_scope \<Rightarrow> alarm_audit_type option" where
  "backoff_audit_type_for_scope scope =
     (case scope of TerminalOsLogin \<Rightarrow> Some TerminalOsLoginBackoff | Default \<Rightarrow> None)"

definition os_credential_login_backoff_seconds :: "int \<Rightarrow> int" where
  "os_credential_login_backoff_seconds failures =
     (if failures \<le> 2 then 0
      else
        let exp = min (failures - 3) 7;
            seconds = OS_CREDENTIAL_LOGIN_BACKOFF_BASE_SECONDS * 2 ^ nat exp
        in min seconds OS_CREDENTIAL_LOGIN_BACKOFF_MAX_SECONDS)"

definition normalize_backoff ::
  "os_credential_failure_state \<Rightarrow> int \<Rightarrow> os_credential_failure_state" where
  "normalize_backoff state now_ms =
     (case backoff_until_ms state of
        Some until_ms \<Rightarrow> (if until_ms \<le> now_ms then state\<lparr>backoff_until_ms := None\<rparr> else state)
      | None \<Rightarrow> state)"

definition reset_totals_on_idle ::
  "os_credential_failure_state \<Rightarrow> int \<Rightarrow> os_credential_failure_state" where
  "reset_totals_on_idle state now_ms =
     (case last_failure_ms state of
        Some last_ms \<Rightarrow>
          (if OS_CREDENTIAL_LOGIN_TOTAL_IDLE_RESET_MS \<le> saturate i64_min i64_max (now_ms - last_ms)
           then state\<lparr>total_failures := 0, backoff_until_ms := None, last_failure_ms := None\<rparr>
           else state)
      | None \<Rightarrow> state)"

definition allow_decision :: os_credential_policy_decision where
  "allow_decision = \<lparr>allowed = True, login_error = None, audit = None\<rparr>"

definition block_decision ::
  "string \<Rightarrow> alarm_audit_type option \<Rightarrow> os_credential_policy_decision" where
  "block_decision err alarm_type =
     \<lparr>allowed = False, login_error = Some err, audit = alarm_type\<rparr>"

definition evaluate_os_credential_policy ::
  "failure_scope \<Rightarrow> int \<Rightarrow> os_credential_failure_state \<Rightarrow>
     os_credential_failure_state \<times> os_credential_policy_decision" where
  "evaluate_os_credential_policy scope now_ms state =
     (if \<not> is_os_credential_scope scope then (state, allow_decision)
      else
        let state = normalize_backoff (reset_totals_on_idle state now_ms) now_ms
        in case backoff_until_ms state of
             Some until_ms \<Rightarrow>
               (let remaining_ms = max (until_ms - now_ms) 0;
                    remaining_seconds = max (quot_i64 (remaining_ms + 999) 1000) 1;
                    seconds_label = (if remaining_seconds = 1 then ''second'' else ''seconds'')
                in (state,
                    block_decision
                      (''Please try again in '' @ show_int remaining_seconds @ '' '' @ seconds_label @ ''.'')
                      (backoff_audit_type_for_scope scope)))
           | None \<Rightarrow> (state, allow_decision))"

definition record_os_credential_failure ::
  "failure_scope \<Rightarrow> int \<Rightarrow> os_credential_failure_state \<Rightarrow> os_credential_failure_state" where
  "record_os_credential_failure scope now_ms state =
     (if \<not> is_os_credential_scope scope then state
      else
        let state = normalize_backoff (reset_totals_on_idle state now_ms) now_ms;
            tot = saturate i32_min i32_max (total_failures state + 1);
            state = state\<lparr>total_failures := tot, last_failure_ms := Some now_ms\<rparr>;
            backoff_seconds = os_credential_login_backoff_seconds tot
        in if 0 < backoff_seconds
           then state\<lparr>backoff_until_ms := Some (now_ms + backoff_seconds * 1000)\<rparr>
           else state)"

section \<open>Failure counters per address\<close>

type_synonym failure_entry = "int \<times> int \<times> int"

text \<open>\<open>Ipv6Addr::from_str\<close> and \<open>Ipv6Addr::to_string\<close>, on the address as a 128-bit number.\<close>

record ipv6_text =
  ipv6_from_str :: "string \<Rightarrow> 128 word option"
  ipv6_to_string :: "128 word \<Rightarrow> string"

record login_guard =
  login_failures :: "nat \<Rightarrow> string \<rightharpoonup> failure_entry"
  os_credential_state :: os_credential_failure_state

datatype guard_effect = SendLoginError string | PostAlarm alarm_audit_type

unbundle bit_operations_syntax

definition mask_u128 :: "128 word \<Rightarrow> nat \<Rightarrow> 128 word" where
  "mask_u128 addr prefix =
     (let mask = (if prefix = 0 \<or> 128 < prefix then 0 else push_bit (128 - prefix) (NOT 0))
      in addr AND mask)"

definition get_ipv6_prefixes :: "ipv6_text \<Rightarrow> string \<Rightarrow> (string \<times> string \<times> string) option" where
  "get_ipv6_prefixes net ip =
     (let ip_only = trim (takeWhile (\<lambda>c. c \<noteq> CHR ''%'') ip)
      in case ipv6_from_str net ip_only of
           None \<Rightarrow> None
         | Some addr \<Rightarrow>
             Some (ipv6_to_string net (mask_u128 addr 64) @ ''/64'',
                   ipv6_to_string net (mask_u128 addr 56) @ ''/56'',
                   ipv6_to_string net (mask_u128 addr 48) @ ''/48''))"

definition bump_failure_entry :: "failure_entry \<Rightarrow> int \<Rightarrow> failure_entry" where
  "bump_failure_entry cur time =
     (case cur of (t, minute, tot) \<Rightarrow>
        if t = time then (t, wrap_i32 (minute + 1), wrap_i32 (tot + 1))
        else (time, 1, wrap_i32 (tot + 1)))"

definition bump_key :: "(string \<rightharpoonup> failure_entry) \<Rightarrow> int \<Rightarrow> string \<Rightarrow> (string \<rightharpoonup> failure_entry)" where
  "bump_key m time key = m(key \<mapsto> bump_failure_entry (unwrap_or (m key) (0, 0, 0)) time)"

definition update_failure_with_scope ::
  "ipv6_text \<Rightarrow> string \<Rightarrow> int \<Rightarrow> failure_entry \<times> int \<Rightarrow> bool \<Rightarrow> nat \<Rightarrow> failure_scope
     \<Rightarrow> login_guard \<Rightarrow> login_guard" where
  "update_failure_with_scope net ip now_ms ft remove i scope g =
     (case ft of (failure, time) \<Rightarrow>
        if scope = TerminalOsLogin then
          (if \<not> remove
           then g\<lparr>os_credential_state :=
                   record_os_credential_failure scope now_ms (os_credential_state g)\<rparr>
           else g)
        else
          let m = login_failures g i
          in if remove then
               (if fst failure \<noteq> 0 then
                  (case get_ipv6_prefixes net ip of
                     Some (p64, p56, p48) \<Rightarrow>
                       g\<lparr>login_failures := (login_failures g)
                          (i := map_remove (map_remove (map_remove (map_remove m p64) p56) p48) ip)\<rparr>
                   | None \<Rightarrow>
                       g\<lparr>login_failures := (login_failures g)(i := map_remove m ip)\<rparr>)
                else g)
             else
               (case get_ipv6_prefixes net ip of
                  Some (p64, p56, p48) \<Rightarrow>
                    g\<lparr>login_failures := (login_failures g)
                       (i := bump_key (bump_key (bump_key (bump_key m time p64) time p56) time p48)
                               time ip)\<rparr>
                | None \<Rightarrow>
                    g\<lparr>login_failures := (login_failures g)(i := bump_key m time ip)\<rparr>))"

definition check_failure_ipv6_prefix ::
  "nat \<Rightarrow> int \<Rightarrow> string \<Rightarrow> int \<Rightarrow> int \<Rightarrow> login_guard
     \<Rightarrow> (guard_effect list \<times> failure_entry \<times> int) option" where
  "check_failure_ipv6_prefix i time prefix prefix_num thresh g =
     (let failure_prefix = unwrap_or (login_failures g i prefix) (0, 0, 0)
      in if thresh < snd (snd failure_prefix)
         then Some ([SendLoginError (''Too many wrong attempts for IPv6 prefix /'' @ show_int prefix_num),
                     PostAlarm ExceedIPv6PrefixAttempts], failure_prefix, time)
         else None)"

text \<open>
  The check before a login attempt: the new state (the back-off state may be normalised), the
  messages and alarms it causes, the counters to hand back to \<open>update_failure\<close>, and whether the
  attempt may go on.
\<close>

type_synonym check_result =
  "login_guard \<times> guard_effect list \<times> (failure_entry \<times> int) \<times> bool"

definition check_failure_os :: "int \<Rightarrow> failure_scope \<Rightarrow> login_guard \<Rightarrow> check_result" where
  "check_failure_os now_ms scope g =
     (let time = wrap_i32 (quot_i64 now_ms 60000);
          (st, decision) = evaluate_os_credential_policy scope now_ms (os_credential_state g);
          g = g\<lparr>os_credential_state := st\<rparr>
      in if allowed decision then (g, [], ((0, 0, 0), time), True)
         else (g,
               (case login_error decision of Some e \<Rightarrow> [SendLoginError e] | None \<Rightarrow> [])
               @ (case audit decision of Some a \<Rightarrow> [PostAlarm a] | None \<Rightarrow> []),
               ((0, 0, 0), time), False))"

definition check_failure_address :: "string \<Rightarrow> nat \<Rightarrow> int \<Rightarrow> login_guard \<Rightarrow> check_result" where
  "check_failure_address ip i time g =
     (let failure = unwrap_or (login_failures g i ip) (0, 0, 0)
      in case failure of (t, minute, tot) \<Rightarrow>
           if 30 < tot then
             (g, [SendLoginError ''Too many wrong attempts'', PostAlarm ExceedThirtyAttempts],
              (failure, time), False)
           else if time = t \<and> 6 < minute then
             (g, [SendLoginError ''Please try 1 minute later'', PostAlarm SixAttemptsWithinOneMinute],
              (failure, time), False)
           else (g, [], (failure, time), True))"

definition check_failure_with_scope ::
  "ipv6_text \<Rightarrow> string \<Rightarrow> int \<Rightarrow> nat \<Rightarrow> failure_scope \<Rightarrow> login_guard \<Rightarrow> check_result" where
  "check_failure_with_scope net ip now_ms i scope g =
     (let time = wrap_i32 (quot_i64 now_ms 60000)
      in if scope = TerminalOsLogin then check_failure_os now_ms scope g
         else
           case get_ipv6_prefixes net ip of
             None \<Rightarrow> check_failure_address ip i time g
           | Some (p64, p56, p48) \<Rightarrow>
               (case check_failure_ipv6_prefix i time p64 64 60 g of
                  Some (es, ft) \<Rightarrow> (g, es, ft, False)
                | None \<Rightarrow>
                    (case check_failure_ipv6_prefix i time p56 56 80 g of
                       Some (es, ft) \<Rightarrow> (g, es, ft, False)
                     | None \<Rightarrow>
                         (case check_failure_ipv6_prefix i time p48 48 100 g of
                            Some (es, ft) \<Rightarrow> (g, es, ft, False)
                          | None \<Rightarrow> check_failure_address ip i time g))))"

definition check_failure ::
  "ipv6_text \<Rightarrow> string \<Rightarrow> int \<Rightarrow> nat \<Rightarrow> login_guard \<Rightarrow> check_result" where
  "check_failure net ip now_ms i g = check_failure_with_scope net ip now_ms i Default g"

definition update_failure ::
  "ipv6_text \<Rightarrow> string \<Rightarrow> int \<Rightarrow> failure_entry \<times> int \<Rightarrow> bool \<Rightarrow> nat \<Rightarrow> login_guard \<Rightarrow> login_guard" where
  "update_failure net ip now_ms ft remove i g =
     update_failure_with_scope net ip now_ms ft remove i Default g"

text \<open>
  A wrong attempt as the login handlers make it: check, and when the check lets it through, record
  the failure. The sequence counts the attempts that reached the password check.
\<close>

definition failed_attempt ::
  "ipv6_text \<Rightarrow> nat \<Rightarrow> string \<times> int \<Rightarrow> login_guard \<Rightarrow> login_guard \<times> bool" where
  "failed_attempt net i a g =
     (case a of (ip, now_ms) \<Rightarrow>
        case check_failure net ip now_ms i g of
          (g', _, ft, ok) \<Rightarrow>
            if ok then (update_failure net ip now_ms ft False i g', True) else (g', False))"

fun run_attempts :: "('a \<Rightarrow> 's \<Rightarrow> 's \<times> bool) \<Rightarrow> 'a list \<Rightarrow> 's \<Rightarrow> 's \<times> nat" where
  "run_attempts f [] s = (s, 0)"
| "run_attempts f (a # as) s =
     (case f a s of (s', ok) \<Rightarrow>
        (case run_attempts f as s' of (s'', n) \<Rightarrow> (s'', if ok then Suc n else n)))"

definition failed_attempts ::
  "ipv6_text \<Rightarrow> nat \<Rightarrow> (string \<times> int) list \<Rightarrow> login_guard \<Rightarrow> login_guard \<times> nat" where
  "failed_attempts net i as g = run_attempts (failed_attempt net i) as g"


record guess_sys =
  gs_guard :: login_guard
  open_attempts :: "(string \<times> int \<times> failure_entry \<times> int) list"
  passed :: nat





section \<open>Lemmas: back-off\<close>

lemmas os_constants =
  OS_CREDENTIAL_LOGIN_TOTAL_IDLE_RESET_MS_def OS_CREDENTIAL_LOGIN_BACKOFF_BASE_SECONDS_def
  OS_CREDENTIAL_LOGIN_BACKOFF_MAX_SECONDS_def

lemma backoff_seconds_eq:
  "os_credential_login_backoff_seconds n = (if n \<le> 2 then 0 else min (15 * 2 ^ nat (min (n - 3) 7)) 1800)"
  by (simp add: os_credential_login_backoff_seconds_def os_constants Let_def)

lemma backoff_seconds_mono:
  assumes "m \<le> n"
  shows "os_credential_login_backoff_seconds m \<le> os_credential_login_backoff_seconds n"
proof (cases "m \<le> 2")
  case True
  then show ?thesis by (simp add: backoff_seconds_eq)
next
  case False
  with assms have "nat (min (m - 3) 7) \<le> nat (min (n - 3) 7)" by (simp add: nat_le_iff)
  then have "15 * (2::int) ^ nat (min (m - 3) 7) \<le> 15 * 2 ^ nat (min (n - 3) 7)"
    by simp
  then have "min (15 * (2::int) ^ nat (min (m - 3) 7)) 1800 \<le> min (15 * 2 ^ nat (min (n - 3) 7)) 1800"
    by (rule min.mono) simp
  with False assms show ?thesis unfolding backoff_seconds_eq by simp
qed

lemma backoff_seconds_range:
  "0 \<le> os_credential_login_backoff_seconds n" "os_credential_login_backoff_seconds n \<le> 1800"
  "0 < os_credential_login_backoff_seconds n \<longleftrightarrow> 2 < n"
  by (simp_all add: backoff_seconds_eq)

text \<open>
  The back-off grows with the number of failures, starts after the third, and is never longer
  than thirty minutes.
\<close>
theorem backoff_seconds_schedule:
  "0 \<le> os_credential_login_backoff_seconds n \<and> os_credential_login_backoff_seconds n \<le> 1800
   \<and> (0 < os_credential_login_backoff_seconds n \<longleftrightarrow> 3 \<le> n)
   \<and> os_credential_login_backoff_seconds n \<le> os_credential_login_backoff_seconds (n + int k)"
  using backoff_seconds_range [of n] backoff_seconds_mono [of n "n + int k"] by auto

text \<open>Failures at the given times, oldest first, none two hours after the one before.\<close>

fun record_failures :: "int list \<Rightarrow> os_credential_failure_state \<Rightarrow> os_credential_failure_state" where
  "record_failures [] st = st"
| "record_failures (t # ts) st = record_failures ts (record_os_credential_failure TerminalOsLogin t st)"

fun spaced :: "int \<Rightarrow> int list \<Rightarrow> bool" where
  "spaced t [] = True"
| "spaced t (u # us) = (t \<le> u \<and> u - t < OS_CREDENTIAL_LOGIN_TOTAL_IDLE_RESET_MS \<and> spaced u us)"

definition after_failures :: "int \<Rightarrow> int \<Rightarrow> os_credential_failure_state \<Rightarrow> bool" where
  "after_failures n t st \<longleftrightarrow>
     total_failures st = n \<and> last_failure_ms st = Some t \<and>
     backoff_until_ms st =
       (if n \<le> 2 then None else Some (t + os_credential_login_backoff_seconds n * 1000))"

lemma reset_on_idle_recent:
  assumes "last_failure_ms st = Some t" "t \<le> u" "u - t < OS_CREDENTIAL_LOGIN_TOTAL_IDLE_RESET_MS"
  shows "reset_totals_on_idle st u = st"
  using assms by (auto simp: reset_totals_on_idle_def saturate_def os_constants i64_min_def i64_max_def)

lemma record_failure_step:
  assumes "after_failures n t st" "t \<le> u" "u - t < OS_CREDENTIAL_LOGIN_TOTAL_IDLE_RESET_MS"
    and "0 \<le> n" "n < i32_max"
  shows "after_failures (n + 1) u (record_os_credential_failure TerminalOsLogin u st)"
proof -
  from assms(1) have "reset_totals_on_idle st u = st"
    using reset_on_idle_recent assms(2,3) by (auto simp: after_failures_def)
  moreover have "saturate i32_min i32_max (n + 1) = n + 1"
    using assms(4,5) by (auto simp: saturate_def i32_min_def i32_max_def)
  ultimately show ?thesis
    using assms(1) backoff_seconds_range [of "n + 1"]
    by (auto simp: after_failures_def record_os_credential_failure_def is_os_credential_scope_def
          normalize_backoff_def Let_def)
qed

lemma record_failures_spaced:
  assumes "after_failures n t st" "spaced t ts" "0 \<le> n" "n + int (length ts) \<le> i32_max"
  shows "after_failures (n + int (length ts)) (last (t # ts)) (record_failures ts st)"
  using assms
proof (induction ts arbitrary: n t st)
  case (Cons u us)
  then have "after_failures (n + 1) u (record_os_credential_failure TerminalOsLogin u st)"
    by (intro record_failure_step) auto
  from Cons.IH [OF this] Cons.prems show ?case by (simp add: algebra_simps)
qed simp

lemma first_failure:
  "after_failures 1 t
     (record_os_credential_failure TerminalOsLogin t default_os_credential_failure_state)"
  by (simp add: after_failures_def record_os_credential_failure_def is_os_credential_scope_def
        normalize_backoff_def reset_totals_on_idle_def default_os_credential_failure_state_def
        Let_def saturate_def i32_min_def i32_max_def backoff_seconds_eq)

lemma evaluate_after_failures:
  assumes "after_failures n t st" "t \<le> u" "0 \<le> n"
  shows "allowed (snd (evaluate_os_credential_policy TerminalOsLogin u st)) \<longleftrightarrow>
           t + os_credential_login_backoff_seconds n * 1000 \<le> u"
proof (cases "u - t < OS_CREDENTIAL_LOGIN_TOTAL_IDLE_RESET_MS")
  case True
  with assms have "reset_totals_on_idle st u = st"
    using reset_on_idle_recent by (auto simp: after_failures_def)
  with assms backoff_seconds_range [of n] show ?thesis
    by (auto simp: evaluate_os_credential_policy_def is_os_credential_scope_def after_failures_def
          normalize_backoff_def Let_def allow_decision_def block_decision_def)
next
  case False
  then have "os_credential_login_backoff_seconds n * 1000 \<le> u - t"
    using backoff_seconds_range(2) [of n] by (simp add: os_constants)
  moreover have "backoff_until_ms (reset_totals_on_idle st u) = None"
    using False assms by (auto simp: after_failures_def reset_totals_on_idle_def saturate_def
        os_constants i64_min_def i64_max_def)
  ultimately show ?thesis
    by (auto simp: evaluate_os_credential_policy_def is_os_credential_scope_def
          normalize_backoff_def Let_def allow_decision_def)
qed

lemma blocked_is_audited:
  assumes "\<not> allowed (snd (evaluate_os_credential_policy scope u st))"
  shows "audit (snd (evaluate_os_credential_policy scope u st)) = Some TerminalOsLoginBackoff"
    and "login_error (snd (evaluate_os_credential_policy scope u st)) \<noteq> None"
  using assms
  by (auto simp: evaluate_os_credential_policy_def Let_def allow_decision_def block_decision_def
        is_os_credential_scope_def backoff_audit_type_for_scope_def split: option.splits if_splits)

text \<open>
  After a run of failed operating-system logins, none two hours after the one before, a further
  login is refused exactly during the back-off that belongs to the number of failures, counted from
  the last of them, and every refusal carries a message and the back-off audit.
\<close>
theorem os_login_blocked_during_backoff:
  assumes "spaced t ts" "int (length (t # ts)) \<le> i32_max" "last (t # ts) \<le> now"
  defines "st \<equiv> record_failures (t # ts) default_os_credential_failure_state"
    and "decision \<equiv> snd (evaluate_os_credential_policy TerminalOsLogin now
            (record_failures (t # ts) default_os_credential_failure_state))"
  shows "(allowed decision \<longleftrightarrow>
            last (t # ts) + os_credential_login_backoff_seconds (int (length (t # ts))) * 1000 \<le> now)
         \<and> (\<not> allowed decision \<longrightarrow>
              audit decision = Some TerminalOsLoginBackoff \<and> login_error decision \<noteq> None)"
proof -
  have "after_failures (1 + int (length ts)) (last (t # ts)) st"
    unfolding st_def record_failures.simps
    by (rule record_failures_spaced [OF first_failure assms(1)]) (use assms(2) in auto)
  from evaluate_after_failures [OF this assms(3)] blocked_is_audited
  show ?thesis by (simp add: st_def decision_def add.commute)
qed

theorem os_login_blocked_during_backoff_witness:
  "\<not> allowed (snd (evaluate_os_credential_policy TerminalOsLogin 17000
       (record_failures [1000, 2000, 3000] default_os_credential_failure_state)))"
  using os_login_blocked_during_backoff [of 1000 "[2000, 3000]" 17000]
  by (simp add: os_constants i32_max_def backoff_seconds_eq)

section \<open>Lemmas: attempts\<close>

text \<open>
  A throttled operation: attempts that pass raise a counter that must not have passed the limit.
  However long the sequence, at most \<open>limit + 1 - count\<close> of its attempts pass.
\<close>

locale throttle =
  fixes attempt :: "'a \<Rightarrow> 's \<Rightarrow> 's \<times> bool"
    and inv :: "'s \<Rightarrow> bool"
    and count :: "'s \<Rightarrow> int"
    and concerns :: "'a \<Rightarrow> bool"
    and limit :: int
  assumes attempt_inv: "inv s \<Longrightarrow> inv (fst (attempt a s))"
    and refused: "\<not> snd (attempt a s) \<Longrightarrow> count (fst (attempt a s)) = count s"
    and passed: "inv s \<Longrightarrow> concerns a \<Longrightarrow> snd (attempt a s) \<Longrightarrow>
                   count s \<le> limit \<and> count s + 1 \<le> count (fst (attempt a s))"
begin

lemma run_bound:
  "inv s \<Longrightarrow> (\<And>a. a \<in> set as \<Longrightarrow> concerns a) \<Longrightarrow>
     int (snd (run_attempts attempt as s)) \<le> max 0 (limit + 1 - count s)"
proof (induction as arbitrary: s)
  case Nil
  then show ?case by simp
next
  case (Cons a as)
  obtain s' ok where a: "attempt a s = (s', ok)" by force
  from attempt_inv [OF Cons.prems(1), of a] a have "inv s'" by simp
  from Cons.IH [OF this] Cons.prems(2)
  have IH: "int (snd (run_attempts attempt as s')) \<le> max 0 (limit + 1 - count s')" by auto
  show ?case
  proof (cases ok)
    case True
    with passed [OF Cons.prems(1) Cons.prems(2) [of a]] a IH show ?thesis
      by (auto split: prod.splits)
  next
    case False
    with refused [of a s] a IH show ?thesis by (auto split: prod.splits)
  qed
qed

end

definition entry_of :: "login_guard \<Rightarrow> nat \<Rightarrow> string \<Rightarrow> failure_entry" where
  "entry_of g i key = unwrap_or (login_failures g i key) (0, 0, 0)"

definition attempts_of :: "nat \<Rightarrow> string \<Rightarrow> login_guard \<Rightarrow> int" where
  "attempts_of i key g = snd (snd (entry_of g i key))"

definition minute_attempts_of :: "nat \<Rightarrow> string \<Rightarrow> int \<Rightarrow> login_guard \<Rightarrow> int" where
  "minute_attempts_of i key time g =
     (case entry_of g i key of (t, minute, _) \<Rightarrow> if t = time then minute else 0)"

text \<open>Type invariant: every stored counter is an \<open>i32\<close>.\<close>

definition is_i32 :: "int \<Rightarrow> bool" where
  "is_i32 x \<longleftrightarrow> i32_min \<le> x \<and> x \<le> i32_max"

definition map_i32 :: "(string \<rightharpoonup> failure_entry) \<Rightarrow> bool" where
  "map_i32 m \<longleftrightarrow>
     (\<forall>key t minute tot. m key = Some (t, minute, tot) \<longrightarrow> is_i32 minute \<and> is_i32 tot)"

definition entries_i32 :: "login_guard \<Rightarrow> bool" where
  "entries_i32 g \<longleftrightarrow> (\<forall>i. map_i32 (login_failures g i))"

lemma is_i32_simps [simp]: "is_i32 0" "is_i32 1" "is_i32 (wrap_i32 x)"
  using wrap_i32_range [of x] by (simp_all add: is_i32_def i32_min_def i32_max_def)

lemma map_i32_bump: "map_i32 m \<Longrightarrow> map_i32 (bump_key m time k)"
  by (auto simp: map_i32_def bump_key_def bump_failure_entry_def split: prod.splits if_splits)

lemma map_i32_entry:
  "map_i32 m \<Longrightarrow> unwrap_or (m k) (0, 0, 0) = (t, mi, c) \<Longrightarrow> is_i32 mi \<and> is_i32 c"
  by (cases "m k") (auto simp: map_i32_def)

definition cnt :: "(string \<rightharpoonup> failure_entry) \<Rightarrow> string \<Rightarrow> int" where
  "cnt m key = snd (snd (unwrap_or (m key) (0, 0, 0)))"

definition minute_cnt :: "int \<Rightarrow> (string \<rightharpoonup> failure_entry) \<Rightarrow> string \<Rightarrow> int" where
  "minute_cnt time m key =
     (case unwrap_or (m key) (0, 0, 0) of (t, minute, _) \<Rightarrow> if t = time then minute else 0)"

lemma bump_failure_entry_total:
  assumes "is_i32 c" "c \<le> 1000"
  shows "snd (snd (bump_failure_entry (t, mi, c) time)) = c + 1"
  using assms by (simp add: bump_failure_entry_def is_i32_def i32_min_def wrap_i32_id)

lemma cnt_bump:
  assumes "map_i32 m" "cnt m key \<le> 1000"
  shows "cnt (bump_key m time k) key = cnt m key + (if k = key then 1 else 0)"
proof -
  obtain t mi c where e: "unwrap_or (m k) (0, 0, 0) = (t, mi, c)" by (metis prod_cases3)
  with map_i32_entry [OF assms(1)] have "is_i32 c" by blast
  with e assms(2) show ?thesis
    using bump_failure_entry_total [of c t mi time] by (auto simp: cnt_def bump_key_def)
qed

lemma minute_cnt_bump_same:
  assumes "map_i32 m" "minute_cnt time m key \<le> 1000"
  shows "minute_cnt time (bump_key m time key) key = minute_cnt time m key + 1"
proof -
  obtain t mi c where e: "unwrap_or (m key) (0, 0, 0) = (t, mi, c)" by (metis prod_cases3)
  with map_i32_entry [OF assms(1)] have "is_i32 mi" by blast
  with e assms(2) show ?thesis
    by (auto simp: minute_cnt_def bump_key_def bump_failure_entry_def is_i32_def i32_min_def
          wrap_i32_id split: if_splits)
qed

section \<open>Attempts that pass\<close>

definition minute_of :: "int \<Rightarrow> int" where
  "minute_of now_ms = wrap_i32 (quot_i64 now_ms 60000)"

lemma failed_attempt_refused: "\<not> snd (failed_attempt net i a g) \<Longrightarrow> fst (failed_attempt net i a g) = g"
  by (auto simp: failed_attempt_def check_failure_def check_failure_with_scope_def Let_def
        check_failure_address_def check_failure_ipv6_prefix_def split: branches)

lemma failed_attempt_passed_v4:
  assumes "get_ipv6_prefixes net ip = None" "snd (failed_attempt net i (ip, now) g)"
  shows "login_failures (fst (failed_attempt net i (ip, now) g)) =
           (login_failures g)(i := bump_key (login_failures g i) (minute_of now) ip)"
    and "cnt (login_failures g i) ip \<le> 30"
    and "minute_cnt (minute_of now) (login_failures g i) ip \<le> 6"
  using assms
  by (auto simp: failed_attempt_def check_failure_def check_failure_with_scope_def Let_def
        check_failure_address_def update_failure_def update_failure_with_scope_def minute_of_def
        cnt_def minute_cnt_def split: branches)

lemma failed_attempt_passed_v6:
  assumes "get_ipv6_prefixes net ip = Some (p64, p56, p48)" "snd (failed_attempt net i (ip, now) g)"
  shows "login_failures (fst (failed_attempt net i (ip, now) g)) =
           (login_failures g)(i := bump_key (bump_key (bump_key (bump_key (login_failures g i)
              (minute_of now) p64) (minute_of now) p56) (minute_of now) p48) (minute_of now) ip)"
    and "cnt (login_failures g i) p64 \<le> 60"
    and "cnt (login_failures g i) p56 \<le> 80"
    and "cnt (login_failures g i) p48 \<le> 100"
    and "cnt (login_failures g i) ip \<le> 30"
  using assms
  by (auto simp: failed_attempt_def check_failure_def check_failure_with_scope_def Let_def
        check_failure_address_def check_failure_ipv6_prefix_def update_failure_def
        update_failure_with_scope_def minute_of_def cnt_def split: branches)

lemma failed_attempt_inv:
  assumes "entries_i32 g"
  shows "entries_i32 (fst (failed_attempt net i a g))"
proof (cases "snd (failed_attempt net i a g)")
  case False
  with assms show ?thesis by (simp add: failed_attempt_refused)
next
  case True
  obtain ip now where a: "a = (ip, now)" by force
  show ?thesis
  proof (cases "get_ipv6_prefixes net ip")
    case None
    with True a assms show ?thesis
      by (auto simp: failed_attempt_passed_v4 entries_i32_def map_i32_bump)
  next
    case (Some ps)
    then obtain p64 p56 p48 where "get_ipv6_prefixes net ip = Some (p64, p56, p48)"
      by (metis prod_cases3)
    with True a assms show ?thesis
      by (auto simp: failed_attempt_passed_v6 entries_i32_def map_i32_bump)
  qed
qed

lemma cnt_bump4:
  assumes "map_i32 m" "cnt m key \<le> 900" "key \<in> {k1, k2, k3, k4}"
  shows "cnt m key + 1 \<le> cnt (bump_key (bump_key (bump_key (bump_key m t k1) t k2) t k3) t k4) key"
proof -
  let ?c = "\<lambda>k. (if k = key then 1 else 0) :: int"
  have "cnt (bump_key (bump_key (bump_key (bump_key m t k1) t k2) t k3) t k4) key =
          cnt m key + ?c k1 + ?c k2 + ?c k3 + ?c k4"
    using assms(1,2) by (simp add: cnt_bump map_i32_bump)
  with assms(3) show ?thesis by auto
qed

section \<open>The throttles\<close>

text \<open>The prefix of length 64, 56 or 48 that the attempts come from, with its limit.\<close>

definition prefix_limit :: "nat \<Rightarrow> int" where
  "prefix_limit len = (if len = 64 then 60 else if len = 56 then 80 else 100)"

definition ipv6_prefix :: "ipv6_text \<Rightarrow> nat \<Rightarrow> string \<Rightarrow> string option" where
  "ipv6_prefix net len ip =
     (case get_ipv6_prefixes net ip of
        None \<Rightarrow> None
      | Some (p64, p56, p48) \<Rightarrow>
          Some (if len = 64 then p64 else if len = 56 then p56 else p48))"

interpretation prefix_throttle: throttle
  "failed_attempt net i" entries_i32 "\<lambda>g. cnt (login_failures g i) p"
  "\<lambda>a. ipv6_prefix net len (fst a) = Some p" "prefix_limit len" for net i p len
proof (unfold_locales, goal_cases)
  case (1 s a)
  then show ?case by (rule failed_attempt_inv)
next
  case (2 a s)
  then show ?case by (simp add: failed_attempt_refused)
next
  case (3 s a)
  obtain ip now where a: "a = (ip, now)" by force
  with 3(2) obtain p64 p56 p48 where ps: "get_ipv6_prefixes net ip = Some (p64, p56, p48)"
    and p: "p = (if len = 64 then p64 else if len = 56 then p56 else p48)"
    by (auto simp: ipv6_prefix_def split: option.splits)
  from 3(3) a have ok: "snd (failed_attempt net i (ip, now) s)" by simp
  note f = failed_attempt_passed_v6 [OF ps ok]
  from p f have le: "cnt (login_failures s i) p \<le> prefix_limit len"
    by (simp add: prefix_limit_def)
  moreover have "prefix_limit len \<le> 900" by (simp add: prefix_limit_def)
  ultimately show ?case
    using 3(1) p a f(1) cnt_bump4 [of "login_failures s i" p p64 p56 p48 ip "minute_of now"]
    by (auto simp: entries_i32_def)
qed

interpretation address_throttle: throttle
  "failed_attempt net i" entries_i32 "\<lambda>g. cnt (login_failures g i) ip"
  "\<lambda>a. fst a = ip" 30 for net i ip
proof (unfold_locales, goal_cases)
  case (1 s a)
  then show ?case by (rule failed_attempt_inv)
next
  case (2 a s)
  then show ?case by (simp add: failed_attempt_refused)
next
  case (3 s a)
  then obtain now where a: "a = (ip, now)" by (cases a) auto
  show ?case
  proof (cases "get_ipv6_prefixes net ip")
    case None
    with 3 a failed_attempt_passed_v4 [of net ip i now s] show ?thesis
      by (auto simp: entries_i32_def cnt_bump)
  next
    case (Some ps)
    then obtain p64 p56 p48 where "get_ipv6_prefixes net ip = Some (p64, p56, p48)"
      by (metis prod_cases3)
    with 3 a failed_attempt_passed_v6 [of net ip p64 p56 p48 i now s]
      cnt_bump4 [of "login_failures s i" ip p64 p56 p48 ip "minute_of now"]
    show ?thesis by (auto simp: entries_i32_def)
  qed
qed

interpretation minute_throttle: throttle
  "failed_attempt net i" entries_i32 "\<lambda>g. minute_cnt minute (login_failures g i) ip"
  "\<lambda>a. fst a = ip \<and> minute_of (snd a) = minute \<and> get_ipv6_prefixes net ip = None" 6
  for net i ip minute
proof (unfold_locales, goal_cases)
  case (1 s a)
  then show ?case by (rule failed_attempt_inv)
next
  case (2 a s)
  then show ?case by (simp add: failed_attempt_refused)
next
  case (3 s a)
  then obtain now where a: "a = (ip, now)" "minute_of now = minute" by (cases a) auto
  with 3 failed_attempt_passed_v4 [of net ip i now s] show ?case
    by (auto simp: entries_i32_def minute_cnt_bump_same)
qed

section \<open>Bounds on guesses\<close>

definition no_failures :: login_guard where
  "no_failures = \<lparr>login_failures = (\<lambda>_. Map.empty),
     os_credential_state = default_os_credential_failure_state\<rparr>"

lemma no_failures_simps [simp]:
  "entries_i32 no_failures" "cnt (login_failures no_failures i) k = 0"
  "minute_cnt minute (login_failures no_failures i) k = 0"
  by (simp_all add: no_failures_def entries_i32_def map_i32_def cnt_def minute_cnt_def)







text \<open>The network part of an address: its leading \<open>len\<close> bits.\<close>

definition ipv6_network :: "ipv6_text \<Rightarrow> nat \<Rightarrow> string \<Rightarrow> 128 word option" where
  "ipv6_network net len ip =
     map_option (drop_bit (128 - len)) (ipv6_from_str net (trim (takeWhile (\<lambda>c. c \<noteq> CHR ''%'') ip)))"

lemma mask_u128_network:
  "0 < len \<Longrightarrow> len \<le> 128 \<Longrightarrow> mask_u128 addr len = push_bit (128 - len) (drop_bit (128 - len) addr)"
  by (rule bit_word_eqI) (auto simp: mask_u128_def bit_simps)

lemma show_prefix_length: "show_nat 64 = ''64''" "show_nat 56 = ''56''" "show_nat 48 = ''48''"
  by code_simp+

lemma ipv6_prefix_of_network:
  assumes "ipv6_network net len ip = Some d" "len \<in> {64, 56, 48}"
  shows "ipv6_prefix net len ip =
           Some (ipv6_to_string net (push_bit (128 - len) d) @ CHR ''/'' # show_nat len)"
  using assms
  by (auto simp: ipv6_network_def ipv6_prefix_def get_ipv6_prefixes_def Let_def mask_u128_network
        show_prefix_length)

text \<open>
  An attacker who owns a whole IPv6 network and changes the address for every try gets at most
  61 guesses from a /64, 81 from a /56 and 101 from a /48.
\<close>
theorem guesses_per_ipv6_prefix_bounded:
  assumes "len \<in> {64, 56, 48}"
    and "\<And>a. a \<in> set as \<Longrightarrow> ipv6_network net len (fst a) = Some d"
  shows "int (snd (failed_attempts net i as no_failures)) \<le> prefix_limit len + 1"
proof -
  have "ipv6_prefix net len (fst a) =
          Some (ipv6_to_string net (push_bit (128 - len) d) @ CHR ''/'' # show_nat len)"
    if "a \<in> set as" for a
    using ipv6_prefix_of_network assms that by blast
  from prefix_throttle.run_bound [OF no_failures_simps(1) this] show ?thesis
    by (simp add: failed_attempts_def prefix_limit_def)
qed

text \<open>Two addresses of \<open>::/64\<close>, as the text conversions read and print them.\<close>

definition loopback_text :: ipv6_text where
  "loopback_text = \<lparr>ipv6_from_str = (\<lambda>s. if s = ''::1'' then Some 1 else if s = ''::2'' then Some 2 else None),
     ipv6_to_string = (\<lambda>w. if w = 0 then ''::'' else if w = 1 then ''::1'' else ''::2'')\<rparr>"

theorem guesses_per_ipv6_prefix_bounded_witness:
  "int (snd (failed_attempts loopback_text 0
     (concat (replicate 80 [(''::1'', 60000), (''::2'', 120000)])) no_failures)) \<le> 61"
proof -
  have p: "ipv6_network loopback_text 64 ''::1'' = Some 0"
    "ipv6_network loopback_text 64 ''::2'' = Some 0"
    by (simp_all add: ipv6_network_def loopback_text_def trim_def trim_end_def
          trim_start_def is_ws_def)
  have "int (snd (failed_attempts loopback_text 0
     (concat (replicate 80 [(''::1'', 60000), (''::2'', 120000)])) no_failures)) \<le> prefix_limit 64 + 1"
    by (rule guesses_per_ipv6_prefix_bounded [where d = 0]) (auto simp: p)
  then show ?thesis by (simp add: prefix_limit_def)
qed

text \<open>
  Within one minute at most seven wrong passwords from one IPv4 address are compared.
\<close>
theorem guesses_per_minute_bounded:
  assumes "get_ipv6_prefixes net ip = None"
    and "\<And>a. a \<in> set as \<Longrightarrow> fst a = ip \<and> minute_of (snd a) = minute"
  shows "snd (failed_attempts net i as no_failures) \<le> 7"
  using minute_throttle.run_bound [of no_failures as ip minute net i] assms
  by (simp add: failed_attempts_def)

theorem guesses_per_minute_bounded_witness:
  "snd (failed_attempts \<lparr>ipv6_from_str = \<lambda>_. None, ipv6_to_string = \<lambda>_. []\<rparr> 0
     (replicate 100 (''192.0.2.7'', 60000)) no_failures) \<le> 7"
  by (rule guesses_per_minute_bounded [where ip = "''192.0.2.7''" and minute = "minute_of 60000"])
     (auto simp: get_ipv6_prefixes_def)

end
