(* ===== verification/SessionScope.thy ===== *)
theory SessionScope
  imports Prelude
begin

text \<open>
  Session scopes of \<^verbatim>\<open>src/server/connection.rs\<close>: after login a connection has one of five types, and
  every message it then sends is checked against the messages that type may send. The wire types
  (\<open>Message\<close>, \<open>Misc\<close>, \<open>OptionMessage\<close>) follow the protocol schema; a payload that the checks never
  read is the opaque type \<open>'p\<close>. An enum field of a message is its wire integer
  (\<open>EnumOrUnknown\<close>), read with \<open>enum_value\<close>. The argument \<open>windows\<close> is \<open>cfg!(windows)\<close>.
\<close>

section \<open>Wire types\<close>

datatype bool_option = BO_NotSet | BO_No | BO_Yes

datatype image_quality = IQ_NotSet | IQ_Low | IQ_Balanced | IQ_Best

text \<open>\<open>EnumOrUnknown::enum_value\<close>: the variant of a known number, else the number as error.\<close>

definition bool_option_enum_value :: "int \<Rightarrow> (int, bool_option) result" where
  "bool_option_enum_value n =
     (if n = 0 then Inr BO_NotSet else if n = 1 then Inr BO_No
      else if n = 2 then Inr BO_Yes else Inl n)"

definition bool_option_value :: "bool_option \<Rightarrow> int" where
  "bool_option_value b = (case b of BO_NotSet \<Rightarrow> 0 | BO_No \<Rightarrow> 1 | BO_Yes \<Rightarrow> 2)"

definition image_quality_enum_value :: "int \<Rightarrow> (int, image_quality) result" where
  "image_quality_enum_value n =
     (if n = 0 then Inr IQ_NotSet else if n = 2 then Inr IQ_Low
      else if n = 3 then Inr IQ_Balanced else if n = 4 then Inr IQ_Best else Inl n)"

lemma bool_option_value_inverse [simp]: "bool_option_enum_value n = Inr b \<Longrightarrow> bool_option_value b = n"
  by (auto simp: bool_option_enum_value_def bool_option_value_def split: if_splits)

lemma bool_option_not_set_iff [simp]: "bool_option_enum_value n = Inr BO_NotSet \<longleftrightarrow> n = 0"
  by (simp add: bool_option_enum_value_def)

lemma bool_option_value_NotSet [simp]: "bool_option_value b = 0 \<longleftrightarrow> b = BO_NotSet"
  by (cases b) (simp_all add: bool_option_value_def)

lemma image_quality_not_set_iff [simp]: "image_quality_enum_value n = Inr IQ_NotSet \<longleftrightarrow> n = 0"
  by (simp add: image_quality_enum_value_def)

record 'p option_message =
  image_quality :: int
  lock_after_session_end :: int
  show_remote_cursor :: int
  privacy_mode :: int
  block_input :: int
  custom_image_quality :: int
  disable_audio :: int
  disable_clipboard :: int
  enable_file_transfer :: int
  supported_decoding :: "'p option"
  custom_fps :: int
  disable_keyboard :: int
  follow_remote_cursor :: int
  follow_remote_window :: int
  disable_camera :: int
  terminal_persistent :: int
  show_my_cursor :: int

text \<open>\<open>OptionMessage::new()\<close>: every field at its default.\<close>

definition new_option_message :: "'p option_message" where
  "new_option_message =
     \<lparr>image_quality = 0, lock_after_session_end = 0, show_remote_cursor = 0, privacy_mode = 0,
      block_input = 0, custom_image_quality = 0, disable_audio = 0, disable_clipboard = 0,
      enable_file_transfer = 0, supported_decoding = None, custom_fps = 0, disable_keyboard = 0,
      follow_remote_cursor = 0, follow_remote_window = 0, disable_camera = 0,
      terminal_persistent = 0, show_my_cursor = 0\<rparr>"

datatype 'p misc_union =
    ChatMessage 'p | SwitchDisplay 'p | PermissionInfo 'p | Option "'p option_message"
  | AudioFormat 'p | CloseReason 'p | RefreshVideo 'p | VideoReceived 'p | BackNotification 'p
  | RestartRemoteDevice 'p | Uac 'p | ForegroundWindowElevated 'p | StopService 'p
  | ElevationRequest 'p | ElevationResponse 'p | PortableServiceRunning 'p
  | SwitchSidesRequest 'p | SwitchBack 'p | ChangeResolution 'p | PluginRequest 'p
  | PluginFailure 'p | FullSpeedFps 'p | AutoAdjustFps 'p | ClientRecordStatus 'p
  | CaptureDisplays 'p | RefreshVideoDisplay 'p | ToggleVirtualDisplay 'p
  | TogglePrivacyMode 'p | SupportedEncoding 'p | SelectedSid 'p
  | ChangeDisplayResolution 'p | MessageQuery 'p | FollowCurrentDisplay 'p

datatype 'p message_union =
    SignedId 'p | PublicKey 'p | TestDelay 'p | VideoFrame 'p | LoginRequest 'p
  | LoginResponse 'p | Hash 'p | MouseEvent 'p | AudioFrame 'p | CursorData 'p
  | CursorPosition 'p | CursorId 'p | KeyEvent 'p | Clipboard 'p | FileAction 'p
  | FileResponse 'p | Misc "'p misc_union option" | Cliprdr 'p | MessageBox 'p
  | SwitchSidesResponse 'p | VoiceCallRequest 'p | VoiceCallResponse 'p | PeerInfo 'p
  | PointerDeviceEvent 'p | Auth2fa 'p | MultiClipboards 'p | ScreenshotRequest 'p
  | ScreenshotResponse 'p | TerminalAction 'p | TerminalResponse 'p

text \<open>A message is its optional union.\<close>

type_synonym 'p message = "'p message_union option"

datatype auth_conn_type = Remote | FileTransfer | PortForward | ViewCamera | Terminal

definition auth_conn_type_as_str :: "auth_conn_type \<Rightarrow> string" where
  "auth_conn_type_as_str t =
     (case t of Remote \<Rightarrow> ''remote'' | FileTransfer \<Rightarrow> ''file_transfer''
      | PortForward \<Rightarrow> ''port_forward'' | ViewCamera \<Rightarrow> ''view_camera''
      | Terminal \<Rightarrow> ''terminal'')"

section \<open>Field classes of an option message\<close>

definition is_bool_option_not_set :: "int \<Rightarrow> bool" where
  "is_bool_option_not_set n \<longleftrightarrow> bool_option_enum_value n = Inr BO_NotSet"

definition is_supported_decoding_only_option :: "'p option_message \<Rightarrow> bool" where
  "is_supported_decoding_only_option o' \<longleftrightarrow>
     supported_decoding o' \<noteq> None
     \<and> image_quality_enum_value (image_quality o') = Inr IQ_NotSet
     \<and> custom_image_quality o' = 0
     \<and> custom_fps o' = 0
     \<and> is_bool_option_not_set (lock_after_session_end o')
     \<and> is_bool_option_not_set (show_remote_cursor o')
     \<and> is_bool_option_not_set (privacy_mode o')
     \<and> is_bool_option_not_set (block_input o')
     \<and> is_bool_option_not_set (disable_audio o')
     \<and> is_bool_option_not_set (disable_clipboard o')
     \<and> is_bool_option_not_set (enable_file_transfer o')
     \<and> is_bool_option_not_set (disable_keyboard o')
     \<and> is_bool_option_not_set (follow_remote_cursor o')
     \<and> is_bool_option_not_set (follow_remote_window o')
     \<and> is_bool_option_not_set (disable_camera o')
     \<and> is_bool_option_not_set (terminal_persistent o')
     \<and> is_bool_option_not_set (show_my_cursor o')"

definition option_has_non_view_camera_login_field :: "'p option_message \<Rightarrow> bool" where
  "option_has_non_view_camera_login_field o' \<longleftrightarrow>
     \<not> (is_bool_option_not_set (lock_after_session_end o')
        \<and> is_bool_option_not_set (show_remote_cursor o')
        \<and> is_bool_option_not_set (privacy_mode o')
        \<and> is_bool_option_not_set (block_input o')
        \<and> is_bool_option_not_set (disable_clipboard o')
        \<and> is_bool_option_not_set (enable_file_transfer o')
        \<and> is_bool_option_not_set (disable_keyboard o')
        \<and> is_bool_option_not_set (follow_remote_cursor o')
        \<and> is_bool_option_not_set (follow_remote_window o')
        \<and> is_bool_option_not_set (disable_camera o')
        \<and> is_bool_option_not_set (terminal_persistent o')
        \<and> is_bool_option_not_set (show_my_cursor o'))"

definition option_has_non_terminal_login_field :: "'p option_message \<Rightarrow> bool" where
  "option_has_non_terminal_login_field o' \<longleftrightarrow>
     image_quality_enum_value (image_quality o') \<noteq> Inr IQ_NotSet
     \<or> custom_image_quality o' \<noteq> 0
     \<or> custom_fps o' \<noteq> 0
     \<or> supported_decoding o' \<noteq> None
     \<or> \<not> is_bool_option_not_set (lock_after_session_end o')
     \<or> \<not> is_bool_option_not_set (show_remote_cursor o')
     \<or> \<not> is_bool_option_not_set (privacy_mode o')
     \<or> \<not> is_bool_option_not_set (block_input o')
     \<or> \<not> is_bool_option_not_set (disable_audio o')
     \<or> \<not> is_bool_option_not_set (disable_clipboard o')
     \<or> \<not> is_bool_option_not_set (enable_file_transfer o')
     \<or> \<not> is_bool_option_not_set (disable_keyboard o')
     \<or> \<not> is_bool_option_not_set (follow_remote_cursor o')
     \<or> \<not> is_bool_option_not_set (follow_remote_window o')
     \<or> \<not> is_bool_option_not_set (disable_camera o')
     \<or> \<not> is_bool_option_not_set (show_my_cursor o')"

definition option_has_any_field :: "'p option_message \<Rightarrow> bool" where
  "option_has_any_field o' \<longleftrightarrow>
     option_has_non_terminal_login_field o' \<or> \<not> is_bool_option_not_set (terminal_persistent o')"

section \<open>Scoped options\<close>

definition scoped_terminal_login_option ::
  "'p option_message \<Rightarrow> 'p option_message option \<times> string option" where
  "scoped_terminal_login_option o' =
     (let (scoped, violation) =
            (case bool_option_enum_value (terminal_persistent o') of
               Inr value \<Rightarrow> (new_option_message\<lparr>terminal_persistent := bool_option_value value\<rparr>, False)
             | Inl _ \<Rightarrow> (new_option_message, True));
          violation = (violation \<or> option_has_non_terminal_login_field o')
      in (then_some (option_has_any_field scoped) scoped, then_some violation ''login.option''))"

definition scoped_view_camera_option ::
  "'p option_message \<Rightarrow> 'p option_message option \<times> string option" where
  "scoped_view_camera_option o' =
     (let scoped = new_option_message;
          scoped = (case image_quality_enum_value (image_quality o') of
                      Inr _ \<Rightarrow> scoped\<lparr>image_quality := image_quality o'\<rparr> | Inl _ \<Rightarrow> scoped);
          scoped = (if 0 \<le> custom_image_quality o'
                    then scoped\<lparr>custom_image_quality := custom_image_quality o'\<rparr> else scoped);
          scoped = (if 0 \<le> custom_fps o' then scoped\<lparr>custom_fps := custom_fps o'\<rparr> else scoped);
          scoped = scoped\<lparr>supported_decoding := supported_decoding o'\<rparr>;
          scoped = (case bool_option_enum_value (disable_audio o') of
                      Inr value \<Rightarrow> scoped\<lparr>disable_audio := bool_option_value value\<rparr>
                    | Inl _ \<Rightarrow> scoped);
          violation = option_has_non_view_camera_login_field o'
      in (then_some (option_has_any_field scoped) scoped, then_some violation ''login.option''))"

definition scoped_login_option ::
  "auth_conn_type \<Rightarrow> 'p option_message \<Rightarrow> 'p option_message option \<times> string option" where
  "scoped_login_option t o' =
     (case t of
        Remote \<Rightarrow> (Some o', None)
      | ViewCamera \<Rightarrow> scoped_view_camera_option o'
      | Terminal \<Rightarrow> scoped_terminal_login_option o'
      | FileTransfer \<Rightarrow> (None, then_some (option_has_any_field o') ''login.option'')
      | PortForward \<Rightarrow> (None, then_some (option_has_any_field o') ''login.option''))"

definition scoped_update_option_message ::
  "auth_conn_type option \<Rightarrow> 'p option_message \<Rightarrow> 'p option_message option" where
  "scoped_update_option_message t o' =
     (case t of
        Some ViewCamera \<Rightarrow> fst (scoped_view_camera_option o')
      | Some Terminal \<Rightarrow> fst (scoped_terminal_login_option o')
      | _ \<Rightarrow> None)"

definition is_terminal_scoped_option :: "'p option_message \<Rightarrow> bool" where
  "is_terminal_scoped_option o' \<longleftrightarrow> snd (scoped_terminal_login_option o') = None"

definition is_view_camera_scoped_option :: "'p option_message \<Rightarrow> bool" where
  "is_view_camera_scoped_option o' \<longleftrightarrow> snd (scoped_view_camera_option o') = None"

section \<open>Message classes\<close>

definition is_connection_housekeeping_message :: "'p message \<Rightarrow> bool" where
  "is_connection_housekeeping_message msg =
     (case msg of
        Some (LoginRequest _) \<Rightarrow> True
      | Some (TestDelay _) \<Rightarrow> True
      | Some (Misc misc) \<Rightarrow> (case misc of Some (CloseReason _) \<Rightarrow> True | _ \<Rightarrow> False)
      | _ \<Rightarrow> False)"

definition is_render_broadcast_noop_compat_message :: "'p message \<Rightarrow> bool" where
  "is_render_broadcast_noop_compat_message msg =
     (case msg of
        Some (Misc misc) \<Rightarrow>
          (case misc of
             Some (RefreshVideo _) \<Rightarrow> True
           | Some (RefreshVideoDisplay _) \<Rightarrow> True
           | Some (Option o') \<Rightarrow> is_supported_decoding_only_option o'
           | _ \<Rightarrow> False)
      | _ \<Rightarrow> False)"

definition is_text_clipboard_noop_compat_message :: "'p message \<Rightarrow> bool" where
  "is_text_clipboard_noop_compat_message msg =
     (case msg of Some (Clipboard _) \<Rightarrow> True | Some (MultiClipboards _) \<Rightarrow> True | _ \<Rightarrow> False)"

definition is_file_transfer_scoped_misc :: "bool \<Rightarrow> 'p misc_union option \<Rightarrow> bool" where
  "is_file_transfer_scoped_misc windows misc =
     (if windows then (case misc of Some (SelectedSid _) \<Rightarrow> True | _ \<Rightarrow> False) else False)"

definition is_file_transfer_scoped_message :: "bool \<Rightarrow> 'p message \<Rightarrow> bool" where
  "is_file_transfer_scoped_message windows msg =
     (case msg of
        Some (FileAction _) \<Rightarrow> True
      | Some (FileResponse _) \<Rightarrow> True
      | Some (Misc misc) \<Rightarrow> is_file_transfer_scoped_misc windows misc
      | _ \<Rightarrow> False)"

definition is_terminal_scoped_misc :: "'p misc_union option \<Rightarrow> bool" where
  "is_terminal_scoped_misc misc =
     (case misc of
        Some (ChatMessage _) \<Rightarrow> True
      | Some (Option o') \<Rightarrow> is_terminal_scoped_option o'
      | _ \<Rightarrow> False)"

definition is_terminal_scoped_message :: "'p message \<Rightarrow> bool" where
  "is_terminal_scoped_message msg =
     (case msg of
        Some (TerminalAction _) \<Rightarrow> True
      | Some (Misc misc) \<Rightarrow> is_terminal_scoped_misc misc
      | _ \<Rightarrow> False)"

definition is_view_camera_scoped_misc :: "bool \<Rightarrow> 'p misc_union option \<Rightarrow> bool" where
  "is_view_camera_scoped_misc windows misc =
     (case misc of
        Some (SwitchDisplay _) \<Rightarrow> True
      | Some (CaptureDisplays _) \<Rightarrow> True
      | Some (RefreshVideo _) \<Rightarrow> True
      | Some (RefreshVideoDisplay _) \<Rightarrow> True
      | Some (VideoReceived _) \<Rightarrow> True
      | Some (ChatMessage _) \<Rightarrow> True
      | Some (AudioFormat _) \<Rightarrow> True
      | Some (ClientRecordStatus _) \<Rightarrow> True
      | Some (MessageQuery _) \<Rightarrow> True
      | Some (TogglePrivacyMode _) \<Rightarrow> True
      | Some (ToggleVirtualDisplay _) \<Rightarrow> True
      | Some (ChangeResolution _) \<Rightarrow> True
      | Some (ChangeDisplayResolution _) \<Rightarrow> True
      | Some (Option o') \<Rightarrow> is_view_camera_scoped_option o'
      | Some (SelectedSid _) \<Rightarrow> windows
      | _ \<Rightarrow> False)"

definition is_view_camera_scoped_message :: "bool \<Rightarrow> 'p message \<Rightarrow> bool" where
  "is_view_camera_scoped_message windows msg =
     (case msg of
        Some (ScreenshotRequest _) \<Rightarrow> True
      | Some (Misc misc) \<Rightarrow> is_view_camera_scoped_misc windows misc
      | Some (MouseEvent _) \<Rightarrow> True
      | Some (PointerDeviceEvent _) \<Rightarrow> True
      | Some (KeyEvent _) \<Rightarrow> True
      | Some (AudioFrame _) \<Rightarrow> True
      | Some (VoiceCallRequest _) \<Rightarrow> True
      | Some (VoiceCallResponse _) \<Rightarrow> True
      | _ \<Rightarrow> False)"

definition misc_message_family :: "'p misc_union option \<Rightarrow> string" where
  "misc_message_family misc =
     (case misc of
        Some (ChatMessage _) \<Rightarrow> ''misc.chat_message''
      | Some (SwitchDisplay _) \<Rightarrow> ''misc.switch_display''
      | Some (Option _) \<Rightarrow> ''misc.option''
      | Some (AudioFormat _) \<Rightarrow> ''misc.audio_format''
      | Some (CaptureDisplays _) \<Rightarrow> ''misc.capture_displays''
      | Some (ClientRecordStatus _) \<Rightarrow> ''misc.client_record_status''
      | Some (TogglePrivacyMode _) \<Rightarrow> ''misc.toggle_privacy_mode''
      | Some (ToggleVirtualDisplay _) \<Rightarrow> ''misc.toggle_virtual_display''
      | Some (SelectedSid _) \<Rightarrow> ''misc.selected_sid''
      | Some (ChangeResolution _) \<Rightarrow> ''misc.change_resolution''
      | Some (ChangeDisplayResolution _) \<Rightarrow> ''misc.change_display_resolution''
      | Some (MessageQuery _) \<Rightarrow> ''misc.message_query''
      | Some (FollowCurrentDisplay _) \<Rightarrow> ''misc.follow_current_display''
      | Some (SwitchSidesRequest _) \<Rightarrow> ''misc.switch_sides_request''
      | Some _ \<Rightarrow> ''misc.other''
      | None \<Rightarrow> ''misc.empty'')"

definition message_family :: "'p message \<Rightarrow> string" where
  "message_family msg =
     (case msg of
        Some (MouseEvent _) \<Rightarrow> ''mouse_event''
      | Some (AudioFrame _) \<Rightarrow> ''audio_frame''
      | Some (PointerDeviceEvent _) \<Rightarrow> ''pointer_device_event''
      | Some (KeyEvent _) \<Rightarrow> ''key_event''
      | Some (Clipboard _) \<Rightarrow> ''clipboard''
      | Some (FileAction _) \<Rightarrow> ''file_action''
      | Some (FileResponse _) \<Rightarrow> ''file_response''
      | Some (VoiceCallRequest _) \<Rightarrow> ''voice_call_request''
      | Some (VoiceCallResponse _) \<Rightarrow> ''voice_call_response''
      | Some (MultiClipboards _) \<Rightarrow> ''multi_clipboards''
      | Some (ScreenshotRequest _) \<Rightarrow> ''screenshot_request''
      | Some (ScreenshotResponse _) \<Rightarrow> ''screenshot_response''
      | Some (TerminalAction _) \<Rightarrow> ''terminal_action''
      | Some (TerminalResponse _) \<Rightarrow> ''terminal_response''
      | Some (Misc misc) \<Rightarrow> misc_message_family misc
      | Some _ \<Rightarrow> ''message.other''
      | None \<Rightarrow> ''empty'')"

section \<open>The scope check\<close>

definition authorized_message_scope_violation ::
  "bool \<Rightarrow> auth_conn_type \<Rightarrow> 'p message \<Rightarrow> string option" where
  "authorized_message_scope_violation windows t msg =
     (if is_connection_housekeeping_message msg then None
      else
        let noop_compat =
              (case t of
                 FileTransfer \<Rightarrow> is_render_broadcast_noop_compat_message msg
                                 \<or> is_text_clipboard_noop_compat_message msg
               | Terminal \<Rightarrow> is_render_broadcast_noop_compat_message msg
                             \<or> is_text_clipboard_noop_compat_message msg
               | PortForward \<Rightarrow> is_render_broadcast_noop_compat_message msg
               | ViewCamera \<Rightarrow> is_text_clipboard_noop_compat_message msg
               | Remote \<Rightarrow> False)
        in if noop_compat then None
           else
             let allowed =
                   (case t of
                      Remote \<Rightarrow> True
                    | FileTransfer \<Rightarrow> is_file_transfer_scoped_message windows msg
                    | PortForward \<Rightarrow> False
                    | ViewCamera \<Rightarrow> is_view_camera_scoped_message windows msg
                    | Terminal \<Rightarrow> is_terminal_scoped_message msg)
             in then_some (\<not> allowed) (message_family msg))"

definition authorized_scope_violation ::
  "bool \<Rightarrow> auth_conn_type option \<Rightarrow> 'p message \<Rightarrow> string option" where
  "authorized_scope_violation windows t msg =
     (case t of
        None \<Rightarrow> then_some (\<not> is_connection_housekeeping_message msg) ''session.auth_type''
      | Some conn_type \<Rightarrow> authorized_message_scope_violation windows conn_type msg)"

definition should_handle_render_broadcast_message :: "auth_conn_type option \<Rightarrow> bool" where
  "should_handle_render_broadcast_message t \<longleftrightarrow> t = Some Remote \<or> t = Some ViewCamera"

definition should_handle_text_clipboard_message :: "auth_conn_type option \<Rightarrow> bool" where
  "should_handle_text_clipboard_message t \<longleftrightarrow> t = Some Remote"

text \<open>
  The reaction to a violation. The connection remembers the families it has reported; the config
  options \<open>allow-scope-violation-alarm\<close> and \<open>allow-scope-violation-close\<close> are arguments. The
  result lists the effects in order and says whether the connection is kept.
\<close>

datatype scope_effect =
    ScopeAlarm string
  | SendCloseReason string
  | OnClose string bool

definition handle_authorized_scope_violation ::
  "bool \<Rightarrow> bool \<Rightarrow> string set \<Rightarrow> string \<Rightarrow> string set \<times> scope_effect list \<times> bool" where
  "handle_authorized_scope_violation allow_alarm allow_close seen message =
     (let is_first = (message \<notin> seen);
          seen = insert message seen;
          alarms = (if is_first \<and> allow_alarm then [ScopeAlarm message] else [])
      in if allow_close
         then (seen, alarms @ [SendCloseReason ''Connection not allowed'',
                               OnClose ''Session scope violation'' True], False)
         else (seen, alarms, True))"

text \<open>A connection that stays open and receives the given violations one after the other.\<close>

fun handle_violations ::
  "bool \<Rightarrow> bool \<Rightarrow> string set \<Rightarrow> string list \<Rightarrow> string set \<times> scope_effect list \<times> bool" where
  "handle_violations allow_alarm allow_close seen [] = (seen, [], True)"
| "handle_violations allow_alarm allow_close seen (m # ms) =
     (case handle_authorized_scope_violation allow_alarm allow_close seen m of
        (seen', es, keep) \<Rightarrow>
          if keep
          then (case handle_violations allow_alarm allow_close seen' ms of
                  (seen'', es', keep') \<Rightarrow> (seen'', es @ es', keep'))
          else (seen', es, False))"

text \<open>
  The login options kept until the connection is authorized: taken once, filtered by the session
  type, and passed to \<open>update_options\<close> when something is left.
\<close>

definition update_scoped_login_options ::
  "auth_conn_type option \<Rightarrow> 'p option_message option \<Rightarrow>
     'p option_message option \<times> 'p option_message option" where
  "update_scoped_login_options t options_in_login =
     (case options_in_login of
        None \<Rightarrow> (None, None)
      | Some o' \<Rightarrow>
          (case t of
             None \<Rightarrow> (None, None)
           | Some conn_type \<Rightarrow> (None, fst (scoped_login_option conn_type o'))))"

section \<open>The policy table\<close>

text \<open>
  What the checks amount to, read by message instead of by session type: for every message the
  session types other than \<open>Remote\<close> that may send it.
\<close>

definition misc_scopes :: "bool \<Rightarrow> 'p misc_union option \<Rightarrow> auth_conn_type set" where
  "misc_scopes windows misc =
     (case misc of
        Some (CloseReason _) \<Rightarrow> {FileTransfer, PortForward, ViewCamera, Terminal}
      | Some (RefreshVideo _) \<Rightarrow> {FileTransfer, PortForward, ViewCamera, Terminal}
      | Some (RefreshVideoDisplay _) \<Rightarrow> {FileTransfer, PortForward, ViewCamera, Terminal}
      | Some (ChatMessage _) \<Rightarrow> {ViewCamera, Terminal}
      | Some (Option o') \<Rightarrow>
          (if \<not> option_has_non_view_camera_login_field o' then {ViewCamera} else {})
          \<union> (if is_supported_decoding_only_option o'
             then {FileTransfer, PortForward, Terminal} else {})
          \<union> (if \<not> option_has_non_terminal_login_field o' \<and> terminal_persistent o' \<in> {0, 1, 2}
             then {Terminal} else {})
      | Some (SelectedSid _) \<Rightarrow> (if windows then {FileTransfer, ViewCamera} else {})
      | Some (SwitchDisplay _) \<Rightarrow> {ViewCamera}
      | Some (CaptureDisplays _) \<Rightarrow> {ViewCamera}
      | Some (VideoReceived _) \<Rightarrow> {ViewCamera}
      | Some (AudioFormat _) \<Rightarrow> {ViewCamera}
      | Some (ClientRecordStatus _) \<Rightarrow> {ViewCamera}
      | Some (MessageQuery _) \<Rightarrow> {ViewCamera}
      | Some (TogglePrivacyMode _) \<Rightarrow> {ViewCamera}
      | Some (ToggleVirtualDisplay _) \<Rightarrow> {ViewCamera}
      | Some (ChangeResolution _) \<Rightarrow> {ViewCamera}
      | Some (ChangeDisplayResolution _) \<Rightarrow> {ViewCamera}
      | _ \<Rightarrow> {})"

definition message_scopes :: "bool \<Rightarrow> 'p message \<Rightarrow> auth_conn_type set" where
  "message_scopes windows msg =
     insert Remote
       (case msg of
          Some (LoginRequest _) \<Rightarrow> {FileTransfer, PortForward, ViewCamera, Terminal}
        | Some (TestDelay _) \<Rightarrow> {FileTransfer, PortForward, ViewCamera, Terminal}
        | Some (Clipboard _) \<Rightarrow> {FileTransfer, ViewCamera, Terminal}
        | Some (MultiClipboards _) \<Rightarrow> {FileTransfer, ViewCamera, Terminal}
        | Some (FileAction _) \<Rightarrow> {FileTransfer}
        | Some (FileResponse _) \<Rightarrow> {FileTransfer}
        | Some (TerminalAction _) \<Rightarrow> {Terminal}
        | Some (ScreenshotRequest _) \<Rightarrow> {ViewCamera}
        | Some (MouseEvent _) \<Rightarrow> {ViewCamera}
        | Some (PointerDeviceEvent _) \<Rightarrow> {ViewCamera}
        | Some (KeyEvent _) \<Rightarrow> {ViewCamera}
        | Some (AudioFrame _) \<Rightarrow> {ViewCamera}
        | Some (VoiceCallRequest _) \<Rightarrow> {ViewCamera}
        | Some (VoiceCallResponse _) \<Rightarrow> {ViewCamera}
        | Some (Misc misc) \<Rightarrow> misc_scopes windows misc
        | _ \<Rightarrow> {})"

section \<open>Lemmas\<close>

named_theorems scope_defs

lemmas [scope_defs] =
  is_connection_housekeeping_message_def is_render_broadcast_noop_compat_message_def
  is_text_clipboard_noop_compat_message_def is_file_transfer_scoped_message_def
  is_file_transfer_scoped_misc_def is_terminal_scoped_message_def is_terminal_scoped_misc_def
  is_view_camera_scoped_message_def is_view_camera_scoped_misc_def
  authorized_message_scope_violation_def

lemma is_bool_option_not_set_iff [simp]: "is_bool_option_not_set n \<longleftrightarrow> n = 0"
  by (simp add: is_bool_option_not_set_def)

lemma is_view_camera_scoped_option_iff [simp]:
  "is_view_camera_scoped_option o' \<longleftrightarrow> \<not> option_has_non_view_camera_login_field o'"
  by (simp add: is_view_camera_scoped_option_def scoped_view_camera_option_def Let_def)

lemma is_terminal_scoped_option_iff [simp]:
  "is_terminal_scoped_option o' \<longleftrightarrow>
     \<not> option_has_non_terminal_login_field o' \<and> terminal_persistent o' \<in> {0, 1, 2}"
  by (auto simp: is_terminal_scoped_option_def scoped_terminal_login_option_def Let_def
        bool_option_enum_value_def)

lemma violation_misc_iff:
  "authorized_message_scope_violation windows t (Some (Misc misc)) = None \<longleftrightarrow>
     t = Remote \<or> t \<in> misc_scopes windows misc"
proof (cases misc)
  case None
  then show ?thesis by (cases t) (simp_all add: scope_defs misc_scopes_def)
next
  case (Some m)
  then show ?thesis by (cases m; cases t) (simp_all add: scope_defs misc_scopes_def)
qed

lemma violation_iff:
  "authorized_message_scope_violation windows t msg = None \<longleftrightarrow> t \<in> message_scopes windows msg"
proof (cases msg)
  case None
  then show ?thesis by (cases t) (simp_all add: scope_defs message_scopes_def)
next
  case (Some m)
  show ?thesis
  proof (cases m)
    case (Misc misc)
    with Some show ?thesis by (simp add: violation_misc_iff message_scopes_def)
  qed (insert Some; cases t; simp add: scope_defs message_scopes_def)+
qed

text \<open>
  C9. The scope check accepts a message in a session of some type exactly when the policy table
  lists that type for the message, for every message of the protocol, every session type and
  both builds; otherwise it reports the family of the message.
\<close>
theorem scope_check_is_policy:
  "authorized_message_scope_violation windows t msg =
     (if t \<in> message_scopes windows msg then None else Some (message_family msg))"
proof (cases "t \<in> message_scopes windows msg")
  case True
  then show ?thesis using violation_iff [of windows t msg] by simp
next
  case False
  then have "authorized_message_scope_violation windows t msg \<noteq> None" using violation_iff [of windows t msg] by simp
  with False show ?thesis
    by (auto simp: authorized_message_scope_violation_def Let_def then_some_def split: if_splits)
qed

section \<open>Option filters\<close>

text \<open>The fields a limited session may never set, whatever its type.\<close>

definition restricted_fields_unset :: "'p option_message \<Rightarrow> bool" where
  "restricted_fields_unset o' \<longleftrightarrow>
     lock_after_session_end o' = 0 \<and> show_remote_cursor o' = 0 \<and> privacy_mode o' = 0
     \<and> block_input o' = 0 \<and> disable_clipboard o' = 0 \<and> enable_file_transfer o' = 0
     \<and> disable_keyboard o' = 0 \<and> follow_remote_cursor o' = 0 \<and> follow_remote_window o' = 0
     \<and> disable_camera o' = 0 \<and> show_my_cursor o' = 0"

lemmas option_filter_defs =
  scoped_view_camera_option_def scoped_terminal_login_option_def new_option_message_def
  option_has_any_field_def option_has_non_terminal_login_field_def
  option_has_non_view_camera_login_field_def restricted_fields_unset_def

text \<open>The camera filter in closed form: the five camera fields, each cut to its valid values.\<close>

definition camera_part :: "'p option_message \<Rightarrow> 'p option_message" where
  "camera_part o' = new_option_message\<lparr>
     image_quality := (if image_quality o' \<in> {0, 2, 3, 4} then image_quality o' else 0),
     custom_image_quality := max 0 (custom_image_quality o'),
     custom_fps := max 0 (custom_fps o'),
     supported_decoding := supported_decoding o',
     disable_audio := (if disable_audio o' \<in> {0, 1, 2} then disable_audio o' else 0)\<rparr>"

lemma scoped_view_camera_option_eq:
  "scoped_view_camera_option o' =
     (then_some (option_has_any_field (camera_part o')) (camera_part o'),
      then_some (option_has_non_view_camera_login_field o') ''login.option'')"
  by (simp add: scoped_view_camera_option_def Let_def camera_part_def new_option_message_def
        image_quality_enum_value_def bool_option_enum_value_def bool_option_value_def)

lemma camera_part_idem [simp]: "camera_part (camera_part o') = camera_part o'"
  by (simp add: camera_part_def new_option_message_def)

lemma camera_part_scope:
  "restricted_fields_unset (camera_part o')" "terminal_persistent (camera_part o') = 0"
  "\<not> option_has_non_view_camera_login_field (camera_part o')"
  by (simp_all add: camera_part_def new_option_message_def restricted_fields_unset_def
        option_has_non_view_camera_login_field_def)

lemma scoped_terminal_fields:
  assumes "fst (scoped_terminal_login_option o') = Some s"
  shows "s = new_option_message\<lparr>terminal_persistent := terminal_persistent o'\<rparr>"
    and "terminal_persistent o' \<in> {1, 2}"
  using assms
  by (auto simp: option_filter_defs Let_def bool_option_enum_value_def bool_option_value_def
        split: if_splits)

lemma terminal_option_fixed:
  assumes "n \<in> {1, 2}"
  shows "scoped_terminal_login_option (new_option_message\<lparr>terminal_persistent := n\<rparr>) =
           (Some (new_option_message\<lparr>terminal_persistent := n\<rparr>), None)"
  using assms
  by (auto simp: option_filter_defs Let_def bool_option_enum_value_def bool_option_value_def)

text \<open>
  The login-option filter is a projection into the scope: whatever it lets through is passed
  unchanged, and without a reported violation, when it is filtered again.
\<close>
theorem scoped_login_option_projection:
  "fst (scoped_login_option t o') = Some s \<Longrightarrow> scoped_login_option t s = (Some s, None)"
proof (cases t)
  case ViewCamera
  assume "fst (scoped_login_option t o') = Some s"
  with ViewCamera have "s = camera_part o'" "option_has_any_field (camera_part o')"
    by (auto simp: scoped_login_option_def scoped_view_camera_option_eq)
  with ViewCamera show ?thesis
    by (simp add: scoped_login_option_def scoped_view_camera_option_eq camera_part_scope)
next
  case Terminal
  assume "fst (scoped_login_option t o') = Some s"
  with Terminal have "fst (scoped_terminal_login_option o') = Some s"
    by (simp add: scoped_login_option_def)
  note f = scoped_terminal_fields [OF this]
  with terminal_option_fixed [OF f(2)] Terminal show ?thesis
    by (simp add: scoped_login_option_def)
qed (auto simp: scoped_login_option_def)

theorem scoped_login_option_projection_witness:
  "scoped_login_option Terminal (new_option_message\<lparr>terminal_persistent := 2\<rparr> :: unit option_message)
     = (Some (new_option_message\<lparr>terminal_persistent := 2\<rparr>), None)"
proof -
  let ?o = "new_option_message\<lparr>terminal_persistent := 2, privacy_mode := 2\<rparr> :: unit option_message"
  have "fst (scoped_login_option Terminal ?o)
          = Some (new_option_message\<lparr>terminal_persistent := 2\<rparr>)"
    by (simp add: scoped_login_option_def option_filter_defs Let_def bool_option_enum_value_def
          bool_option_value_def)
  then show ?thesis by (rule scoped_login_option_projection)
qed

text \<open>
  Options of a limited session, at login (\<open>update_scoped_login_options\<close>) and later
  (\<open>scoped_update_option_message\<close>), never set a field outside the scope: privacy mode, input
  blocking, keyboard, clipboard, file transfer, cursor following and the session lock stay unset,
  and in a camera session terminal persistence too.
\<close>
theorem limited_session_options_restricted:
  assumes "t \<noteq> Remote"
    and "snd (update_scoped_login_options (Some t) (Some o')) = Some s
         \<or> scoped_update_option_message (Some t) o' = Some s"
  shows "restricted_fields_unset s \<and> (t \<noteq> Terminal \<longrightarrow> terminal_persistent s = 0)"
proof -
  have "(t = ViewCamera \<and> fst (scoped_view_camera_option o') = Some s)
        \<or> (t = Terminal \<and> fst (scoped_terminal_login_option o') = Some s)"
    using assms
    by (cases t) (auto simp: update_scoped_login_options_def scoped_login_option_def
          scoped_update_option_message_def)
  then show ?thesis
  proof
    assume "t = ViewCamera \<and> fst (scoped_view_camera_option o') = Some s"
    then have "s = camera_part o'" by (simp add: scoped_view_camera_option_eq)
    then show ?thesis by (simp add: camera_part_scope)
  next
    assume t: "t = Terminal \<and> fst (scoped_terminal_login_option o') = Some s"
    then have "s = new_option_message\<lparr>terminal_persistent := terminal_persistent o'\<rparr>"
      by (intro scoped_terminal_fields(1)) simp
    with t show ?thesis by (simp add: restricted_fields_unset_def new_option_message_def)
  qed
qed

theorem limited_session_options_restricted_witness:
  "scoped_update_option_message (Some ViewCamera)
      (new_option_message\<lparr>custom_fps := 30, block_input := 2\<rparr> :: unit option_message) =
      Some (new_option_message\<lparr>custom_fps := 30\<rparr>)
   \<and> restricted_fields_unset (new_option_message\<lparr>custom_fps := 30\<rparr> :: unit option_message)
   \<and> terminal_persistent (new_option_message\<lparr>custom_fps := 30\<rparr> :: unit option_message) = 0"
proof -
  have filtered: "scoped_update_option_message (Some ViewCamera)
      (new_option_message\<lparr>custom_fps := 30, block_input := 2\<rparr> :: unit option_message) =
      Some (new_option_message\<lparr>custom_fps := 30\<rparr>)"
    by (simp add: scoped_update_option_message_def option_filter_defs Let_def
          bool_option_enum_value_def image_quality_enum_value_def bool_option_value_def)
  from limited_session_options_restricted [OF _ disjI2 [OF filtered]] filtered
  show ?thesis by fastforce
qed

section \<open>Violation reports\<close>

lemma remdups_snoc: "remdups (ys @ [x]) = remdups (filter (\<lambda>y. y \<noteq> x) ys) @ [x]"
  by (induction ys) auto

definition first_occurrences :: "'a list \<Rightarrow> 'a list" where
  "first_occurrences xs = rev (remdups (rev xs))"

lemma first_occurrences_Cons:
  "first_occurrences (x # xs) = x # first_occurrences (filter (\<lambda>y. y \<noteq> x) xs)"
  by (simp add: first_occurrences_def remdups_snoc rev_filter)

lemma first_occurrences_Nil [simp]: "first_occurrences [] = []"
  by (simp add: first_occurrences_def)

lemma filter_not_insert: "m \<in> seen \<Longrightarrow> filter (\<lambda>x. x \<notin> insert m seen) ms = filter (\<lambda>x. x \<notin> seen) ms"
  by (simp add: insert_absorb)

lemma handle_violations_open:
  "handle_violations alarm False seen ms =
     (seen \<union> set ms,
      (if alarm then map ScopeAlarm (first_occurrences (filter (\<lambda>m. m \<notin> seen) ms)) else []),
      True)"
proof (induction ms arbitrary: seen)
  case Nil
  then show ?case by simp
next
  case (Cons m ms)
  have "filter (\<lambda>x. x \<notin> insert m seen) ms = filter (\<lambda>y. y \<noteq> m) (filter (\<lambda>x. x \<notin> seen) ms)"
    by (auto intro: filter_cong)
  with Cons.IH [of "insert m seen"] show ?case
    by (cases "m \<in> seen")
       (auto simp: handle_authorized_scope_violation_def Let_def first_occurrences_Cons insert_absorb)
qed

text \<open>
  A connection kept open raises the scope alarm once per message family, in the order the
  families first occur, however often violations repeat; with the alarm option off it raises none.
\<close>
theorem scope_alarm_once_per_family:
  "handle_violations alarm False {} ms =
     (set ms, (if alarm then map ScopeAlarm (first_occurrences ms) else []), True)"
  by (simp add: handle_violations_open)

end
