(* ===== verification/Float32.thy ===== *)
theory Float32
  imports Complex_Main "HOL-Library.Log_Nat"
begin

text \<open>
  The \<open>f32\<close> arithmetic of Rust on rationals: each operation is the exact operation followed by
  \<open>f32_round\<close>, IEEE 754 rounding to 24 significant bits, ties to even. The exponent is unbounded:
  the components that use it stay far inside the normal range and never meet infinities or NaN.
  The lemmas show that rounding is monotone, odd and exact on integers up to two to the 24.
\<close>

section \<open>Rounding to an integer\<close>

definition round_half_even :: "rat \<Rightarrow> int" where
  "round_half_even q =
     (let f = \<lfloor>q\<rfloor>; r = q - of_int f
      in if r < 1 / 2 then f else if 1 / 2 < r then f + 1 else if even f then f else f + 1)"

lemma round_half_even_of_int [simp]: "round_half_even (of_int k) = k"
  by (simp add: round_half_even_def)

lemma round_half_even_bounds: "\<lfloor>q\<rfloor> \<le> round_half_even q" "round_half_even q \<le> \<lfloor>q\<rfloor> + 1"
  by (simp_all add: round_half_even_def Let_def)

lemma round_half_even_mono:
  assumes "p \<le> q"
  shows "round_half_even p \<le> round_half_even q"
proof (cases "\<lfloor>p\<rfloor> = \<lfloor>q\<rfloor>")
  case True
  with assms show ?thesis by (auto simp: round_half_even_def Let_def)
next
  case False
  with assms have "\<lfloor>p\<rfloor> + 1 \<le> \<lfloor>q\<rfloor>" using floor_mono [OF assms] by linarith
  with round_half_even_bounds [of p] round_half_even_bounds [of q] show ?thesis by linarith
qed

section \<open>The binary exponent\<close>

text \<open>The exponent \<open>e\<close> with \<open>2\<^sup>e \<le> x < 2\<^sup>e\<^sup>+\<^sup>1\<close>, from the bit lengths of numerator and denominator.\<close>

definition bexp :: "rat \<Rightarrow> int" where
  "bexp x =
     (let (n, d) = quotient_of x; k = bitlen n - bitlen d
      in if 2 powi k \<le> x then k else k - 1)"

lemma bitlen_powi:
  assumes "0 < n"
  shows "2 powi (bitlen n - 1) \<le> (of_int n :: rat)" "(of_int n :: rat) < 2 powi bitlen n"
proof -
  from bitlen_bounds [OF assms] have b: "2 ^ nat (bitlen n - 1) \<le> n" "n < 2 ^ nat (bitlen n)"
    by auto
  have pos: "1 \<le> bitlen n" using assms by (simp add: bitlen_def floorlog_def)
  have "(2::rat) powi (bitlen n - 1) = of_int (2 ^ nat (bitlen n - 1))"
    using pos by (simp add: power_int_def)
  also have "\<dots> \<le> of_int n" using b(1) by (simp only: of_int_le_iff)
  finally show "2 powi (bitlen n - 1) \<le> (of_int n :: rat)" .
  have "(of_int n :: rat) < of_int (2 ^ nat (bitlen n))" using b(2) by (simp only: of_int_less_iff)
  also have "\<dots> = 2 powi bitlen n" using pos by (simp add: power_int_def)
  finally show "(of_int n :: rat) < 2 powi bitlen n" .
qed

lemma bexp_bounds:
  assumes "0 < x"
  shows "2 powi bexp x \<le> x" "x < 2 powi (bexp x + 1)"
proof -
  obtain n d where q: "quotient_of x = (n, d)" by force
  then have x: "x = of_int n / of_int d" and d: "0 < d"
    by (auto simp: quotient_of_div quotient_of_denom_pos)
  with assms have n: "0 < n" by (simp add: zero_less_divide_iff)
  let ?k = "bitlen n - bitlen d"
  note bn = bitlen_powi [OF n] and bd = bitlen_powi [OF d]
  have dpos: "(0::rat) < of_int d" using d by simp
  have lower: "2 powi (?k - 1) \<le> x"
  proof -
    have "(2::rat) powi (?k - 1) * of_int d \<le> 2 powi (?k - 1) * 2 powi bitlen d"
      using bd(2) by (intro mult_left_mono) auto
    also have "\<dots> = 2 powi (bitlen n - 1)" by (simp add: power_int_add [symmetric])
    also have "\<dots> \<le> of_int n" by (rule bn(1))
    finally show ?thesis using dpos by (simp add: x pos_le_divide_eq)
  qed
  have upper: "x < 2 powi (?k + 1)"
  proof -
    have "(of_int n :: rat) < 2 powi bitlen n" by (rule bn(2))
    also have "\<dots> = 2 powi (?k + 1) * 2 powi (bitlen d - 1)"
      by (simp add: power_int_add [symmetric])
    also have "\<dots> \<le> 2 powi (?k + 1) * of_int d"
      using bd(1) by (intro mult_left_mono) auto
    finally show ?thesis using dpos by (simp add: x pos_divide_less_eq)
  qed
  show "2 powi bexp x \<le> x" using lower by (auto simp: bexp_def q Let_def)
  show "x < 2 powi (bexp x + 1)" using upper by (auto simp: bexp_def q Let_def)
qed

lemma powi_2_mono: "a \<le> b \<Longrightarrow> (2::rat) powi a \<le> 2 powi b"
  by (simp add: power_int_increasing)

lemma powi_2_less_imp: "(2::rat) powi a < 2 powi b \<Longrightarrow> a < b"
  by (metis linorder_not_less powi_2_mono)

lemma bexp_unique:
  assumes "2 powi e \<le> x" "x < 2 powi (e + 1)"
  shows "bexp x = e"
proof -
  have "(0::rat) < 2 powi e" by simp
  then have "0 < x" using assms(1) by (rule less_le_trans)
  note b = bexp_bounds [OF this]
  from assms(1) b(2) have "(2::rat) powi e < 2 powi (bexp x + 1)" by (rule le_less_trans)
  moreover from b(1) assms(2) have "(2::rat) powi bexp x < 2 powi (e + 1)" by (rule le_less_trans)
  ultimately show ?thesis
    using powi_2_less_imp [of e "bexp x + 1"] powi_2_less_imp [of "bexp x" "e + 1"] by linarith
qed

lemma bexp_mono:
  assumes "0 < x" "x \<le> y"
  shows "bexp x \<le> bexp y"
proof -
  from assms have "0 < y" by simp
  have "(2::rat) powi bexp x < 2 powi (bexp y + 1)"
    using bexp_bounds [OF assms(1)] bexp_bounds [OF \<open>0 < y\<close>] assms(2) by linarith
  then show ?thesis using powi_2_less_imp by force
qed

section \<open>Rounding to 24 bits\<close>

definition f32_pos :: "rat \<Rightarrow> rat" where
  "f32_pos x = (let ulp = 2 powi (bexp x - 23) in of_int (round_half_even (x / ulp)) * ulp)"

definition f32_round :: "rat \<Rightarrow> rat" where
  "f32_round x = (if x = 0 then 0 else if 0 < x then f32_pos x else - f32_pos (- x))"

lemma f32_pos_bounds:
  assumes "0 < x"
  shows "2 powi bexp x \<le> f32_pos x" "f32_pos x \<le> 2 powi (bexp x + 1)"
proof -
  let ?u = "2 powi (bexp x - 23) :: rat"
  have u: "0 < ?u" by simp
  have p23: "2 powi bexp x = of_int (2 ^ 23) * ?u"
    using power_int_add [of "2::rat" 23 "bexp x - 23"] by simp
  have p24: "2 powi (bexp x + 1) = of_int (2 ^ 24) * ?u"
    using power_int_add [of "2::rat" 24 "bexp x - 23"] by (simp add: add.commute)
  note b = bexp_bounds [OF assms]
  have "of_int (2 ^ 23) \<le> x / ?u" using b(1) u unfolding p23 by (simp add: pos_le_divide_eq)
  from round_half_even_mono [OF this] have l: "2 ^ 23 \<le> round_half_even (x / ?u)"
    unfolding round_half_even_of_int .
  have "x / ?u \<le> of_int (2 ^ 24)" using b(2) u unfolding p24 by (simp add: pos_divide_le_eq)
  from round_half_even_mono [OF this] have h: "round_half_even (x / ?u) \<le> 2 ^ 24"
    unfolding round_half_even_of_int .
  from l have "(of_int (2 ^ 23) :: rat) \<le> of_int (round_half_even (x / ?u))"
    by (simp only: of_int_le_iff)
  with u show "2 powi bexp x \<le> f32_pos x"
    unfolding p23 f32_pos_def Let_def by (intro mult_right_mono) auto
  from h have "(of_int (round_half_even (x / ?u)) :: rat) \<le> of_int (2 ^ 24)"
    by (simp only: of_int_le_iff)
  with u show "f32_pos x \<le> 2 powi (bexp x + 1)"
    unfolding p24 f32_pos_def Let_def by (intro mult_right_mono) auto
qed

lemma f32_pos_positive: "0 < x \<Longrightarrow> 0 < f32_pos x"
  using f32_pos_bounds(1) [of x] zero_less_power_int [of "2::rat" "bexp x"] by linarith

lemma f32_pos_mono:
  assumes "0 < x" "x \<le> y"
  shows "f32_pos x \<le> f32_pos y"
proof (cases "bexp x = bexp y")
  case True
  have "x / 2 powi (bexp y - 23) \<le> y / 2 powi (bexp y - 23)"
    using assms(2) by (intro divide_right_mono) auto
  from round_half_even_mono [OF this] show ?thesis
    unfolding f32_pos_def Let_def True by (intro mult_right_mono) auto
next
  case False
  with bexp_mono [OF assms] have "bexp x + 1 \<le> bexp y" by simp
  then have "(2::rat) powi (bexp x + 1) \<le> 2 powi bexp y" by (rule powi_2_mono)
  with f32_pos_bounds [OF assms(1)] f32_pos_bounds [of y] assms show ?thesis by linarith
qed

lemma f32_round_mono: "x \<le> y \<Longrightarrow> f32_round x \<le> f32_round y"
  using f32_pos_mono [of x y] f32_pos_mono [of "- y" "- x"] f32_pos_positive [of y]
    f32_pos_positive [of "- x"]
  by (auto simp: f32_round_def)

lemma f32_round_minus [simp]: "f32_round (- x) = - f32_round x"
  by (auto simp: f32_round_def)

lemma f32_round_0 [simp]: "f32_round 0 = 0"
  by (simp add: f32_round_def)

lemma f32_pos_exact:
  assumes "0 < k" "k < 2 ^ 24"
  shows "f32_pos (of_int k) = of_int k"
proof -
  let ?x = "of_int k :: rat"
  have x: "0 < ?x" "?x < 2 powi 24" using assms by (simp_all add: power_int_def)
  note b = bexp_bounds [OF x(1)]
  from b(1) x(2) have "(2::rat) powi bexp ?x < 2 powi 24" by (rule le_less_trans)
  then have e24: "bexp ?x \<le> 23" using powi_2_less_imp [of "bexp ?x" 24] by linarith
  define u where "u = (2::rat) powi (bexp ?x - 23)"
  define m where "m = k * 2 ^ nat (23 - bexp ?x)"
  have "u * 2 ^ nat (23 - bexp ?x) = 2 powi (bexp ?x - 23) * 2 powi (23 - bexp ?x)"
    using e24 by (simp add: u_def power_int_def)
  also have "\<dots> = 1" by (simp add: power_int_add [symmetric])
  finally have one: "u * 2 ^ nat (23 - bexp ?x) = 1" .
  then have u: "u \<noteq> 0" by auto
  have "of_int m * u = ?x * (u * 2 ^ nat (23 - bexp ?x))" by (simp add: m_def)
  with one have mu: "of_int m * u = ?x" by simp
  with u have "?x / u = of_int m" by (simp add: field_simps)
  then show ?thesis unfolding f32_pos_def Let_def u_def [symmetric] by (simp add: mu)
qed

text \<open>Integers below two to the 24 are represented exactly.\<close>

lemma f32_round_of_nat: "n < 16777216 \<Longrightarrow> f32_round (of_nat n) = of_nat n"
  using f32_pos_exact [of "int n"] by (auto simp: f32_round_def)

lemma f32_round_1 [simp]: "f32_round 1 = 1"
  using f32_round_of_nat [of 1] by simp

lemma f32_round_nonneg: "0 \<le> x \<Longrightarrow> 0 \<le> f32_round x"
  using f32_round_mono [of 0 x] by simp

lemma f32_round_pos: "0 < x \<Longrightarrow> 0 < f32_round x"
  by (simp add: f32_round_def f32_pos_positive)

lemma f32_round_ge_1: "1 \<le> x \<Longrightarrow> 1 \<le> f32_round x"
  using f32_round_mono [of 1 x] by simp

lemma f32_round_le_nat: "x \<le> of_nat n \<Longrightarrow> n < 16777216 \<Longrightarrow> f32_round x \<le> of_nat n"
  using f32_round_mono [of x "of_nat n"] f32_round_of_nat [of n] by simp

text \<open>Rounding commutes with scaling by powers of two; rounding again changes nothing.\<close>

lemma bexp_scale:
  assumes "0 < x"
  shows "bexp (x * 2 powi e) = bexp x + e"
proof (rule bexp_unique)
  have p: "(0::rat) < 2 powi e" by simp
  note b = bexp_bounds [OF assms]
  show "2 powi (bexp x + e) \<le> x * 2 powi e"
    using mult_right_mono [OF b(1)] p by (simp add: power_int_add less_imp_le)
  have "x * 2 powi e < 2 powi (bexp x + 1) * 2 powi e" using mult_strict_right_mono [OF b(2) p] .
  then show "x * 2 powi e < 2 powi (bexp x + e + 1)"
    by (simp add: power_int_add [symmetric] algebra_simps)
qed

lemma f32_pos_scale:
  assumes "0 < x"
  shows "f32_pos (x * 2 powi e) = f32_pos x * 2 powi e"
proof -
  have "(2::rat) powi (bexp x + e - 23) = 2 powi (bexp x - 23) * 2 powi e"
    using power_int_add [of "2::rat" "bexp x - 23" e] by (simp add: algebra_simps)
  then show ?thesis by (simp add: f32_pos_def Let_def bexp_scale [OF assms])
qed

lemma f32_pos_mantissa:
  assumes "0 < k" "k \<le> 2 ^ 24"
  shows "f32_pos (of_int k * 2 powi e) = of_int k * 2 powi e"
proof (cases "k = 2 ^ 24")
  case True
  then have k: "of_int k * 2 powi e = 1 * (2::rat) powi (24 + e)" by (simp add: power_int_add)
  show ?thesis unfolding k using f32_pos_exact [of 1] by (subst f32_pos_scale) simp_all
next
  case False
  with assms show ?thesis using f32_pos_exact [of k] by (subst f32_pos_scale) simp_all
qed

lemma f32_pos_idem:
  assumes "0 < x"
  shows "f32_pos (f32_pos x) = f32_pos x"
proof -
  let ?k = "round_half_even (x / 2 powi (bexp x - 23))"
  have eq: "f32_pos x = of_int ?k * 2 powi (bexp x - 23)" by (simp add: f32_pos_def Let_def)
  from f32_pos_positive [OF assms] have "(0::rat) < of_int ?k" unfolding eq
    by (rule zero_less_mult_pos2) simp
  then have pos: "0 < ?k" by simp
  have "of_int ?k * (2::rat) powi (bexp x - 23) \<le> 2 powi (24 + (bexp x - 23))"
    using f32_pos_bounds(2) [OF assms] unfolding eq by (simp add: add.commute)
  then have "of_int ?k * (2::rat) powi (bexp x - 23) \<le> 2 ^ 24 * 2 powi (bexp x - 23)"
    using power_int_add [of "2::rat" 24 "bexp x - 23"] by simp
  then have "(of_int ?k :: rat) \<le> of_int (2 ^ 24)" by simp
  then have "?k \<le> 2 ^ 24" unfolding of_int_le_iff .
  with pos show ?thesis unfolding eq by (rule f32_pos_mantissa)
qed

lemma f32_round_idem [simp]: "f32_round (f32_round x) = f32_round x"
  using f32_pos_idem [of x] f32_pos_idem [of "- x"] f32_pos_positive [of x] f32_pos_positive [of "- x"]
  by (auto simp: f32_round_def)

section \<open>Operations\<close>

definition f32_add :: "rat \<Rightarrow> rat \<Rightarrow> rat" where "f32_add x y = f32_round (x + y)"
definition f32_mul :: "rat \<Rightarrow> rat \<Rightarrow> rat" where "f32_mul x y = f32_round (x * y)"
definition f32_div :: "rat \<Rightarrow> rat \<Rightarrow> rat" where "f32_div x y = f32_round (x / y)"

text \<open>\<open>u32 as f32\<close>, and \<open>f32 as u32\<close>, which truncates and saturates.\<close>

definition f32_of_u32 :: "nat \<Rightarrow> rat" where "f32_of_u32 n = f32_round (of_nat n)"

definition u32_of_f32 :: "rat \<Rightarrow> nat" where
  "u32_of_f32 x = (if x \<le> 0 then 0 else nat (min \<lfloor>x\<rfloor> 4294967295))"

text \<open>The integer square root by bits, and the correctly rounded square root built on it.\<close>

fun isqrt :: "nat \<Rightarrow> nat" where
  "isqrt n = (if n = 0 then 0 else
     (let s = 2 * isqrt (n div 4) in if (s + 1) * (s + 1) \<le> n then s + 1 else s))"

declare isqrt.simps [simp del]

lemma isqrt_correct: "isqrt n * isqrt n \<le> n \<and> n < (isqrt n + 1) * (isqrt n + 1)"
proof (induction n rule: isqrt.induct)
  case (1 n)
  show ?case
  proof (cases "n = 0")
    case True
    then show ?thesis by (simp add: isqrt.simps)
  next
    case False
    let ?r = "isqrt (n div 4)"
    from 1 False have IH: "?r * ?r \<le> n div 4" "n div 4 < (?r + 1) * (?r + 1)" by auto
    from IH(1) have l: "(2 * ?r) * (2 * ?r) \<le> n" by simp
    from IH(2) have "n div 4 + 1 \<le> (?r + 1) * (?r + 1)" by simp
    then have "4 * (n div 4) + 4 \<le> 4 * ((?r + 1) * (?r + 1))" by simp
    moreover have "n < 4 * (n div 4) + 4" by simp
    ultimately have h: "n < (2 * ?r + 2) * (2 * ?r + 2)" by (simp add: algebra_simps)
    show ?thesis
      using False l h by (auto simp: isqrt.simps [of n] Let_def)
  qed
qed

text \<open>
  For \<open>4\<^sup>e \<le> x < 4\<^sup>e\<^sup>+\<^sup>1\<close> the root has the unit \<open>2\<^sup>e\<^sup>-\<^sup>2\<^sup>3\<close>; it is rounded up when \<open>x\<close> passes the square
  of the midpoint (a midpoint is never itself a square of 24 bits).
\<close>

definition f32_sqrt :: "rat \<Rightarrow> rat" where
  "f32_sqrt x =
     (if x \<le> 0 then 0
      else
        let e = bexp x div 2; ulp = 2 powi (e - 23);
            q = x / (ulp * ulp); s = isqrt (nat \<lfloor>q\<rfloor>)
        in of_nat (if (of_nat s + 1 / 2) * (of_nat s + 1 / 2) < q then s + 1 else s) * ulp)"

end
