(* ===== verification/VideoQos.thy ===== *)
theory VideoQos
  imports Prelude Float32 "HOL-Library.AList" "HOL-Library.Monad_Syntax"
begin

text \<open>
  The quality controller of the video services, \<open>src/server/video_qos.rs\<close>, with the bitrate
  scale of \<open>libs/scrap/src/common/codec.rs\<close>. The two hash maps are association lists with distinct
  keys, whose order stands for the iteration order of the map. Instants are milliseconds, the
  argument \<open>now\<close> is \<open>Instant::now()\<close>; \<open>linux\<close> is \<open>cfg!(target_os = "linux")\<close>. Operations are
  partial: \<open>None\<close> is the panic of \<open>clamp\<close> on an empty range. The theorems show that no sequence of
  operations panics, and how frame rate and ratio follow limits and network delay.
\<close>

section \<open>Bitrate scale and quality levels\<close>

abbreviation f32_lit :: "rat \<Rightarrow> rat" where "f32_lit \<equiv> f32_round"

definition BR_BEST :: rat where "BR_BEST = f32_lit (22 / 10)"
definition BR_BALANCED :: rat where "BR_BALANCED = f32_lit 1"
definition BR_SPEED :: rat where "BR_SPEED = f32_lit (6 / 10)"
definition REFERENCE_FPS :: nat where "REFERENCE_FPS = 30"

definition fps_bitrate_scale :: "nat \<Rightarrow> rat option" where
  "fps_bitrate_scale fps = do {
     f \<leftarrow> checked_clamp 1 240 fps;
     checked_clamp (f32_lit (6 / 10)) (f32_lit 2)
       (f32_sqrt (f32_div (f32_of_u32 f) (f32_of_u32 REFERENCE_FPS)))
   }"

datatype quality = Best | Balanced | Low | Custom rat

definition quality_ratio :: "quality \<Rightarrow> rat" where
  "quality_ratio q = (case q of Best \<Rightarrow> BR_BEST | Balanced \<Rightarrow> BR_BALANCED | Low \<Rightarrow> BR_SPEED | Custom v \<Rightarrow> v)"

section \<open>State\<close>

definition FPS :: nat where "FPS = 30"
definition MIN_FPS :: nat where "MIN_FPS = 1"
definition MAX_FPS :: nat where "MAX_FPS = 120"
definition INIT_FPS :: nat where "INIT_FPS = 15"
definition BR_MAX :: rat where "BR_MAX = f32_lit 40"
definition BR_MIN :: rat where "BR_MIN = f32_lit (2 / 10)"
definition BR_MIN_HIGH_RESOLUTION :: rat where "BR_MIN_HIGH_RESOLUTION = f32_lit (1 / 10)"
definition MAX_BR_MULTIPLE :: rat where "MAX_BR_MULTIPLE = f32_lit 1"
definition HISTORY_DELAY_LEN :: nat where "HISTORY_DELAY_LEN = 2"
definition ADJUST_RATIO_INTERVAL :: nat where "ADJUST_RATIO_INTERVAL = 3"
definition DYNAMIC_SCREEN_THRESHOLD :: nat where "DYNAMIC_SCREEN_THRESHOLD = 2"
definition DELAY_THRESHOLD_150MS :: nat where "DELAY_THRESHOLD_150MS = 150"

lemmas qos_consts =
  FPS_def MIN_FPS_def MAX_FPS_def INIT_FPS_def HISTORY_DELAY_LEN_def ADJUST_RATIO_INTERVAL_def
  DYNAMIC_SCREEN_THRESHOLD_def DELAY_THRESHOLD_150MS_def

record rtt_calculator =
  min_rtt :: "nat option"
  window_min_rtt :: "nat option"
  smoothed_rtt :: "nat option"
  samples :: "nat list"

record user_delay =
  response_delayed :: bool
  delay_history :: "nat list"
  delay_fps :: "nat option"
  rtt :: rtt_calculator
  quick_increase_fps_count :: nat
  increase_fps_count :: nat

record user_data =
  u_auto_adjust_fps :: "nat option"
  u_custom_fps :: "nat option"
  u_quality :: "(int \<times> quality) option"
  u_delay :: user_delay
  u_record :: bool

record display_data =
  send_counter :: nat
  support_changing_quality :: bool

record video_qos =
  q_fps :: nat
  q_ratio :: rat
  q_users :: "(int \<times> user_data) list"
  q_displays :: "(string \<times> display_data) list"
  q_bitrate_store :: nat
  q_adjust_ratio_instant :: nat
  q_abr_config :: bool
  q_new_user_instant :: nat

definition default_rtt :: rtt_calculator where
  "default_rtt = \<lparr>min_rtt = None, window_min_rtt = None, smoothed_rtt = None, samples = []\<rparr>"

definition default_delay :: user_delay where
  "default_delay = \<lparr>response_delayed = False, delay_history = [], delay_fps = None, rtt = default_rtt,
     quick_increase_fps_count = 0, increase_fps_count = 0\<rparr>"

definition default_user :: user_data where
  "default_user = \<lparr>u_auto_adjust_fps = None, u_custom_fps = None, u_quality = None,
     u_delay = default_delay, u_record = False\<rparr>"

definition default_display :: display_data where
  "default_display = \<lparr>send_counter = 0, support_changing_quality = False\<rparr>"

definition default_qos :: "nat \<Rightarrow> video_qos" where
  "default_qos now = \<lparr>q_fps = FPS, q_ratio = BR_BALANCED, q_users = [], q_displays = [],
     q_bitrate_store = 0, q_adjust_ratio_instant = now, q_abr_config = True,
     q_new_user_instant = now\<rparr>"

text \<open>\<open>HashMap::get_mut\<close> with a change of the value found; nothing when the key is absent.\<close>

definition modify_entry :: "'k \<Rightarrow> ('v \<Rightarrow> 'v) \<Rightarrow> ('k \<times> 'v) list \<Rightarrow> ('k \<times> 'v) list" where
  "modify_entry k f m = map (\<lambda>(j, v). (j, if j = k then f v else v)) m"

definition min_opt :: "nat list \<Rightarrow> nat option" where
  "min_opt xs = (if xs = [] then None else Some (Min (set xs)))"

definition max_opt :: "nat list \<Rightarrow> nat option" where
  "max_opt xs = (if xs = [] then None else Some (Max (set xs)))"

section \<open>Round trip times and delays\<close>

definition WINDOW_SAMPLES :: nat where "WINDOW_SAMPLES = 60"
definition MIN_SAMPLES :: nat where "MIN_SAMPLES = 10"
definition ALPHA :: rat where "ALPHA = f32_lit (1 / 2)"

definition update_rtt :: "nat \<Rightarrow> rtt_calculator \<Rightarrow> rtt_calculator" where
  "update_rtt delay r =
     (let mr = (case min_rtt r of
                  Some m \<Rightarrow> if delay < m then Some delay else min_rtt r
                | None \<Rightarrow> Some delay);
          ss = (if length (samples r) \<ge> WINDOW_SAMPLES then tl (samples r) else samples r) @ [delay];
          wm = min_opt ss;
          sr = (if length ss \<ge> WINDOW_SAMPLES
                then case (mr, wm) of
                       (Some m, Some w) \<Rightarrow>
                         Some (u32_of_f32 (f32_add (f32_mul (f32_add 1 (- ALPHA)) (f32_of_u32 m))
                                                   (f32_mul ALPHA (f32_of_u32 w))))
                     | _ \<Rightarrow> smoothed_rtt r
                else smoothed_rtt r)
      in \<lparr>min_rtt = mr, window_min_rtt = wm, smoothed_rtt = sr, samples = ss\<rparr>)"

definition get_rtt :: "rtt_calculator \<Rightarrow> nat option" where
  "get_rtt r =
     (case smoothed_rtt r of
        Some t \<Rightarrow> Some t
      | None \<Rightarrow> if length (samples r) \<ge> MIN_SAMPLES then min_rtt r else None)"

definition add_delay :: "nat \<Rightarrow> user_delay \<Rightarrow> user_delay" where
  "add_delay delay d =
     d\<lparr>rtt := update_rtt delay (rtt d),
       delay_history :=
         (if length (delay_history d) > HISTORY_DELAY_LEN then tl (delay_history d)
          else delay_history d) @ [delay]\<rparr>"

text \<open>The sum of \<open>u32\<close> values wraps in a release build.\<close>

definition avg_delay :: "user_delay \<Rightarrow> nat" where
  "avg_delay d =
     (let len = length (delay_history d)
      in if len > 0
         then let avg = wrap_u32 (sum_list (delay_history d)) div len
              in case get_rtt (rtt d) of
                   Some t \<Rightarrow> if avg > t then avg - t else avg
                 | None \<Rightarrow> avg
         else DELAY_THRESHOLD_150MS)"

section \<open>Reading the state\<close>

definition fps :: "video_qos \<Rightarrow> nat" where
  "fps q = (if q_fps q \<ge> MIN_FPS \<and> q_fps q \<le> MAX_FPS then q_fps q else FPS)"

definition store_bitrate :: "nat \<Rightarrow> video_qos \<Rightarrow> video_qos" where
  "store_bitrate b q = q\<lparr>q_bitrate_store := b\<rparr>"

definition bitrate :: "video_qos \<Rightarrow> nat" where
  "bitrate q = q_bitrate_store q"

definition ratio :: "video_qos \<Rightarrow> (video_qos \<times> rat) option" where
  "ratio q =
     (let q = (if q_ratio q < BR_MIN_HIGH_RESOLUTION \<or> q_ratio q > BR_MAX
               then q\<lparr>q_ratio := BR_BALANCED\<rparr> else q)
      in do { s \<leftarrow> fps_bitrate_scale (q_fps q); Some (q, f32_mul (q_ratio q) s) })"

definition record_any :: "video_qos \<Rightarrow> bool" where
  "record_any q \<longleftrightarrow> list_ex (\<lambda>(_, u). u_record u) (q_users q)"

definition set_support_changing_quality :: "string \<Rightarrow> bool \<Rightarrow> video_qos \<Rightarrow> video_qos" where
  "set_support_changing_quality name support q =
     q\<lparr>q_displays := modify_entry name (\<lambda>d. d\<lparr>support_changing_quality := support\<rparr>) (q_displays q)\<rparr>"

definition in_vbr_state :: "video_qos \<Rightarrow> bool" where
  "in_vbr_state q \<longleftrightarrow>
     q_abr_config q \<and> list_all (\<lambda>(_, d). support_changing_quality d) (q_displays q)"

definition user_fps :: "user_data \<Rightarrow> nat" where
  "user_fps u =
     (let f = unwrap_or (u_custom_fps u) FPS
      in case u_auto_adjust_fps u of
           Some a \<Rightarrow> if f = 0 \<or> a < f then a else f
         | None \<Rightarrow> f)"

definition highest_fps :: "video_qos \<Rightarrow> nat option" where
  "highest_fps q =
     checked_clamp MIN_FPS MAX_FPS
       (unwrap_or (min_opt (filter (\<lambda>f. f \<ge> MIN_FPS) (map (\<lambda>(_, u). user_fps u) (q_users q)))) FPS)"

text \<open>\<open>max_by\<close> keeps the last of several maxima.\<close>

definition later :: "(int \<times> quality) option \<Rightarrow> int \<times> quality \<Rightarrow> (int \<times> quality) option" where
  "later best x = (case best of None \<Rightarrow> Some x | Some b \<Rightarrow> if fst b \<le> fst x then Some x else best)"

definition latest_entry :: "(int \<times> quality) list \<Rightarrow> (int \<times> quality) option" where
  "latest_entry = foldl later None"

definition latest_quality :: "video_qos \<Rightarrow> quality" where
  "latest_quality q =
     snd (unwrap_or (latest_entry (List.map_filter (\<lambda>(_, u). u_quality u) (q_users q))) (0, Balanced))"

section \<open>Adjusting frame rate and ratio\<close>

definition adjust_fps :: "nat \<Rightarrow> video_qos \<Rightarrow> video_qos option" where
  "adjust_fps now q = do {
     highest \<leftarrow> highest_fps q;
     let f = unwrap_or (min_opt (map (\<lambda>(_, u). unwrap_or (delay_fps (u_delay u)) INIT_FPS) (q_users q)))
                       INIT_FPS;
     let f = (if list_ex (\<lambda>(_, u). response_delayed (u_delay u)) (q_users q)
              then if f > MIN_FPS + 1 then MIN_FPS + 1 else f else f);
     let f = (if (now - q_new_user_instant q) div 1000 < 1
              then if f > INIT_FPS then INIT_FPS else f else f);
     f' \<leftarrow> checked_clamp MIN_FPS highest f;
     Some (q\<lparr>q_fps := f'\<rparr>)
   }"

definition min_ratio :: "quality \<Rightarrow> rat option \<Rightarrow> rat" where
  "min_ratio target ratio_1mbps =
     (case target of
        Best \<Rightarrow>
          (let m = f32_div BR_BEST (f32_lit (25 / 10));
               m = (case ratio_1mbps of Some r \<Rightarrow> if m > r then r else m | None \<Rightarrow> m)
           in max m BR_MIN)
      | Balanced \<Rightarrow>
          (let m = min (f32_div BR_BALANCED 2) (f32_lit (4 / 10));
               m = (case ratio_1mbps of Some r \<Rightarrow> if m > r then r else m | None \<Rightarrow> m)
           in max m BR_MIN_HIGH_RESOLUTION)
      | Low \<Rightarrow> BR_MIN_HIGH_RESOLUTION
      | Custom _ \<Rightarrow> BR_MIN_HIGH_RESOLUTION)"

definition scaled_ratio :: "bool \<Rightarrow> nat \<Rightarrow> rat \<Rightarrow> rat" where
  "scaled_ratio dynamic_screen max_delay r =
     (if max_delay < 50 then if dynamic_screen then f32_mul r (f32_lit (115 / 100)) else r
      else if max_delay < 100 then if dynamic_screen then f32_mul r (f32_lit (110 / 100)) else r
      else if max_delay < DELAY_THRESHOLD_150MS
        then if dynamic_screen then f32_mul r (f32_lit (105 / 100)) else r
      else if max_delay < 200 then f32_mul r (f32_lit (95 / 100))
      else if max_delay < 300 then f32_mul r (f32_lit (90 / 100))
      else if max_delay < 500 then f32_mul r (f32_lit (85 / 100))
      else f32_mul r (f32_lit (80 / 100)))"

definition adjust_ratio :: "nat \<Rightarrow> bool \<Rightarrow> video_qos \<Rightarrow> video_qos option" where
  "adjust_ratio now dynamic_screen q =
     (if \<not> in_vbr_state q then Some q
      else case max_opt (map (\<lambda>(_, u). avg_delay (u_delay u)) (q_users q)) of
        None \<Rightarrow> Some q
      | Some max_delay \<Rightarrow>
          (let target_quality = latest_quality q;
               target_ratio = quality_ratio (latest_quality q);
               current_ratio = q_ratio q;
               current_bitrate = bitrate q;
               ratio_1mbps =
                 then_some (current_bitrate > 0)
                   (max (f32_div (f32_mul current_ratio 1000) (f32_of_u32 current_bitrate))
                        BR_MIN_HIGH_RESOLUTION);
               ratio_add_150kbps =
                 then_some (current_bitrate > 0)
                   (f32_div (f32_mul (f32_of_u32 (wrap_u32 (current_bitrate + 150))) current_ratio)
                            (f32_of_u32 current_bitrate));
               lo = min_ratio target_quality ratio_1mbps;
               hi = f32_mul target_ratio MAX_BR_MULTIPLE;
               v = scaled_ratio dynamic_screen max_delay current_ratio;
               v = (case ratio_add_150kbps of
                      Some a \<Rightarrow> if v > a \<and> a > current_ratio \<and> current_ratio \<ge> BR_SPEED then a else v
                    | None \<Rightarrow> v)
           in do {
             r \<leftarrow> checked_clamp lo hi v;
             Some (q\<lparr>q_ratio := r, q_adjust_ratio_instant := now\<rparr>)
           }))"

section \<open>Sessions of users\<close>

definition on_connection_open :: "nat \<Rightarrow> string \<Rightarrow> int \<Rightarrow> video_qos \<Rightarrow> video_qos" where
  "on_connection_open now enable_abr i q =
     q\<lparr>q_users := AList.update i default_user (q_users q),
       q_abr_config := (enable_abr \<noteq> ''N''),
       q_new_user_instant := now\<rparr>"

definition on_connection_close :: "nat \<Rightarrow> int \<Rightarrow> video_qos \<Rightarrow> video_qos" where
  "on_connection_close now i q =
     (let q = q\<lparr>q_users := AList.delete i (q_users q)\<rparr>
      in if q_users q = [] then default_qos now else q)"

definition user_custom_fps :: "int \<Rightarrow> nat \<Rightarrow> video_qos \<Rightarrow> video_qos" where
  "user_custom_fps i f q =
     (if f < MIN_FPS \<or> f > MAX_FPS then q
      else q\<lparr>q_users := modify_entry i (\<lambda>u. u\<lparr>u_custom_fps := Some f\<rparr>) (q_users q)\<rparr>)"

definition user_auto_adjust_fps :: "int \<Rightarrow> nat \<Rightarrow> video_qos \<Rightarrow> video_qos" where
  "user_auto_adjust_fps i f q =
     (if f < MIN_FPS \<or> f > MAX_FPS then q
      else q\<lparr>q_users := modify_entry i (\<lambda>u. u\<lparr>u_auto_adjust_fps := Some f\<rparr>) (q_users q)\<rparr>)"

text \<open>The wire values of \<open>ImageQuality\<close> are 2 for low, 3 for balanced and 4 for best.\<close>

definition convert_quality :: "int \<Rightarrow> quality option" where
  "convert_quality n =
     (if n = 3 then Some Balanced
      else if n = 2 then Some Low
      else if n = 4 then Some Best
      else do {
        v \<leftarrow> checked_clamp BR_MIN BR_MAX (f32_div (of_int ((n div 256) mod 4096 * 2)) 100);
        Some (Custom v)
      })"

definition user_image_quality :: "int \<Rightarrow> int \<Rightarrow> int \<Rightarrow> video_qos \<Rightarrow> video_qos option" where
  "user_image_quality time i image_quality q = do {
     c \<leftarrow> convert_quality image_quality;
     Some (if map_of (q_users q) i = None then q
           else let q = q\<lparr>q_users := modify_entry i (\<lambda>u. u\<lparr>u_quality := Some (time, c)\<rparr>) (q_users q)\<rparr>
                in q\<lparr>q_ratio := quality_ratio (latest_quality q)\<rparr>)
   }"

definition user_record :: "int \<Rightarrow> bool \<Rightarrow> video_qos \<Rightarrow> video_qos" where
  "user_record i v q = q\<lparr>q_users := modify_entry i (\<lambda>u. u\<lparr>u_record := v\<rparr>) (q_users q)\<rparr>"

definition fps_limits :: "rat \<Rightarrow> nat \<times> nat" where
  "fps_limits target_ratio =
     (if target_ratio \<ge> BR_BEST then (8, 16)
      else if target_ratio \<ge> BR_BALANCED then (10, 20) else (12, 24))"

definition devide_fps :: "nat \<Rightarrow> nat \<Rightarrow> nat" where
  "devide_fps f avg =
     u32_of_f32 (of_int \<lceil>f32_div (f32_of_u32 f)
       (f32_div (f32_of_u32 avg) (f32_of_u32 DELAY_THRESHOLD_150MS))\<rceil>)"

text \<open>
  One network delay sample of a user: the adapted rate with the counter of quick increases, and
  the whole change of the user's delay record.
\<close>

definition adaptive_fps :: "nat \<Rightarrow> nat \<Rightarrow> nat \<Rightarrow> nat \<Rightarrow> nat \<Rightarrow> nat \<Rightarrow> nat \<times> nat" where
  "adaptive_fps min_fps normal_fps old_avg avg cur_fps quick =
     (let dividend_ms = DELAY_THRESHOLD_150MS * min_fps
      in if avg < 50
         then let quick = quick + 1; step = (if cur_fps < normal_fps then 1 else 0)
              in if quick \<ge> 3 then (max min_fps (cur_fps + 5), 0)
                 else (max min_fps (cur_fps + step), quick)
         else if avg < 100
         then let step = (if avg < old_avg then if cur_fps < normal_fps then 1 else 0 else 0)
              in (max min_fps (cur_fps + step), quick)
         else if avg < DELAY_THRESHOLD_150MS then (max min_fps cur_fps, quick)
         else if avg < 200 then (max min_fps (devide_fps cur_fps avg), quick)
         else if avg < 300 then (min min_fps (devide_fps cur_fps avg), quick)
         else if avg < 600 then (dividend_ms div avg, quick)
         else (min (dividend_ms div avg) (devide_fps cur_fps avg), quick))"

definition stable_increase :: "nat \<Rightarrow> nat \<Rightarrow> nat \<Rightarrow> nat \<times> nat" where
  "stable_increase avg f inc =
     (let inc = (if avg < DELAY_THRESHOLD_150MS then inc + 1 else 0)
      in if inc \<ge> 3 then (f + 1, 0) else (f, inc))"

definition user_delay_sample :: "nat \<Rightarrow> nat \<Rightarrow> nat \<Rightarrow> nat \<Rightarrow> nat \<Rightarrow> user_delay \<Rightarrow> user_delay option" where
  "user_delay_sample highest min_fps normal_fps cur_fps delay d = do {
     let old_avg = avg_delay d;
     let d = add_delay (max delay 10) d;
     let avg = max (avg_delay d) 10;
     let (f, quick) = adaptive_fps min_fps normal_fps old_avg avg cur_fps (quick_increase_fps_count d);
     let (f, inc) = stable_increase avg f (increase_fps_count d);
     let quick = (if avg > 50 then 0 else quick);
     f \<leftarrow> checked_clamp MIN_FPS highest f;
     Some (d\<lparr>quick_increase_fps_count := quick, increase_fps_count := inc, delay_fps := Some f\<rparr>)
   }"

definition user_network_delay :: "bool \<Rightarrow> nat \<Rightarrow> int \<Rightarrow> nat \<Rightarrow> video_qos \<Rightarrow> video_qos option" where
  "user_network_delay linux now i delay q = do {
     highest \<leftarrow> highest_fps q;
     let (min_fps, normal_fps) = fps_limits (quality_ratio (latest_quality q));
     (q, adjust) \<leftarrow>
       (case map_of (q_users q) i of
          None \<Rightarrow> Some (q, False)
        | Some u \<Rightarrow> do {
            d \<leftarrow> user_delay_sample highest min_fps normal_fps (q_fps q) delay (u_delay u);
            Some (q\<lparr>q_users := modify_entry i (\<lambda>u. u\<lparr>u_delay := d\<rparr>) (q_users q)\<rparr>,
                  delay_fps (u_delay u) = None)
          });
     q \<leftarrow> adjust_fps now q;
     if adjust \<and> \<not> linux then adjust_ratio now False q else Some q
   }"

definition user_delay_response_elapsed :: "nat \<Rightarrow> int \<Rightarrow> nat \<Rightarrow> video_qos \<Rightarrow> video_qos option" where
  "user_delay_response_elapsed now i elapsed q =
     (if map_of (q_users q) i = None then Some q
      else let q = q\<lparr>q_users := modify_entry i
                 (\<lambda>u. u\<lparr>u_delay := (let d = (u_delay u)\<lparr>response_delayed := elapsed > 2000\<rparr>
                                    in if elapsed > 2000 then add_delay (wrap_u32 elapsed) d else d)\<rparr>)
                 (q_users q)\<rparr>
           in if elapsed > 2000 then adjust_fps now q else Some q)"

section \<open>Displays\<close>

definition new_display :: "string \<Rightarrow> video_qos \<Rightarrow> video_qos" where
  "new_display name q = q\<lparr>q_displays := AList.update name default_display (q_displays q)\<rparr>"

definition remove_display :: "string \<Rightarrow> video_qos \<Rightarrow> video_qos" where
  "remove_display name q = q\<lparr>q_displays := AList.delete name (q_displays q)\<rparr>"

definition update_display_data :: "nat \<Rightarrow> string \<Rightarrow> nat \<Rightarrow> video_qos \<Rightarrow> video_qos option" where
  "update_display_data now name n q = do {
     let q = q\<lparr>q_displays := modify_entry name
                (\<lambda>d. d\<lparr>send_counter := wrap_u64 (send_counter d + n)\<rparr>) (q_displays q)\<rparr>;
     q \<leftarrow> adjust_fps now q;
     if in_vbr_state q
     then if (now - q_adjust_ratio_instant q) div 1000 \<ge> ADJUST_RATIO_INTERVAL
          then let dynamic_screen = list_ex (\<lambda>(_, d). send_counter d
                      \<ge> ADJUST_RATIO_INTERVAL * DYNAMIC_SCREEN_THRESHOLD) (q_displays q);
                   q = q\<lparr>q_displays := map (\<lambda>(k, d). (k, d\<lparr>send_counter := 0\<rparr>)) (q_displays q)\<rparr>
               in adjust_ratio now dynamic_screen q
          else Some q
     else Some (q\<lparr>q_ratio := quality_ratio (latest_quality q)\<rparr>)
   }"

section \<open>Operations as values\<close>

datatype qos_op =
    StoreBitrate nat | ReadRatio | SetSupport string bool
  | Open nat string int | Close nat int | CustomFps int nat | AutoFps int nat
  | ImageQuality int int int | Record int bool | NetworkDelay nat int nat
  | ResponseElapsed nat int nat | NewDisplay string | RemoveDisplay string
  | UpdateDisplay nat string nat

fun qos_apply :: "bool \<Rightarrow> qos_op \<Rightarrow> video_qos \<Rightarrow> video_qos option" where
  "qos_apply linux (StoreBitrate b) q = Some (store_bitrate b q)"
| "qos_apply linux ReadRatio q = map_option fst (ratio q)"
| "qos_apply linux (SetSupport n b) q = Some (set_support_changing_quality n b q)"
| "qos_apply linux (Open now abr i) q = Some (on_connection_open now abr i q)"
| "qos_apply linux (Close now i) q = Some (on_connection_close now i q)"
| "qos_apply linux (CustomFps i f) q = Some (user_custom_fps i f q)"
| "qos_apply linux (AutoFps i f) q = Some (user_auto_adjust_fps i f q)"
| "qos_apply linux (ImageQuality time i n) q = user_image_quality time i n q"
| "qos_apply linux (Record i v) q = Some (user_record i v q)"
| "qos_apply linux (NetworkDelay now i d) q = user_network_delay linux now i d q"
| "qos_apply linux (ResponseElapsed now i e) q = user_delay_response_elapsed now i e q"
| "qos_apply linux (NewDisplay n) q = Some (new_display n q)"
| "qos_apply linux (RemoveDisplay n) q = Some (remove_display n q)"
| "qos_apply linux (UpdateDisplay now n c) q = update_display_data now n c q"

section \<open>The invariant\<close>

definition is_f32 :: "rat \<Rightarrow> bool" where "is_f32 x \<longleftrightarrow> f32_round x = x"

definition quality_ok :: "quality \<Rightarrow> bool" where
  "quality_ok c \<longleftrightarrow> (case c of Custom v \<Rightarrow> BR_MIN \<le> v \<and> v \<le> BR_MAX \<and> is_f32 v | _ \<Rightarrow> True)"

definition rate_ok :: "nat option \<Rightarrow> bool" where
  "rate_ok r \<longleftrightarrow> (case r of None \<Rightarrow> True | Some f \<Rightarrow> MIN_FPS \<le> f \<and> f \<le> MAX_FPS)"

definition delay_ok :: "user_delay \<Rightarrow> bool" where
  "delay_ok d \<longleftrightarrow> rate_ok (delay_fps d) \<and> length (delay_history d) \<le> HISTORY_DELAY_LEN + 1
     \<and> length (samples (rtt d)) \<le> WINDOW_SAMPLES
     \<and> quick_increase_fps_count d < 3 \<and> increase_fps_count d < 3"

definition user_ok :: "user_data \<Rightarrow> bool" where
  "user_ok u \<longleftrightarrow> rate_ok (u_custom_fps u) \<and> rate_ok (u_auto_adjust_fps u) \<and> delay_ok (u_delay u)
     \<and> (case u_quality u of None \<Rightarrow> True | Some (_, c) \<Rightarrow> quality_ok c)"

definition ratio_ok :: "rat \<Rightarrow> bool" where
  "ratio_ok r \<longleftrightarrow> BR_MIN_HIGH_RESOLUTION \<le> r \<and> r \<le> BR_MAX \<and> is_f32 r"

definition qos_ok :: "video_qos \<Rightarrow> bool" where
  "qos_ok q \<longleftrightarrow> distinct (map fst (q_users q)) \<and> distinct (map fst (q_displays q))
     \<and> list_all (\<lambda>(_, u). user_ok u) (q_users q)
     \<and> MIN_FPS \<le> q_fps q \<and> q_fps q \<le> MAX_FPS \<and> ratio_ok (q_ratio q)"

lemma qos_okI:
  assumes "distinct (map fst (q_users q))" "distinct (map fst (q_displays q))"
    "list_all (\<lambda>(_, u). user_ok u) (q_users q)" "MIN_FPS \<le> q_fps q" "q_fps q \<le> MAX_FPS"
    "ratio_ok (q_ratio q)"
  shows "qos_ok q"
  using assms by (simp add: qos_ok_def)

subsection \<open>Constants\<close>

lemma f32_lit_is_f32 [simp]: "is_f32 (f32_round x)"
  by (simp add: is_f32_def)

lemma br_consts_f32 [simp]:
  "is_f32 BR_BEST" "is_f32 BR_BALANCED" "is_f32 BR_SPEED" "is_f32 BR_MAX" "is_f32 BR_MIN"
  "is_f32 BR_MIN_HIGH_RESOLUTION"
  by (simp_all add: BR_BEST_def BR_BALANCED_def BR_SPEED_def BR_MAX_def BR_MIN_def
        BR_MIN_HIGH_RESOLUTION_def del: f32_round_1)

lemma br_order [simp]:
  "BR_MIN_HIGH_RESOLUTION \<le> BR_MIN" "BR_MIN_HIGH_RESOLUTION \<le> BR_MAX" "BR_MIN \<le> BR_MAX"
  "BR_MIN_HIGH_RESOLUTION \<le> BR_SPEED" "BR_SPEED \<le> BR_MAX"
  "BR_MIN_HIGH_RESOLUTION \<le> BR_BALANCED" "BR_BALANCED \<le> BR_MAX"
  "BR_MIN_HIGH_RESOLUTION \<le> BR_BEST" "BR_BEST \<le> BR_MAX" "BR_MIN \<le> BR_BEST" "BR_MIN \<le> BR_BALANCED"
  by (simp_all add: BR_BEST_def BR_BALANCED_def BR_SPEED_def BR_MAX_def BR_MIN_def
        BR_MIN_HIGH_RESOLUTION_def f32_round_mono del: f32_round_1)

lemma br_min_positive [simp]: "0 < BR_MIN_HIGH_RESOLUTION"
  by (simp add: BR_MIN_HIGH_RESOLUTION_def f32_round_pos)

lemma max_br_multiple [simp]: "MAX_BR_MULTIPLE = 1"
  by (simp add: MAX_BR_MULTIPLE_def)

lemma quality_ratio_ok: "quality_ok c \<Longrightarrow> ratio_ok (quality_ratio c)"
  using br_order(1) by (cases c) (auto simp: quality_ok_def ratio_ok_def quality_ratio_def
      intro: order_trans [OF br_order(1)])

subsection \<open>Queries\<close>

lemma min_opt_Some: "xs \<noteq> [] \<Longrightarrow> \<exists>m. min_opt xs = Some m \<and> m \<in> set xs \<and> (\<forall>x \<in> set xs. m \<le> x)"
  by (auto simp: min_opt_def)

lemma max_opt_Some_iff: "max_opt xs = Some m \<Longrightarrow> m \<in> set xs \<and> (\<forall>x \<in> set xs. x \<le> m)"
  by (auto simp: max_opt_def split: if_splits)

lemma foldl_later_mem: "foldl later acc xs = Some x \<Longrightarrow> acc = Some x \<or> x \<in> set xs"
proof (induction xs arbitrary: acc)
  case (Cons y xs)
  from Cons.IH [of "later acc y"] Cons.prems show ?case
    by (cases acc) (auto simp: later_def split: if_splits)
qed simp

lemma latest_entry_mem: "latest_entry xs = Some x \<Longrightarrow> x \<in> set xs"
  using foldl_later_mem [of None xs x] by (simp add: latest_entry_def)

lemma latest_quality_ok:
  assumes "list_all (\<lambda>(_, u). user_ok u) (q_users q)"
  shows "quality_ok (latest_quality q)"
proof (cases "latest_entry (List.map_filter (\<lambda>(_, u). u_quality u) (q_users q))")
  case None
  then show ?thesis by (simp add: latest_quality_def quality_ok_def)
next
  case (Some e)
  from latest_entry_mem [OF this] obtain i u where "(i, u) \<in> set (q_users q)" "u_quality u = Some e"
    by (auto simp: List.map_filter_def)
  with assms have "quality_ok (snd e)"
    by (force simp: list_all_iff user_ok_def split: prod.splits)
  with Some show ?thesis by (simp add: latest_quality_def)
qed

lemma user_fps_bounds: "user_ok u \<Longrightarrow> MIN_FPS \<le> user_fps u \<and> user_fps u \<le> MAX_FPS"
  by (auto simp: user_ok_def rate_ok_def user_fps_def unwrap_or_def Let_def qos_consts split: branches)

lemma highest_fps_Some:
  assumes "list_all (\<lambda>(_, u). user_ok u) (q_users q)"
  shows "\<exists>h. highest_fps q = Some h \<and> MIN_FPS \<le> h \<and> h \<le> MAX_FPS
           \<and> (\<forall>(i, u) \<in> set (q_users q). h \<le> user_fps u)"
proof -
  let ?xs = "filter (\<lambda>f. f \<ge> MIN_FPS) (map (\<lambda>(_, u). user_fps u) (q_users q))"
  let ?m = "unwrap_or (min_opt ?xs) FPS"
  have mem: "user_fps u \<in> set ?xs \<and> user_fps u \<le> MAX_FPS" if "(i, u) \<in> set (q_users q)" for i u
    using assms that user_fps_bounds [of u] by (force simp: list_all_iff)
  have "?m \<le> user_fps u" if "(i, u) \<in> set (q_users q)" for i u
    using mem [OF that] min_opt_Some [of ?xs] by (cases "?xs = []") auto
  moreover have "MIN_FPS \<le> ?m"
    using min_opt_Some [of ?xs] by (cases "?xs = []") (auto simp: min_opt_def qos_consts)
  moreover have "highest_fps q = Some (clamp MIN_FPS MAX_FPS ?m)"
    by (simp add: highest_fps_def checked_clamp_def qos_consts)
  ultimately show ?thesis
    using mem by (fastforce simp: clamp_def qos_consts)
qed

subsection \<open>Adjustments\<close>

definition user_rate :: "user_data \<Rightarrow> nat" where
  "user_rate u = unwrap_or (delay_fps (u_delay u)) INIT_FPS"

text \<open>What an adjusted frame rate respects: every user's limits and delay, late answers, newcomers.\<close>

definition fps_respects :: "nat \<Rightarrow> video_qos \<Rightarrow> bool" where
  "fps_respects now q \<longleftrightarrow> MIN_FPS \<le> q_fps q \<and> q_fps q \<le> MAX_FPS
     \<and> list_all (\<lambda>(_, u). q_fps q \<le> user_fps u \<and> q_fps q \<le> user_rate u
         \<and> (response_delayed (u_delay u) \<longrightarrow> q_fps q \<le> 2)) (q_users q)
     \<and> (now < q_new_user_instant q + 1000 \<longrightarrow> q_fps q \<le> INIT_FPS)"

lemma user_rate_bounds: "user_ok u \<Longrightarrow> MIN_FPS \<le> user_rate u"
  by (auto simp: user_ok_def delay_ok_def rate_ok_def user_rate_def unwrap_or_def qos_consts split: branches)

lemma adjust_fps_Some:
  assumes ok: "list_all (\<lambda>(_, u). user_ok u) (q_users q)"
  shows "\<exists>f. adjust_fps now q = Some (q\<lparr>q_fps := f\<rparr>) \<and> fps_respects now (q\<lparr>q_fps := f\<rparr>)"
proof -
  from highest_fps_Some [OF ok] obtain h where h: "highest_fps q = Some h" "MIN_FPS \<le> h" "h \<le> MAX_FPS"
    "\<And>i u. (i, u) \<in> set (q_users q) \<Longrightarrow> h \<le> user_fps u" by auto
  let ?rates = "map (\<lambda>(_, u). user_rate u) (q_users q)"
  let ?late = "list_ex (\<lambda>(_, u). response_delayed (u_delay u)) (q_users q)"
  let ?new = "(now - q_new_user_instant q) div 1000 < 1"
  define a where "a = unwrap_or (min_opt ?rates) INIT_FPS"
  define b where "b = (if ?late then if a > MIN_FPS + 1 then MIN_FPS + 1 else a else a)"
  define c where "c = (if ?new then if b > INIT_FPS then INIT_FPS else b else b)"
  have a: "a \<le> user_rate u" if "(i, u) \<in> set (q_users q)" for i u
    using that min_opt_Some [of ?rates] by (cases "?rates = []") (force simp: a_def)+
  have "MIN_FPS \<le> a"
    using min_opt_Some [of ?rates] ok user_rate_bounds
    by (cases "?rates = []") (fastforce simp: a_def min_opt_def list_all_iff qos_consts)+
  then have c: "MIN_FPS \<le> c" "c \<le> a" "?late \<longrightarrow> c \<le> 2" "?new \<longrightarrow> c \<le> INIT_FPS"
    by (auto simp: c_def b_def qos_consts)
  have "adjust_fps now q = checked_clamp MIN_FPS h c \<bind> (\<lambda>f. Some (q\<lparr>q_fps := f\<rparr>))"
    unfolding adjust_fps_def h(1) a_def b_def c_def user_rate_def Let_def by simp
  also have "checked_clamp MIN_FPS h c = Some (min c h)"
    using h(2) c(1) by (auto simp: checked_clamp_def clamp_def)
  finally have "adjust_fps now q = Some (q\<lparr>q_fps := min c h\<rparr>)" by simp
  moreover have "fps_respects now (q\<lparr>q_fps := min c h\<rparr>)"
    using a c h by (fastforce simp: fps_respects_def list_all_iff list_ex_iff)
  ultimately show ?thesis by blast
qed

lemma min_ratio_bounds:
  assumes "quality_ok c"
  shows "BR_MIN_HIGH_RESOLUTION \<le> min_ratio c r" "min_ratio c r \<le> quality_ratio c"
    and "is_f32 (case r of None \<Rightarrow> 0 | Some x \<Rightarrow> x) \<Longrightarrow> is_f32 (min_ratio c r)"
proof -
  have half: "f32_div BR_BEST (f32_lit (25 / 10)) \<le> BR_BEST"
  proof -
    have "(1::rat) \<le> f32_lit (25 / 10)" by (rule f32_round_ge_1) simp
    moreover have "0 < BR_BEST" by (simp add: BR_BEST_def f32_round_pos)
    ultimately have "BR_BEST / f32_lit (25 / 10) \<le> BR_BEST" by (simp add: pos_divide_le_eq)
    from f32_round_mono [OF this] show ?thesis
      using br_consts_f32(1) by (simp add: f32_div_def is_f32_def)
  qed
  have lit: "f32_lit (4 / 10) \<le> BR_BALANCED"
    unfolding BR_BALANCED_def by (rule f32_round_mono) simp
  show "BR_MIN_HIGH_RESOLUTION \<le> min_ratio c r"
    by (cases c) (auto simp: min_ratio_def Let_def le_max_iff_disj)
  show "min_ratio c r \<le> quality_ratio c"
    using assms half lit order_trans [OF br_order(1)]
    by (cases c; cases r) (auto simp: min_ratio_def quality_ratio_def quality_ok_def Let_def
        min_le_iff_disj intro: order_trans)
  show "is_f32 (min_ratio c r)" if "is_f32 (case r of None \<Rightarrow> 0 | Some x \<Rightarrow> x)"
    using that by (cases c; cases r) (auto simp: min_ratio_def Let_def f32_div_def max_def min_def)
qed

lemma scaled_ratio_f32: "is_f32 r \<Longrightarrow> is_f32 (scaled_ratio dyn d r)"
  by (simp add: scaled_ratio_def f32_mul_def)

lemma checked_clamp_cases:
  assumes "lo \<le> hi"
  shows "\<exists>y. checked_clamp lo hi x = Some y \<and> lo \<le> y \<and> y \<le> hi \<and> (y = lo \<or> y = hi \<or> y = x)
           \<and> (y \<le> x \<or> y = lo)"
  using assms by (auto simp: checked_clamp_def clamp_def)

lemma adjust_ratio_step:
  assumes "qos_ok q" "in_vbr_state q" "q_users q \<noteq> []"
  shows "\<exists>m r v. max_opt (map (\<lambda>(_, u). avg_delay (u_delay u)) (q_users q)) = Some m
    \<and> adjust_ratio now dyn q = Some (q\<lparr>q_ratio := r, q_adjust_ratio_instant := now\<rparr>)
    \<and> ratio_ok r \<and> r \<le> quality_ratio (latest_quality q)
    \<and> (r \<le> v \<or> (\<exists>x. r = min_ratio (latest_quality q) x)) \<and> v \<le> scaled_ratio dyn m (q_ratio q)"
proof -
  let ?c = "latest_quality q" and ?b = "bitrate q" and ?r = "q_ratio q"
  obtain m where m: "max_opt (map (\<lambda>(_, u). avg_delay (u_delay u)) (q_users q)) = Some m"
    using assms(3) by (auto simp: max_opt_def)
  have c: "quality_ok ?c" and r: "is_f32 ?r"
    using assms(1) by (auto simp: qos_ok_def ratio_ok_def intro: latest_quality_ok)
  from quality_ratio_ok [OF c] have t: "is_f32 (quality_ratio ?c)" "quality_ratio ?c \<le> BR_MAX"
    by (auto simp: ratio_ok_def)
  then have hi: "f32_mul (quality_ratio ?c) MAX_BR_MULTIPLE = quality_ratio ?c"
    by (simp add: f32_mul_def is_f32_def)
  define x where "x = then_some (?b > 0)
     (max (f32_div (f32_mul ?r 1000) (f32_of_u32 ?b)) BR_MIN_HIGH_RESOLUTION)"
  define y where "y = then_some (?b > 0)
     (f32_div (f32_mul (f32_of_u32 (wrap_u32 (?b + 150))) ?r) (f32_of_u32 ?b))"
  define v where "v = (let v = scaled_ratio dyn m ?r in case y of
     Some a \<Rightarrow> if v > a \<and> a > ?r \<and> ?r \<ge> BR_SPEED then a else v | None \<Rightarrow> v)"
  have "is_f32 (case x of None \<Rightarrow> 0 | Some x \<Rightarrow> x)"
    by (simp add: x_def then_some_def max_def f32_div_def) (simp add: is_f32_def)
  note lo = min_ratio_bounds [OF c, of x] min_ratio_bounds(3) [OF c, of x, OF this]
  have v: "is_f32 v" "v \<le> scaled_ratio dyn m ?r"
    using scaled_ratio_f32 [OF r] by (auto simp: v_def y_def Let_def f32_div_def then_some_def)
  have eq: "adjust_ratio now dyn q = checked_clamp (min_ratio ?c x) (quality_ratio ?c) v
      \<bind> (\<lambda>r. Some (q\<lparr>q_ratio := r, q_adjust_ratio_instant := now\<rparr>))"
    using assms(2) unfolding adjust_ratio_def m x_def y_def v_def Let_def hi by simp
  from checked_clamp_cases [OF lo(2), of v] obtain w where
    w: "checked_clamp (min_ratio ?c x) (quality_ratio ?c) v = Some w" "min_ratio ?c x \<le> w"
      "w \<le> quality_ratio ?c" "w = min_ratio ?c x \<or> w = quality_ratio ?c \<or> w = v"
      "w \<le> v \<or> w = min_ratio ?c x" by blast
  from w lo t v have "ratio_ok w" by (auto simp: ratio_ok_def)
  with w m v show ?thesis unfolding eq by auto
qed

lemma adjust_ratio_Some:
  assumes "qos_ok q"
  shows "\<exists>r t. adjust_ratio now dyn q = Some (q\<lparr>q_ratio := r, q_adjust_ratio_instant := t\<rparr>) \<and> ratio_ok r"
proof (cases "in_vbr_state q \<and> q_users q \<noteq> []")
  case True
  with adjust_ratio_step [OF assms] show ?thesis by blast
next
  case False
  then have "adjust_ratio now dyn q = Some (q\<lparr>q_ratio := q_ratio q, q_adjust_ratio_instant := q_adjust_ratio_instant q\<rparr>)"
    by (auto simp: adjust_ratio_def max_opt_def)
  with assms show ?thesis unfolding qos_ok_def by blast
qed

subsection \<open>Operations keep the invariant\<close>

lemma modify_entry_simps [simp]:
  "map fst (modify_entry k f m) = map fst m"
  "modify_entry k f m = [] \<longleftrightarrow> m = []"
  by (auto simp: modify_entry_def)

lemma modify_entry_all:
  "list_all (\<lambda>(_, u). P u) m \<Longrightarrow> (\<And>u. P u \<Longrightarrow> P (f u)) \<Longrightarrow> list_all (\<lambda>(_, u). P u) (modify_entry k f m)"
  by (fastforce simp: modify_entry_def list_all_iff)

lemma alist_update_all:
  "list_all (\<lambda>(_, u). P u) m \<Longrightarrow> P v \<Longrightarrow> list_all (\<lambda>(_, u). P u) (AList.update k v m)"
  by (induction m) auto

lemma alist_delete_all:
  "list_all (\<lambda>(_, u). P u) m \<Longrightarrow> list_all (\<lambda>(_, u). P u) (AList.delete k m)"
  by (auto simp: AList.delete_eq list_all_iff)

lemma qos_ok_users:
  assumes "qos_ok q" "distinct (map fst us)" "list_all (\<lambda>(_, u). user_ok u) us"
  shows "qos_ok (q\<lparr>q_users := us\<rparr>)"
  using assms by (simp add: qos_ok_def)

lemma qos_ok_modify:
  assumes "qos_ok q" "\<And>u. user_ok u \<Longrightarrow> user_ok (f u)"
  shows "qos_ok (q\<lparr>q_users := modify_entry i f (q_users q)\<rparr>)"
  using assms by (intro qos_ok_users modify_entry_all) (auto simp: qos_ok_def)

lemma qos_ok_displays:
  assumes "qos_ok q" "distinct (map fst ds)"
  shows "qos_ok (q\<lparr>q_displays := ds\<rparr>)"
  using assms by (simp add: qos_ok_def)

lemma default_user_ok: "user_ok default_user"
  by (simp add: user_ok_def default_user_def default_delay_def delay_ok_def rate_ok_def default_rtt_def)

lemma default_qos_ok: "qos_ok (default_qos now)"
  by (simp add: qos_ok_def default_qos_def ratio_ok_def qos_consts)

lemma qos_ok_bitrate [simp]:
  "qos_ok (q\<lparr>q_bitrate_store := b\<rparr>) = qos_ok q" "qos_ok (q\<lparr>q_abr_config := c\<rparr>) = qos_ok q"
  "qos_ok (q\<lparr>q_new_user_instant := t\<rparr>) = qos_ok q" "qos_ok (q\<lparr>q_adjust_ratio_instant := t\<rparr>) = qos_ok q"
  by (simp_all add: qos_ok_def)

lemma on_connection_open_ok: "qos_ok q \<Longrightarrow> qos_ok (on_connection_open now abr i q)"
  by (simp add: on_connection_open_def qos_ok_def distinct_update alist_update_all default_user_ok)

lemma on_connection_close_ok: "qos_ok q \<Longrightarrow> qos_ok (on_connection_close now i q)"
  using default_qos_ok [of now]
  by (simp add: on_connection_close_def qos_ok_def Let_def distinct_delete alist_delete_all)

lemma user_custom_fps_ok: "qos_ok q \<Longrightarrow> qos_ok (user_custom_fps i f q)"
  by (auto simp: user_custom_fps_def user_ok_def rate_ok_def intro!: qos_ok_modify)

lemma user_auto_adjust_fps_ok: "qos_ok q \<Longrightarrow> qos_ok (user_auto_adjust_fps i f q)"
  by (auto simp: user_auto_adjust_fps_def user_ok_def rate_ok_def intro!: qos_ok_modify)

lemma user_record_ok: "qos_ok q \<Longrightarrow> qos_ok (user_record i v q)"
  by (auto simp: user_record_def user_ok_def intro!: qos_ok_modify)

lemma convert_quality_Some: "\<exists>c. convert_quality n = Some c \<and> quality_ok c"
proof -
  let ?x = "f32_div (of_int ((n div 256) mod 4096 * 2)) 100"
  obtain v where v: "checked_clamp BR_MIN BR_MAX ?x = Some v" "BR_MIN \<le> v" "v \<le> BR_MAX"
    "v = BR_MIN \<or> v = BR_MAX \<or> v = ?x"
    using checked_clamp_cases [OF br_order(3), of ?x] by blast
  then have "quality_ok (Custom v)" by (auto simp: quality_ok_def f32_div_def)
  with v(1) show ?thesis by (simp add: convert_quality_def quality_ok_def)
qed

lemma set_latest_ratio_ok: "qos_ok q \<Longrightarrow> qos_ok (q\<lparr>q_ratio := quality_ratio (latest_quality q)\<rparr>)"
  by (simp add: qos_ok_def latest_quality_ok quality_ratio_ok)

lemma user_image_quality_Some:
  assumes "qos_ok q"
  shows "\<exists>q'. user_image_quality time i n q = Some q' \<and> qos_ok q'"
proof -
  obtain c where c: "convert_quality n = Some c" "quality_ok c" using convert_quality_Some by blast
  let ?q = "q\<lparr>q_users := modify_entry i (\<lambda>u. u\<lparr>u_quality := Some (time, c)\<rparr>) (q_users q)\<rparr>"
  have "qos_ok ?q" using assms c(2) by (intro qos_ok_modify) (auto simp: user_ok_def)
  from set_latest_ratio_ok [OF this] assms c(1) show ?thesis
    by (auto simp: user_image_quality_def Let_def)
qed

text \<open>Delay samples: the windows stay bounded, and the counters stay below three.\<close>

lemma update_rtt_samples: "length (samples r) \<le> 60 \<Longrightarrow> length (samples (update_rtt d r)) \<le> 60"
  by (simp add: update_rtt_def Let_def WINDOW_SAMPLES_def)

lemma add_delay_ok: "delay_ok d \<Longrightarrow> delay_ok (add_delay n d)"
  using update_rtt_samples [of "rtt d" n]
  by (auto simp: delay_ok_def add_delay_def WINDOW_SAMPLES_def HISTORY_DELAY_LEN_def)

lemma adaptive_fps_quick: "quick < 3 \<Longrightarrow> snd (adaptive_fps lo normal old avg cur quick) < 3"
  by (simp add: adaptive_fps_def Let_def)

lemma stable_increase_count: "snd (stable_increase avg f inc) < 3"
  by (simp add: stable_increase_def Let_def)

lemma user_delay_sample_eq:
  assumes "MIN_FPS \<le> highest"
  shows "user_delay_sample highest lo normal cur n d =
    (let d' = add_delay (max n 10) d;
         avg = max (avg_delay d') 10;
         a = adaptive_fps lo normal (avg_delay d) avg cur (quick_increase_fps_count d');
         b = stable_increase avg (fst a) (increase_fps_count d')
     in Some (d'\<lparr>quick_increase_fps_count := if avg > 50 then 0 else snd a,
                  increase_fps_count := snd b,
                  delay_fps := Some (clamp MIN_FPS highest (fst b))\<rparr>))"
  unfolding user_delay_sample_def Let_def checked_clamp_Some [OF assms]
  by (simp only: prod.case_eq_if Option.bind.bind_lunit)

lemma user_delay_sample_Some:
  assumes "delay_ok d" "MIN_FPS \<le> highest" "highest \<le> MAX_FPS"
  shows "\<exists>d'. user_delay_sample highest lo normal cur n d = Some d' \<and> delay_ok d'"
proof -
  let ?d = "add_delay (max n 10) d"
  have d: "delay_ok ?d" using assms(1) by (rule add_delay_ok)
  have rate: "rate_ok (Some (clamp MIN_FPS highest f))" for f
    using assms(2,3) by (auto simp: rate_ok_def clamp_lower intro: order_trans [OF clamp_upper])
  show ?thesis unfolding user_delay_sample_eq [OF assms(2)] Let_def
    using d rate stable_increase_count adaptive_fps_quick [of "quick_increase_fps_count ?d"]
    by (simp add: delay_ok_def)
qed

lemma adjust_fps_ok:
  assumes "qos_ok q"
  shows "\<exists>f. adjust_fps now q = Some (q\<lparr>q_fps := f\<rparr>) \<and> qos_ok (q\<lparr>q_fps := f\<rparr>)
           \<and> fps_respects now (q\<lparr>q_fps := f\<rparr>)"
proof -
  from assms have "list_all (\<lambda>(_, u). user_ok u) (q_users q)" by (simp add: qos_ok_def)
  from adjust_fps_Some [OF this] obtain f where
    f: "adjust_fps now q = Some (q\<lparr>q_fps := f\<rparr>)" "fps_respects now (q\<lparr>q_fps := f\<rparr>)" by blast
  with assms show ?thesis by (auto simp: qos_ok_def fps_respects_def)
qed

lemma fps_respects_ratio [simp]:
  "fps_respects now (q\<lparr>q_ratio := r\<rparr>) = fps_respects now q"
  "fps_respects now (q\<lparr>q_ratio := r, q_adjust_ratio_instant := t\<rparr>) = fps_respects now q"
  "fps_respects now (q\<lparr>q_displays := ds\<rparr>) = fps_respects now q"
  by (simp_all add: fps_respects_def)

lemma adjust_ratio_ok:
  assumes "qos_ok q"
  shows "\<exists>q'. adjust_ratio now dyn q = Some q' \<and> qos_ok q' \<and> (fps_respects t q \<longrightarrow> fps_respects t q')
           \<and> q_fps q' = q_fps q \<and> q_users q' = q_users q"
proof -
  from adjust_ratio_Some [OF assms] obtain r u where
    "adjust_ratio now dyn q = Some (q\<lparr>q_ratio := r, q_adjust_ratio_instant := u\<rparr>)" "ratio_ok r" by blast
  with assms show ?thesis by (simp add: qos_ok_def)
qed

lemma network_delay_user:
  assumes "qos_ok q" "highest_fps q = Some h" "map_of (q_users q) i = Some u"
  shows "\<exists>d. user_delay_sample h lo normal cur n (u_delay u) = Some d
           \<and> qos_ok (q\<lparr>q_users := modify_entry i (\<lambda>u. u\<lparr>u_delay := d\<rparr>) (q_users q)\<rparr>)"
proof -
  have users: "list_all (\<lambda>(_, u). user_ok u) (q_users q)" using assms(1) by (simp add: qos_ok_def)
  with assms(3) have "delay_ok (u_delay u)"
    using map_of_SomeD [OF assms(3)] by (force simp: list_all_iff user_ok_def)
  moreover have "MIN_FPS \<le> h" "h \<le> MAX_FPS" using highest_fps_Some [OF users] assms(2) by auto
  ultimately obtain d where
    d: "user_delay_sample h lo normal cur n (u_delay u) = Some d" "delay_ok d"
    using user_delay_sample_Some by blast
  moreover have "qos_ok (q\<lparr>q_users := modify_entry i (\<lambda>u. u\<lparr>u_delay := d\<rparr>) (q_users q)\<rparr>)"
    using d(2) by (intro qos_ok_modify [OF assms(1)]) (simp add: user_ok_def)
  ultimately show ?thesis by blast
qed

lemma user_network_delay_Some:
  assumes "qos_ok q"
  shows "\<exists>q'. user_network_delay linux now i n q = Some q' \<and> qos_ok q' \<and> fps_respects now q'"
proof -
  obtain h where h: "highest_fps q = Some h"
    using highest_fps_Some [of q] assms by (auto simp: qos_ok_def)
  obtain lo normal where l: "fps_limits (quality_ratio (latest_quality q)) = (lo, normal)" by force
  obtain q1 adj where q1: "(case map_of (q_users q) i of
          None \<Rightarrow> Some (q, False)
        | Some u \<Rightarrow> user_delay_sample h lo normal (q_fps q) n (u_delay u) \<bind> (\<lambda>d.
            Some (q\<lparr>q_users := modify_entry i (\<lambda>u. u\<lparr>u_delay := d\<rparr>) (q_users q)\<rparr>,
                  delay_fps (u_delay u) = None))) = Some (q1, adj)" "qos_ok q1"
  proof (cases "map_of (q_users q) i")
    case None
    with assms that [of q False] show ?thesis by simp
  next
    case (Some u)
    with network_delay_user [OF assms h Some, of lo normal "q_fps q" n] that show ?thesis by auto
  qed
  from adjust_fps_ok [OF q1(2)] obtain f where
    f: "adjust_fps now q1 = Some (q1\<lparr>q_fps := f\<rparr>)" "qos_ok (q1\<lparr>q_fps := f\<rparr>)"
      "fps_respects now (q1\<lparr>q_fps := f\<rparr>)" by blast
  have eq: "user_network_delay linux now i n q =
      (if adj \<and> \<not> linux then adjust_ratio now False (q1\<lparr>q_fps := f\<rparr>) else Some (q1\<lparr>q_fps := f\<rparr>))"
    unfolding user_network_delay_def h l Let_def by (simp add: q1(1) f(1))
  show ?thesis unfolding eq using f adjust_ratio_ok [OF f(2), of now False now] by auto
qed

lemma user_delay_response_elapsed_Some:
  assumes "qos_ok q"
  shows "\<exists>q'. user_delay_response_elapsed now i e q = Some q' \<and> qos_ok q'
           \<and> (e > 2000 \<and> map_of (q_users q) i \<noteq> None \<longrightarrow> fps_respects now q')"
proof -
  let ?f = "\<lambda>u. u\<lparr>u_delay := (let d = (u_delay u)\<lparr>response_delayed := e > 2000\<rparr>
                 in if e > 2000 then add_delay (wrap_u32 e) d else d)\<rparr>"
  have "delay_ok d \<Longrightarrow> delay_ok (d\<lparr>response_delayed := b\<rparr>)" for d b by (simp add: delay_ok_def)
  then have "qos_ok (q\<lparr>q_users := modify_entry i ?f (q_users q)\<rparr>)"
    by (intro qos_ok_modify [OF assms]) (auto simp: user_ok_def Let_def intro: add_delay_ok)
  from this adjust_fps_ok [OF this, of now] assms show ?thesis
    unfolding user_delay_response_elapsed_def Let_def by auto
qed

lemma update_display_data_Some:
  assumes "qos_ok q"
  shows "\<exists>q'. update_display_data now name n q = Some q' \<and> qos_ok q' \<and> fps_respects now q'"
proof -
  let ?q = "q\<lparr>q_displays := modify_entry name
                (\<lambda>d. d\<lparr>send_counter := wrap_u64 (send_counter d + n)\<rparr>) (q_displays q)\<rparr>"
  have "qos_ok ?q" using assms by (intro qos_ok_displays) (auto simp: qos_ok_def)
  from adjust_fps_ok [OF this, of now] obtain f where
    f: "adjust_fps now ?q = Some (?q\<lparr>q_fps := f\<rparr>)" "qos_ok (?q\<lparr>q_fps := f\<rparr>)"
      "fps_respects now (?q\<lparr>q_fps := f\<rparr>)" by blast
  define q2 where "q2 = ?q\<lparr>q_fps := f\<rparr>"
  let ?r = "q2\<lparr>q_displays := map (\<lambda>(k, d). (k, d\<lparr>send_counter := 0\<rparr>)) (q_displays q2)\<rparr>"
  have "map fst (map (\<lambda>(k, d). (k, d\<lparr>send_counter := 0\<rparr>)) (q_displays q2)) = map fst (q_displays q2)"
    by auto
  then have r: "qos_ok ?r"
    using f(2) unfolding q2_def [symmetric] by (intro qos_ok_displays) (simp_all only: qos_ok_def)
  have q2: "qos_ok q2" "fps_respects now q2" using f(2,3) by (simp_all only: q2_def)
  have "\<exists>q'. adjust_ratio now dyn ?r = Some q' \<and> qos_ok q' \<and> fps_respects now q'" for dyn
    using adjust_ratio_ok [OF r, of now dyn now] q2(2) by auto
  then show ?thesis
    unfolding update_display_data_def Let_def f(1) q2_def [symmetric] bind.bind_lunit
    using q2 set_latest_ratio_ok [OF q2(1)] by simp
qed

lemma ratio_Some: "\<exists>s. ratio q = Some (if q_ratio q < BR_MIN_HIGH_RESOLUTION \<or> q_ratio q > BR_MAX
    then q\<lparr>q_ratio := BR_BALANCED\<rparr> else q, s)"
proof -
  have "f32_lit (6 / 10) \<le> f32_lit 2" by (rule f32_round_mono) simp
  then obtain s where "fps_bitrate_scale (q_fps q) = Some s"
    by (auto simp: fps_bitrate_scale_def checked_clamp_def)
  then show ?thesis by (auto simp: ratio_def Let_def)
qed

lemma display_ops_ok:
  assumes "qos_ok q"
  shows "qos_ok (set_support_changing_quality n b q)" "qos_ok (new_display n q)"
    "qos_ok (remove_display n q)" "qos_ok (store_bitrate r q)"
  using assms
  by (simp_all add: set_support_changing_quality_def new_display_def remove_display_def
        store_bitrate_def qos_ok_def distinct_update distinct_delete)

lemma ratio_ok_read: "qos_ok q \<Longrightarrow> \<exists>q'. map_option fst (ratio q) = Some q' \<and> qos_ok q'"
  using ratio_Some [of q] by (auto simp: qos_ok_def ratio_ok_def)

lemmas qos_ops_ok =
  display_ops_ok on_connection_open_ok on_connection_close_ok user_custom_fps_ok
  user_auto_adjust_fps_ok user_record_ok

lemma qos_apply_Some: "qos_ok q \<Longrightarrow> \<exists>q'. qos_apply linux a q = Some q' \<and> qos_ok q'"
  using user_image_quality_Some [of q] user_network_delay_Some [of q] ratio_ok_read [of q]
    user_delay_response_elapsed_Some [of q] update_display_data_Some [of q]
  by (cases a) (simp_all add: qos_ops_ok, blast+)

lemma qos_apply_preserved: "qos_ok q \<Longrightarrow> qos_apply linux a q = Some q' \<Longrightarrow> qos_ok q'"
  using qos_apply_Some [of q linux a] by auto

interpretation qos: panic_free qos_ok "qos_apply linux" for linux
  using qos_apply_Some qos_apply_preserved by unfold_locales blast+

section \<open>Frame rate under delay\<close>

lemma f32_of_u32_exact: "n < 16777216 \<Longrightarrow> f32_of_u32 n = of_nat n"
  by (simp add: f32_of_u32_def f32_round_of_nat)

lemma u32_of_f32_le: "x \<le> of_nat n \<Longrightarrow> u32_of_f32 x \<le> n"
  by (auto simp: u32_of_f32_def min_le_iff_disj nat_le_iff floor_le_iff intro: le_less_trans)

lemma devide_fps_le:
  assumes "150 \<le> avg" "f \<le> 120"
  shows "devide_fps f avg \<le> f"
proof -
  have "(150::rat) \<le> f32_of_u32 avg"
    using f32_round_mono [of 150 "of_nat avg"] f32_round_of_nat [of 150] assms(1)
    by (simp add: f32_of_u32_def)
  then have "1 \<le> f32_of_u32 avg / of_nat 150" by simp
  then have x: "1 \<le> f32_div (f32_of_u32 avg) (f32_of_u32 DELAY_THRESHOLD_150MS)" (is "1 \<le> ?x")
    unfolding f32_div_def by (simp add: f32_of_u32_exact qos_consts f32_round_ge_1)
  then have "of_nat f / ?x \<le> of_nat f"
    using mult_left_mono [OF x, of "of_nat f"] by (simp add: pos_divide_le_eq)
  from f32_round_le_nat [OF this] assms(2) have "f32_div (f32_of_u32 f) ?x \<le> of_nat f"
    by (simp add: f32_div_def f32_of_u32_exact)
  then have "\<lceil>f32_div (f32_of_u32 f) ?x\<rceil> \<le> int f" by (simp only: ceiling_le_iff of_int_of_nat_eq)
  then have "of_int \<lceil>f32_div (f32_of_u32 f) ?x\<rceil> \<le> (of_int (int f) :: rat)"
    by (simp only: of_int_le_iff)
  then have "of_int \<lceil>f32_div (f32_of_u32 f) ?x\<rceil> \<le> (of_nat f :: rat)"
    by (simp only: of_int_of_nat_eq)
  then show ?thesis unfolding devide_fps_def by (rule u32_of_f32_le)
qed

text \<open>Under a delay of 150 ms or more the adapted rate stays below the current or the minimum rate.\<close>

lemma adaptive_fps_bad_network:
  assumes "150 \<le> avg" "cur \<le> 120"
  shows "fst (adaptive_fps lo normal old avg cur quick) \<le> max lo cur"
    and "200 \<le> avg \<Longrightarrow> fst (adaptive_fps lo normal old avg cur quick) \<le> lo"
proof -
  have div: "150 * lo div avg \<le> lo"
    using div_le_mono2 [of 150 avg "150 * lo"] assms(1) by simp
  show "fst (adaptive_fps lo normal old avg cur quick) \<le> max lo cur"
    using assms devide_fps_le [OF assms] div
    by (auto simp: adaptive_fps_def qos_consts Let_def min_le_iff_disj)
  show "fst (adaptive_fps lo normal old avg cur quick) \<le> lo" if "200 \<le> avg"
    using that div by (auto simp: adaptive_fps_def qos_consts Let_def min_le_iff_disj)
qed

definition sampled_delay :: "nat \<Rightarrow> user_delay \<Rightarrow> nat" where
  "sampled_delay n d = max (avg_delay (add_delay (max n 10) d)) 10"

lemma user_delay_sample_bad_network:
  assumes "user_delay_sample h lo normal cur n d = Some d'" "1 \<le> h" "cur \<le> 120"
    "150 \<le> sampled_delay n d"
  shows "\<exists>f. delay_fps d' = Some f \<and> f \<le> max 1 (max lo cur) \<and> (200 \<le> sampled_delay n d \<longrightarrow> f \<le> max 1 lo)"
proof -
  have le: "clamp MIN_FPS h f \<le> max 1 f" for f using assms(2) by (simp add: clamp_def qos_consts)
  have same: "fst (stable_increase (sampled_delay n d) f c) = f" for f c
    using assms(4) by (simp add: stable_increase_def qos_consts)
  have "delay_fps d' = Some (clamp MIN_FPS h (fst (adaptive_fps lo normal (avg_delay d)
          (sampled_delay n d) cur (quick_increase_fps_count (add_delay (max n 10) d)))))"
    using assms(1,2) user_delay_sample_eq [of h lo normal cur n d] same
    by (auto simp: Let_def sampled_delay_def qos_consts)
  then show ?thesis
    using adaptive_fps_bad_network [OF assms(4,3), of lo normal "avg_delay d"
        "quick_increase_fps_count (add_delay (max n 10) d)"]
      le [of "fst (adaptive_fps lo normal (avg_delay d) (sampled_delay n d) cur
        (quick_increase_fps_count (add_delay (max n 10) d)))"]
    by auto
qed

lemma modify_entry_map_of: "map_of (modify_entry k f m) k = map_option f (map_of m k)"
  by (induction m) (auto simp: modify_entry_def)

lemma user_network_delay_users:
  assumes ok: "qos_ok q" and u: "map_of (q_users q) i = Some u"
    and step: "user_network_delay linux now i n q = Some q'"
  shows "\<exists>h d. 1 \<le> h \<and> user_delay_sample h (fst (fps_limits (quality_ratio (latest_quality q))))
             (snd (fps_limits (quality_ratio (latest_quality q)))) (q_fps q) n (u_delay u) = Some d
           \<and> map_of (q_users q') i = Some (u\<lparr>u_delay := d\<rparr>)"
proof -
  obtain h where h: "highest_fps q = Some h" "MIN_FPS \<le> h"
    using highest_fps_Some [of q] ok by (auto simp: qos_ok_def)
  obtain lo normal where l: "fps_limits (quality_ratio (latest_quality q)) = (lo, normal)" by force
  obtain d where d: "user_delay_sample h lo normal (q_fps q) n (u_delay u) = Some d"
    "qos_ok (q\<lparr>q_users := modify_entry i (\<lambda>u. u\<lparr>u_delay := d\<rparr>) (q_users q)\<rparr>)" (is "qos_ok ?q")
    using network_delay_user [OF ok h(1) u] by blast
  obtain f where f: "adjust_fps now ?q = Some (?q\<lparr>q_fps := f\<rparr>)" "qos_ok (?q\<lparr>q_fps := f\<rparr>)"
    using adjust_fps_ok [OF d(2)] by blast
  have "q' = ?q\<lparr>q_fps := f\<rparr> \<or> adjust_ratio now False (?q\<lparr>q_fps := f\<rparr>) = Some q'"
    using step unfolding user_network_delay_def h(1) l Let_def
    by (simp add: u d(1) f(1) split: if_splits)
  then have "q_users q' = q_users ?q" using adjust_ratio_ok [OF f(2), of now False now] by auto
  with d(1) h(2) u show ?thesis by (auto simp: l modify_entry_map_of qos_consts)
qed

section \<open>Ratio under delay\<close>

lemma min_ratio_None: "min_ratio c x \<le> min_ratio c None"
  by (cases c; cases x) (auto simp: min_ratio_def Let_def intro: max.mono)

lemma f32_mul_shrinks:
  assumes "is_f32 r" "0 \<le> r" "k \<le> 1"
  shows "f32_mul r (f32_round k) \<le> r"
proof -
  have "f32_round k \<le> 1" using f32_round_mono [OF assms(3)] by simp
  then have "r * f32_round k \<le> r" using assms(2) by (simp add: mult_left_le)
  from f32_round_mono [OF this] assms(1) show ?thesis by (simp add: f32_mul_def is_f32_def)
qed

lemma scaled_ratio_bad_network: "ratio_ok r \<Longrightarrow> 150 \<le> m \<Longrightarrow> scaled_ratio dyn m r \<le> r"
  using br_min_positive
  by (auto simp: ratio_ok_def scaled_ratio_def qos_consts intro!: f32_mul_shrinks dest: less_le_trans less_imp_le
      intro: order_trans [OF less_imp_le [OF br_min_positive]])

section \<open>Properties\<close>

text \<open>
  C14. Whatever operations the controller receives after its creation, in any order and with any
  arguments, none of them panics, and in the end the frame rate is between \<open>MIN_FPS\<close> and \<open>MAX_FPS\<close>
  (so that \<open>fps()\<close> reads it as it is) and the ratio between \<open>BR_MIN_HIGH_RESOLUTION\<close> and \<open>BR_MAX\<close>.
\<close>

theorem qos_never_panics:
  "\<exists>q. run_ops (qos_apply linux) ops (default_qos t) = Some q
     \<and> MIN_FPS \<le> q_fps q \<and> q_fps q \<le> MAX_FPS \<and> fps q = q_fps q
     \<and> BR_MIN_HIGH_RESOLUTION \<le> q_ratio q \<and> q_ratio q \<le> BR_MAX"
proof -
  obtain q where "run_ops (qos_apply linux) ops (default_qos t) = Some q" "qos_ok q"
    using qos.run_total [OF default_qos_ok] by blast
  then show ?thesis by (auto simp: qos_ok_def ratio_ok_def fps_def)
qed

text \<open>
  After every network delay sample and every display report the frame rate is at most what each
  connected user asked for and can decode, at most the rate adapted to each user's delay, at most
  two while a user's answer is late, and at most \<open>INIT_FPS\<close> in the first second of a new user.
\<close>

theorem fps_respects_every_user:
  assumes "run_ops (qos_apply linux) ops (default_qos t) = Some q"
    and "qos_apply linux (NetworkDelay now i d) q = Some q' \<or> qos_apply linux (UpdateDisplay now n c) q = Some q'"
  shows "fps_respects now q'"
  using qos.run_preserved [OF default_qos_ok assms(1)] assms(2)
    user_network_delay_Some [of q linux now i d] update_display_data_Some [of q now n c]
  by auto

definition sample_ops :: "qos_op list" where
  "sample_ops = [Open 0 ''Y'' 1, NewDisplay ''d'', SetSupport ''d'' True]"

definition sample_qos :: video_qos where
  "sample_qos = the (run_ops (qos_apply True) sample_ops (default_qos 0))"

lemma sample_run: "run_ops (qos_apply True) sample_ops (default_qos 0) = Some sample_qos"
  by (simp add: sample_qos_def sample_ops_def)

theorem fps_respects_every_user_witness:
  "\<exists>q'. qos_apply True (NetworkDelay 1000 1 400) sample_qos = Some q' \<and> q_fps q' = 3 \<and> fps_respects 1000 q'"
proof -
  have "map_option q_fps (qos_apply True (NetworkDelay 1000 1 400) sample_qos) = Some 3"
    by code_simp
  then obtain q' where "qos_apply True (NetworkDelay 1000 1 400) sample_qos = Some q'" "q_fps q' = 3"
    by auto
  with fps_respects_every_user [OF sample_run, of 1000 1 400 q'] show ?thesis by blast
qed

text \<open>
  When a user's averaged delay is 150 ms or more after a sample, that user's rate does not rise
  above the current rate or the minimum rate of the quality, and from 200 ms on it is at most the
  minimum rate; the rate of the session is at most the user's.
\<close>

theorem bad_network_lowers_rate:
  assumes "run_ops (qos_apply linux) ops (default_qos t) = Some q"
    and "map_of (q_users q) i = Some u" "150 \<le> sampled_delay n (u_delay u)"
    and "user_network_delay linux now i n q = Some q'"
  shows "\<exists>u' f. map_of (q_users q') i = Some u' \<and> delay_fps (u_delay u') = Some f \<and> q_fps q' \<le> f
     \<and> f \<le> max (fst (fps_limits (quality_ratio (latest_quality q)))) (q_fps q)
     \<and> (200 \<le> sampled_delay n (u_delay u) \<longrightarrow> f \<le> fst (fps_limits (quality_ratio (latest_quality q))))"
proof -
  have ok: "qos_ok q" using qos.run_preserved [OF default_qos_ok assms(1)] .
  let ?lo = "fst (fps_limits (quality_ratio (latest_quality q)))"
  have lo: "1 \<le> ?lo" by (simp add: fps_limits_def)
  obtain h d where d: "1 \<le> h"
    "user_delay_sample h ?lo (snd (fps_limits (quality_ratio (latest_quality q)))) (q_fps q) n (u_delay u) = Some d"
    "map_of (q_users q') i = Some (u\<lparr>u_delay := d\<rparr>)"
    using user_network_delay_users [OF ok assms(2,4)] by blast
  have "q_fps q \<le> 120" using ok by (simp add: qos_ok_def qos_consts)
  from user_delay_sample_bad_network [OF d(2,1) this assms(3)] obtain f where
    f: "delay_fps d = Some f" "f \<le> max 1 (max ?lo (q_fps q))" "200 \<le> sampled_delay n (u_delay u) \<longrightarrow> f \<le> max 1 ?lo"
    by blast
  have "fps_respects now q'" using user_network_delay_Some [OF ok, of linux now i n] assms(4) by auto
  then have "q_fps q' \<le> user_rate (u\<lparr>u_delay := d\<rparr>)"
    using map_of_SomeD [OF d(3)] by (auto simp: fps_respects_def list_all_iff)
  with d(3) f lo show ?thesis by (auto simp: user_rate_def)
qed

theorem bad_network_lowers_rate_witness:
  "\<exists>q' u' f. user_network_delay True 1000 1 400 sample_qos = Some q'
     \<and> map_of (q_users q') 1 = Some u' \<and> delay_fps (u_delay u') = Some f \<and> q_fps q' \<le> f \<and> f \<le> 10"
proof -
  have u: "map_of (q_users sample_qos) 1 = Some default_user"
    by (simp add: sample_qos_def sample_ops_def on_connection_open_def new_display_def
          set_support_changing_quality_def default_qos_def)
  have "sampled_delay 400 (u_delay default_user) = 400" by code_simp
  moreover have "fst (fps_limits (quality_ratio (latest_quality sample_qos))) = 10" by code_simp
  moreover have "map_option q_fps (user_network_delay True 1000 1 400 sample_qos) = Some 3"
    by code_simp
  ultimately show ?thesis
    using bad_network_lowers_rate [OF sample_run u, of 400 1000] by fastforce
qed

text \<open>
  An adjustment of the ratio never exceeds the ratio of the latest quality asked for, and when
  the largest delay of the users is 150 ms or more it does not raise the ratio above the floor of
  that quality.
\<close>

theorem bad_network_never_raises_ratio:
  assumes "run_ops (qos_apply linux) ops (default_qos t) = Some q"
    and "in_vbr_state q" "(i, u) \<in> set (q_users q)" "150 \<le> avg_delay (u_delay u)"
    and "adjust_ratio now dyn q = Some q'"
  shows "q_ratio q' \<le> quality_ratio (latest_quality q)
     \<and> q_ratio q' \<le> max (q_ratio q) (min_ratio (latest_quality q) None)"
proof -
  have ok: "qos_ok q" using qos.run_preserved [OF default_qos_ok assms(1)] .
  from assms(3) have "q_users q \<noteq> []" by auto
  from adjust_ratio_step [OF ok assms(2) this, of now dyn] obtain m r v where
    r: "adjust_ratio now dyn q = Some (q\<lparr>q_ratio := r, q_adjust_ratio_instant := now\<rparr>)" and
    m: "max_opt (map (\<lambda>(_, u). avg_delay (u_delay u)) (q_users q)) = Some m"
      "r \<le> quality_ratio (latest_quality q)"
      "r \<le> v \<or> (\<exists>x. r = min_ratio (latest_quality q) x)" "v \<le> scaled_ratio dyn m (q_ratio q)"
    by blast
  from r assms(5) have "q_ratio q' = r" by auto
  have "150 \<le> m" using max_opt_Some_iff [OF m(1)] assms(3,4) by force
  with ok have "scaled_ratio dyn m (q_ratio q) \<le> q_ratio q"
    by (intro scaled_ratio_bad_network) (auto simp: qos_ok_def)
  with m min_ratio_None \<open>q_ratio q' = r\<close> show ?thesis by (auto simp: le_max_iff_disj)
qed

theorem bad_network_never_raises_ratio_witness:
  "\<exists>q'. adjust_ratio 4000 True sample_qos = Some q' \<and> q_ratio q' \<le> 1"
proof -
  have u: "(1, default_user) \<in> set (q_users sample_qos)"
    by (simp add: sample_qos_def sample_ops_def on_connection_open_def new_display_def
          set_support_changing_quality_def default_qos_def)
  have "in_vbr_state sample_qos" "150 \<le> avg_delay (u_delay default_user)" by code_simp+
  moreover have "quality_ratio (latest_quality sample_qos) = 1" by code_simp
  moreover obtain q' where "adjust_ratio 4000 True sample_qos = Some q'"
    using adjust_ratio_ok [OF qos.run_preserved [OF default_qos_ok sample_run]] by blast
  ultimately show ?thesis
    using bad_network_never_raises_ratio [OF sample_run _ u, of 4000 True q'] by auto
qed

text \<open>
  The comment at the head of the source says that from 150 ms on the rate is always lower than the
  minimum rate; between 150 and 200 ms the code keeps it at least at the minimum.
\<close>

lemma fps_above_minimum_at_160ms: "adaptive_fps 10 20 150 160 100 0 = (94, 0)"
  by code_simp

end
