(* ===== verification/ConnRegistry.thy ===== *)
theory ConnRegistry
  imports SessionScope VideoQos
begin

unbundle bit_operations_syntax

text \<open>
  The process-wide tables of \<open>src/server/connection.rs\<close>: live and authorized connections, the
  sessions that let a client come back without its password, control permissions granted by the
  rendezvous server, switch-sides tokens and the wake lock thread. Guards that a Rust destructor
  runs (\<open>Drop\<close> of the \<open>raii\<close> types) are operations of their own. Receive times are shared cells
  (\<open>Arc<Mutex<Instant>>\<close>), held in a store and named by their address. Each operation is given here as
  it runs without interruption; \<^verbatim>\<open>ConnThreads\<close> takes the two that lock several tables apart. The
  theorems are about sessions, permissions and tokens.
\<close>

section \<open>Data\<close>

record session_key =
  peer_id :: string
  key_name :: string
  session_id :: nat

record session =
  last_recv_time :: nat
  random_password :: string
  tfa :: bool

record authed_conn =
  conn_id :: int
  conn_type :: auth_conn_type
  conn_key :: session_key
  printer :: bool

text \<open>Effects on other parts of the program, in order.\<close>

datatype reg_effect =
    WakeLockCounts nat nat
  | EncoderRemove int
  | ClearRelativeMouse int
  | LastRemoteGone
  | UnregisterWhiteboard int

record registry =
  alive_conns :: "int list"
  authed_conns :: "authed_conn list"
  sessions :: "session_key \<rightharpoonup> session"
  control_permissions_array :: "(int \<times> 64 word) list"
  cells :: "nat list"
  qos :: video_qos
  effects :: "reg_effect list"

definition empty_registry :: "nat \<Rightarrow> registry" where
  "empty_registry now = \<lparr>alive_conns = [], authed_conns = [], sessions = Map.empty,
     control_permissions_array = [], cells = [], qos = default_qos now, effects = []\<rparr>"

definition SESSION_TIMEOUT :: nat where "SESSION_TIMEOUT = 30000"

definition emit :: "reg_effect list \<Rightarrow> registry \<Rightarrow> registry" where
  "emit es r = r\<lparr>effects := effects r @ es\<rparr>"

section \<open>Connections\<close>

definition connection_id_new :: "int \<Rightarrow> registry \<Rightarrow> registry" where
  "connection_id_new i r = r\<lparr>alive_conns := alive_conns r @ [i]\<rparr>"

definition connection_id_drop :: "int \<Rightarrow> registry \<Rightarrow> registry" where
  "connection_id_drop i r = r\<lparr>alive_conns := filter (\<lambda>c. c \<noteq> i) (alive_conns r)\<rparr>"

definition remote_count :: "registry \<Rightarrow> nat" where
  "remote_count r = length (filter (\<lambda>c. conn_type c = Remote) (authed_conns r))"

definition check_wake_lock :: "registry \<Rightarrow> registry" where
  "check_wake_lock r = emit [WakeLockCounts (length (authed_conns r)) (remote_count r)] r"

definition uses_video :: "auth_conn_type \<Rightarrow> bool" where
  "uses_video t \<longleftrightarrow> t = Remote \<or> t = ViewCamera"

text \<open>
  \<open>can_print\<close> is \<open>is_support_remote_print\<close> of the client's version together with the test that
  its platform is Windows; \<open>enable_abr\<close> is the option the quality controller reads.
\<close>

definition authed_conn_id_new ::
  "nat \<Rightarrow> string \<Rightarrow> int \<Rightarrow> auth_conn_type \<Rightarrow> session_key \<Rightarrow> bool \<Rightarrow> registry \<Rightarrow> registry" where
  "authed_conn_id_new now enable_abr i t key can_print r =
     (let c = \<lparr>conn_id = i, conn_type = t, conn_key = key, printer = (t = Remote \<and> can_print)\<rparr>;
          r = check_wake_lock (r\<lparr>authed_conns := authed_conns r @ [c]\<rparr>)
      in if uses_video t then r\<lparr>qos := on_connection_open now enable_abr i (qos r)\<rparr> else r)"

definition authed_conn_id_drop :: "nat \<Rightarrow> int \<Rightarrow> auth_conn_type \<Rightarrow> registry \<Rightarrow> registry" where
  "authed_conn_id_drop now i t r =
     (let r = (if uses_video t
               then (emit [EncoderRemove i] r)\<lparr>qos := on_connection_close now i (qos r)\<rparr> else r);
          r = emit [ClearRelativeMouse i] r;
          r = r\<lparr>authed_conns := filter (\<lambda>c. conn_id c \<noteq> i) (authed_conns r)\<rparr>;
          r = (if remote_count r = 0 then emit [LastRemoteGone] r else r);
          r = check_wake_lock r
      in emit [UnregisterWhiteboard i] r)"

definition non_port_forward_conn_count :: "registry \<Rightarrow> nat" where
  "non_port_forward_conn_count r = length (filter (\<lambda>c. conn_type c \<noteq> PortForward) (authed_conns r))"

text \<open>\<open>on_printer_data\<close>: the connection the data goes to.\<close>

definition printer_target :: "registry \<Rightarrow> int option" where
  "printer_target r = map_option conn_id (find printer (authed_conns r))"

section \<open>Sessions\<close>

definition new_session :: "nat \<Rightarrow> session_key \<Rightarrow> string \<Rightarrow> bool \<Rightarrow> registry \<Rightarrow> registry" where
  "new_session now key p b r =
     r\<lparr>cells := cells r @ [now],
       sessions := (sessions r)(key \<mapsto> \<lparr>last_recv_time = length (cells r), random_password = p, tfa = b\<rparr>)\<rparr>"

definition check_remove_session :: "int \<Rightarrow> session_key \<Rightarrow> registry \<Rightarrow> registry" where
  "check_remove_session i key r =
     (if sessions r key \<noteq> None
      then let is_remote = list_ex (\<lambda>c. conn_id c = i \<and> conn_type c = Remote) (authed_conns r);
               another_remote = list_ex (\<lambda>c. conn_id c \<noteq> i \<and> conn_key c = key \<and> conn_type c = Remote)
                                  (authed_conns r)
           in if is_remote \<or> \<not> another_remote
              then r\<lparr>sessions := map_remove (sessions r) key\<rparr> else r
      else r)"

definition update_or_insert_session ::
  "nat \<Rightarrow> session_key \<Rightarrow> string option \<Rightarrow> bool option \<Rightarrow> registry \<Rightarrow> registry" where
  "update_or_insert_session now key password tfa_opt r =
     (case sessions r key of
        Some s \<Rightarrow>
          (let s = (case password of Some p \<Rightarrow> s\<lparr>random_password := p\<rparr> | None \<Rightarrow> s);
               s = (case tfa_opt of Some b \<Rightarrow> s\<lparr>tfa := b\<rparr> | None \<Rightarrow> s)
           in r\<lparr>sessions := (sessions r)(key \<mapsto> s)\<rparr>)
      | None \<Rightarrow> new_session now key (unwrap_or password []) (unwrap_or tfa_opt False) r)"

definition set_session_2fa :: "nat \<Rightarrow> session_key \<Rightarrow> registry \<Rightarrow> registry" where
  "set_session_2fa now key r =
     (case sessions r key of
        Some s \<Rightarrow> r\<lparr>sessions := (sessions r)(key \<mapsto> s\<lparr>tfa := True\<rparr>)\<rparr>
      | None \<Rightarrow> new_session now key [] True r)"

text \<open>A message received on a connection that shares a session's cell, found at login.\<close>

definition session_cell :: "session_key \<Rightarrow> registry \<Rightarrow> nat option" where
  "session_cell key r = map_option last_recv_time (sessions r key)"

definition touch_cell :: "nat \<Rightarrow> nat \<Rightarrow> registry \<Rightarrow> registry" where
  "touch_cell now a r = r\<lparr>cells := (cells r)[a := now]\<rparr>"

definition retain_recent :: "nat \<Rightarrow> registry \<Rightarrow> registry" where
  "retain_recent now r =
     r\<lparr>sessions := map_retain (\<lambda>_ s. now - cells r ! last_recv_time s < SESSION_TIMEOUT) (sessions r)\<rparr>"

text \<open>
  \<open>is_recent_session\<close>: \<open>password_given\<close> says that the login request carries a password hash,
  \<open>validate\<close> is \<open>validate_password_plain\<close> of the connection.
\<close>

definition is_recent_session ::
  "nat \<Rightarrow> bool \<Rightarrow> (string \<Rightarrow> bool) \<Rightarrow> session_key \<Rightarrow> bool \<Rightarrow> registry \<Rightarrow> registry \<times> bool" where
  "is_recent_session now password_given validate key two_factor r =
     (let r = retain_recent now r
      in (r, case sessions r key of
               Some s \<Rightarrow> password_given \<and> (two_factor \<and> tfa s \<or> \<not> two_factor \<and> validate (random_password s))
             | None \<Rightarrow> False))"

section \<open>Switch-sides tokens\<close>

type_synonym 'u token_table = "string \<rightharpoonup> nat \<times> 'u"

definition SWITCH_SIDES_TIMEOUT :: nat where "SWITCH_SIDES_TIMEOUT = 10000"

definition retain_tokens :: "nat \<Rightarrow> 'u token_table \<Rightarrow> 'u token_table" where
  "retain_tokens now m = map_retain (\<lambda>_ (t, _). now - t < SWITCH_SIDES_TIMEOUT) m"

definition insert_switch_sides_uuid :: "nat \<Rightarrow> string \<Rightarrow> 'u \<Rightarrow> 'u token_table \<Rightarrow> 'u token_table" where
  "insert_switch_sides_uuid now i u m = m(i \<mapsto> (now, u))"

definition insert_pending_switch_sides_uuid :: "nat \<Rightarrow> string \<Rightarrow> 'u \<Rightarrow> 'u token_table \<Rightarrow> 'u token_table" where
  "insert_pending_switch_sides_uuid now i u m = (retain_tokens now m)(i \<mapsto> (now, u))"

definition remove_pending_switch_sides_uuid ::
  "nat \<Rightarrow> string \<Rightarrow> 'u \<Rightarrow> 'u token_table \<Rightarrow> 'u token_table \<times> bool" where
  "remove_pending_switch_sides_uuid now i u m =
     (let m = retain_tokens now m
      in if map_option (\<lambda>(_, stored). stored = u) (m i) = Some True
         then (map_remove m i, True) else (m, False))"

section \<open>Control permissions\<close>

definition control_permissions_id_new :: "int \<Rightarrow> 64 word option \<Rightarrow> registry \<Rightarrow> registry" where
  "control_permissions_id_new i cp r =
     (case cp of
        Some p \<Rightarrow> r\<lparr>control_permissions_array := control_permissions_array r @ [(i, p)]\<rparr>
      | None \<Rightarrow> r)"

definition control_permissions_id_drop :: "int \<Rightarrow> 64 word option \<Rightarrow> registry \<Rightarrow> registry" where
  "control_permissions_id_drop i cp r =
     (if cp \<noteq> None
      then r\<lparr>control_permissions_array := filter (\<lambda>(j, _). j \<noteq> i) (control_permissions_array r)\<rparr>
      else r)"

text \<open>\<open>index\<close> is the number of the permission in the protocol's enumeration.\<close>

definition get_control_permission :: "64 word \<Rightarrow> int \<Rightarrow> bool option" where
  "get_control_permission permissions index =
     (if 0 \<le> index \<and> index < 32
      then let value = drop_bit (nat (index * 2)) permissions AND 3
           in if value = 1 then Some False else if value = 2 then Some True else None
      else None)"

definition get_control_permission_state :: "int \<Rightarrow> bool \<Rightarrow> registry \<Rightarrow> bool option" where
  "get_control_permission_state index disable_if_has_disabled r =
     (let vs = map (\<lambda>(_, p). get_control_permission p index) (control_permissions_array r);
          has_enable = list_ex (\<lambda>v. v = Some True) vs;
          has_disable = list_ex (\<lambda>v. v = Some False) vs
      in if disable_if_has_disabled
         then if has_disable then Some False else if has_enable then Some True else None
         else if has_enable then Some True else if has_disable then Some False else None)"

datatype option_key =
    OPTION_ENABLE_KEYBOARD | OPTION_ENABLE_REMOTE_PRINTER | OPTION_ENABLE_CLIPBOARD
  | OPTION_ENABLE_FILE_TRANSFER | OPTION_ENABLE_AUDIO | OPTION_ENABLE_CAMERA
  | OPTION_ENABLE_TERMINAL | OPTION_ENABLE_TUNNEL | OPTION_ENABLE_REMOTE_RESTART
  | OPTION_ENABLE_RECORD_SESSION | OPTION_ENABLE_BLOCK_INPUT | OPTION_ENABLE_PRIVACY_MODE
  | OtherOption string

datatype control_permission =
    P_keyboard | P_remote_printer | P_clipboard | P_file | P_audio | P_camera | P_terminal
  | P_tunnel | P_restart | P_recording | P_block_input | P_privacy_mode

text \<open>
  What the permission check reads of the protocol library: the value of the option \<open>access-mode\<close>,
  the boolean reading of an enable option (\<open>option2bool\<close> of its value), and the numbers of the
  permissions. \<open>desktop_flutter\<close> is the pair of compile-time conditions around the access mode.
\<close>

record permission_env =
  access_mode :: string
  option_enabled :: "option_key \<Rightarrow> bool"
  permission_value :: "control_permission \<Rightarrow> int"
  desktop_flutter :: bool

definition is_permission_enabled_locally :: "permission_env \<Rightarrow> option_key \<Rightarrow> bool" where
  "is_permission_enabled_locally env k =
     (if desktop_flutter env \<and> access_mode env = ''full'' then True
      else if desktop_flutter env \<and> access_mode env = ''view'' then False
      else option_enabled env k)"

definition permission_of_option :: "option_key \<Rightarrow> control_permission option" where
  "permission_of_option k =
     (case k of
        OPTION_ENABLE_KEYBOARD \<Rightarrow> Some P_keyboard
      | OPTION_ENABLE_REMOTE_PRINTER \<Rightarrow> Some P_remote_printer
      | OPTION_ENABLE_CLIPBOARD \<Rightarrow> Some P_clipboard
      | OPTION_ENABLE_FILE_TRANSFER \<Rightarrow> Some P_file
      | OPTION_ENABLE_AUDIO \<Rightarrow> Some P_audio
      | OPTION_ENABLE_CAMERA \<Rightarrow> Some P_camera
      | OPTION_ENABLE_TERMINAL \<Rightarrow> Some P_terminal
      | OPTION_ENABLE_TUNNEL \<Rightarrow> Some P_tunnel
      | OPTION_ENABLE_REMOTE_RESTART \<Rightarrow> Some P_restart
      | OPTION_ENABLE_RECORD_SESSION \<Rightarrow> Some P_recording
      | OPTION_ENABLE_BLOCK_INPUT \<Rightarrow> Some P_block_input
      | OPTION_ENABLE_PRIVACY_MODE \<Rightarrow> Some P_privacy_mode
      | OtherOption _ \<Rightarrow> None)"

definition permission :: "permission_env \<Rightarrow> option_key \<Rightarrow> 64 word option \<Rightarrow> bool" where
  "permission env k control_permissions =
     (let from_server =
        (case control_permissions of
           Some cp \<Rightarrow>
             (case permission_of_option k of
                Some p \<Rightarrow> get_control_permission cp (permission_value env p)
              | None \<Rightarrow> None)
         | None \<Rightarrow> None)
      in case from_server of
           Some enabled \<Rightarrow> enabled
         | None \<Rightarrow> is_permission_enabled_locally env k)"

section \<open>The wake lock thread\<close>

text \<open>
  The lock held, with its display flag, the display flag of the last message and the cached option.
  \<open>set_ok\<close> says whether \<open>set_display\<close> succeeds.
\<close>

record wakelock_state =
  wakelock :: "bool option"
  last_display :: bool
  cached_keep_awake :: "bool option"

definition wakelock_recv ::
  "bool \<Rightarrow> bool \<Rightarrow> bool \<Rightarrow> nat \<times> nat \<Rightarrow> wakelock_state \<Rightarrow> wakelock_state" where
  "wakelock_recv linux keep_awake set_ok counts w =
     (let (conn_count, remote) = counts;
          w = w\<lparr>cached_keep_awake := Some keep_awake\<rparr>
      in if conn_count = 0 \<or> \<not> keep_awake then w\<lparr>wakelock := None\<rparr>
         else let display = remote > 0
              in case wakelock w of
                   Some d \<Rightarrow>
                     w\<lparr>wakelock := Some (if display \<noteq> last_display w \<and> \<not> linux \<and> set_ok then display else d),
                       last_display := display\<rparr>
                 | None \<Rightarrow>
                     (let display = (if linux then True else display)
                      in w\<lparr>wakelock := Some display, last_display := display\<rparr>))"

text \<open>\<open>check_wake_lock_on_setting_changed\<close> with the option's current value.\<close>

definition check_wake_lock_on_setting_changed ::
  "bool \<Rightarrow> bool option \<Rightarrow> registry \<Rightarrow> registry" where
  "check_wake_lock_on_setting_changed current cached r =
     (if cached \<noteq> Some current then check_wake_lock r else r)"

section \<open>Properties\<close>

definition sample_key :: session_key where
  "sample_key = \<lparr>peer_id = ''p'', key_name = ''n'', session_id = 7\<rparr>"

subsection \<open>Sessions\<close>

definition recent :: "nat \<Rightarrow> (string \<Rightarrow> bool) \<Rightarrow> session_key \<Rightarrow> bool \<Rightarrow> registry \<Rightarrow> bool" where
  "recent now validate key two_factor r \<longleftrightarrow> snd (is_recent_session now True validate key two_factor r)"

lemma recent_iff:
  "recent now v key tf r \<longleftrightarrow>
     (\<exists>s. sessions r key = Some s \<and> now - cells r ! last_recv_time s < SESSION_TIMEOUT
        \<and> (if tf then tfa s else v (random_password s)))"
  by (auto simp: recent_def is_recent_session_def retain_recent_def Let_def map_retain_None_iff
      split: option.splits)

text \<open>
  The life of a session. A login with the temporary password opens it: from then on it is recent
  for that password, and not for the second factor, until thirty seconds after the last message
  received on a connection that shares its cell; passing the second factor makes it recent for that
  too. It ends when a connection of that key closes for good, unless another remote control
  connection has the key and the closing one is no remote control connection.
\<close>

theorem session_life:
  assumes "sessions r key = None" "r1 = update_or_insert_session t0 key (Some p) (Some False) r"
    and "session_cell key r1 = Some a"
  shows "(recent now v key False r1 \<longleftrightarrow> now - t0 < SESSION_TIMEOUT \<and> v p)
     \<and> \<not> recent now v key True r1
     \<and> (recent now v key False (touch_cell t1 a r1) \<longleftrightarrow> now - t1 < SESSION_TIMEOUT \<and> v p)
     \<and> (recent now v key True (set_session_2fa t1 key r1) \<longleftrightarrow> now - t0 < SESSION_TIMEOUT)
     \<and> (recent now v key False (check_remove_session i key r1) \<longleftrightarrow>
          recent now v key False r1
          \<and> (\<exists>c \<in> set (authed_conns r). conn_id c \<noteq> i \<and> conn_key c = key \<and> conn_type c = Remote)
          \<and> \<not> (\<exists>c \<in> set (authed_conns r). conn_id c = i \<and> conn_type c = Remote))"
  using assms
  by (auto simp: recent_iff update_or_insert_session_def new_session_def session_cell_def
      touch_cell_def set_session_2fa_def check_remove_session_def list_ex_iff Let_def split: if_splits)

theorem session_life_witness:
  "recent 20000 (\<lambda>q. q = ''secret'') sample_key False
     (update_or_insert_session 1 sample_key (Some ''secret'') (Some False) (empty_registry 0))
   \<and> \<not> recent 30001 (\<lambda>q. q = ''secret'') sample_key False
     (update_or_insert_session 1 sample_key (Some ''secret'') (Some False) (empty_registry 0))"
  using session_life [of "empty_registry 0" sample_key _ 1 "''secret''" 0 20000 "\<lambda>q. q = ''secret''"]
    session_life [of "empty_registry 0" sample_key _ 1 "''secret''" 0 30001 "\<lambda>q. q = ''secret''"]
  by (simp add: empty_registry_def SESSION_TIMEOUT_def session_cell_def update_or_insert_session_def
        new_session_def)

subsection \<open>Permissions\<close>

lemma word_and_3: "(w :: 64 word) AND 3 = of_bool (bit w 0) + 2 * of_bool (bit w 1)"
proof -
  have "w AND 3 = take_bit 2 w" by (simp add: take_bit_eq_mask mask_eq_exp_minus_1)
  then show ?thesis by (simp add: numeral_2_eq_2 take_bit_Suc bit_0 bit_Suc mod_2_eq_odd)
qed

text \<open>
  The permission granted by the rendezvous server is the pair of bits of its index: the upper
  bit alone enables, the lower alone disables, both or none leave it unset.
\<close>

theorem control_permission_bits:
  assumes "0 \<le> i" "i < 32"
  shows "get_control_permission p i =
     (if bit p (nat (2 * i + 1)) = bit p (nat (2 * i)) then None else Some (bit p (nat (2 * i + 1))))"
proof -
  have idx: "nat (2 * i + 1) = Suc (nat (i * 2))" "nat (2 * i) = nat (i * 2)" using assms(1) by auto
  have b: "bit (drop_bit n p) 0 = bit p n" "bit (drop_bit n p) (Suc 0) = bit p (Suc n)" for n
    by (simp_all add: bit_drop_bit_eq)
  show ?thesis using assms
    by (auto simp: get_control_permission_def word_and_3 b idx)
qed

theorem control_permission_bits_witness:
  "get_control_permission 9 0 = Some False \<and> get_control_permission 9 1 = Some True"
  using control_permission_bits [of 0 9] control_permission_bits [of 1 9] by (simp add: bit_numeral_rec)

text \<open>
  With several connections, a permission disabled by one of them and enabled by another is off
  or on as the flag asks: the flag chooses which of the two settings wins, and a permission that no
  connection sets is undetermined.
\<close>

theorem control_permission_state_spec:
  "get_control_permission_state i prefer_disable r =
     (let vs = (\<lambda>(_, p). get_control_permission p i) ` set (control_permissions_array r)
      in if Some (\<not> prefer_disable) \<in> vs then Some (\<not> prefer_disable)
         else if Some prefer_disable \<in> vs then Some prefer_disable else None)"
  by (cases prefer_disable)
     (auto simp: get_control_permission_state_def Let_def list_ex_iff image_iff eq_commute)

text \<open>
  The comment of the function says that one disabled setting suffices for \<open>Some(false)\<close>; with the
  flag off an enabled setting wins over it.
\<close>

lemma enable_wins_without_flag:
  "get_control_permission_state 0 False
     (empty_registry 0\<lparr>control_permissions_array := [(1, 1), (2, 2)]\<rparr>) = Some True"
  by (simp add: get_control_permission_state_def get_control_permission_def)

text \<open>
  A switch-sides token pending for a peer is accepted within ten seconds, for the very value
  that was inserted last, and only once.
\<close>

theorem switch_token_single_use:
  "snd (remove_pending_switch_sides_uuid t1 i u (insert_pending_switch_sides_uuid t0 i w m))
     = (u = w \<and> t1 - t0 < SWITCH_SIDES_TIMEOUT)
   \<and> (snd (remove_pending_switch_sides_uuid t1 i u m') \<longrightarrow>
       \<not> snd (remove_pending_switch_sides_uuid t2 i u' (fst (remove_pending_switch_sides_uuid t1 i u m'))))"
  by (auto simp: remove_pending_switch_sides_uuid_def insert_pending_switch_sides_uuid_def
      retain_tokens_def map_retain_def Let_def split: option.splits prod.splits if_splits)

theorem switch_token_single_use_witness:
  "snd (remove_pending_switch_sides_uuid 5 ''a'' (1::nat) (insert_pending_switch_sides_uuid 0 ''a'' 1 Map.empty))"
  using switch_token_single_use [of 5 "''a''" "1::nat" 0 1 Map.empty] by (simp add: SWITCH_SIDES_TIMEOUT_def)

text \<open>
  A permission set by the rendezvous server decides; otherwise the access mode \<open>full\<close> grants and
  \<open>view\<close> refuses every option, and the local option decides in the other modes.
\<close>

lemma permission_precedence:
  "permission env k cp =
     (case (if cp = None \<or> permission_of_option k = None then None
            else get_control_permission (the cp) (permission_value env (the (permission_of_option k)))) of
        Some b \<Rightarrow> b
      | None \<Rightarrow> if desktop_flutter env \<and> access_mode env \<in> {''full'', ''view''}
                then access_mode env = ''full'' else option_enabled env k)"
  by (auto simp: permission_def is_permission_enabled_locally_def Let_def split: option.splits)

end
