(* ===== verification/Login.thy ===== *)
theory Login
  imports LoginFailures ConnRegistry
begin

text \<open>
  How a connection becomes authorized: the login part of \<open>Connection::on_message\<close> in
  \<open>src/server/connection.rs\<close> with everything it calls, from the password check over the second
  factor, trusted devices, terminal accounts and port forwarding to the tables of the registry. One
  message is one step on the pair of the connection and the world it shares with others. What the
  code reads of the protocol library, the configuration and the operating system is the record
  \<open>login_env\<close>. Sleeps and log lines are left out. The theorems say which messages authorize a
  connection and as what.
\<close>

section \<open>Data\<close>

datatype conn_audit_primary_auth = PA_None | PA_Click | PA_TemporaryPassword | PA_PermanentPassword | PA_SwitchSides
datatype conn_audit_two_factor = TF_None | TF_Totp | TF_TrustedDevice
datatype terminal_user_token = SelfUser | CurrentLogonUser nat
datatype approve_mode = ApproveBoth | ApprovePassword | ApproveClick

datatype login_union =
    LU_FileTransfer string bool
  | LU_PortForward string int
  | LU_ViewCamera
  | LU_Terminal string

record login_request =
  username :: string
  lr_password :: bytes
  my_id :: string
  my_name :: string
  my_platform :: string
  lr_option :: "unit option_message option"
  lr_union :: "login_union option"
  lr_session_id :: nat
  version :: string
  os_login :: "(string \<times> string) option"
  hwid :: bytes
  lr_video_ack_required :: bool

definition default_login_request :: login_request where
  "default_login_request = \<lparr>username = [], lr_password = [], my_id = [], my_name = [], my_platform = [],
     lr_option = None, lr_union = None, lr_session_id = 0, version = [], os_login = None, hwid = [],
     lr_video_ack_required = False\<rparr>"

definition os_username :: "login_request \<Rightarrow> string" where
  "os_username l = fst (unwrap_or (os_login l) ([], []))"

definition os_password :: "login_request \<Rightarrow> string" where
  "os_password l = snd (unwrap_or (os_login l) ([], []))"

record trusted_device =
  d_hwid :: bytes
  d_time :: nat
  d_id :: string
  d_name :: string
  d_platform :: string

record connection =
  c_id :: int
  c_ip :: string
  salt :: bytes
  challenge :: bytes
  lr :: login_request
  authorized :: bool
  require_2fa :: "string option"
  file_transfer :: "(string \<times> bool) option"
  view_camera :: bool
  terminal :: bool
  port_forward_address :: string
  port_forward_socket :: bool
  c_terminal_persistent :: bool
  terminal_service_id :: string
  terminal_user_tok :: "terminal_user_token option"
  from_switch :: bool
  options_in_login :: "unit option_message option"
  video_ack_required :: bool
  primary_auth :: conn_audit_primary_auth
  two_factor :: conn_audit_two_factor
  authed_conn_id :: "auth_conn_type option"
  session_last_recv_time :: "nat option"
  control_permissions :: "64 word option"
  scope_violation_messages :: "string set"
  last_test_delay :: "nat option"
  network_delay :: nat
  start_cm_ipc_para :: bool
  closed :: bool
  c_lock_after_session_end :: bool
  keyboard :: bool
  chat_unanswered :: bool
  file_transferred :: bool

datatype login_effect =
    LoginErr string
  | GuardAlarm alarm_audit_type
  | CmLogin string string bool
  | StartCmIpc
  | TwoFactorNotice
  | ConnAudit conn_audit_primary_auth conn_audit_two_factor auth_conn_type
  | LoginOk
  | ScopeEffect scope_effect
  | ClosedBy string
  | LockScreen
  | CmData string
  | EchoTestDelay

record world =
  w_reg :: registry
  w_guard :: login_guard
  temporary_password :: string
  tp_password :: string
  tp_failures :: int
  w_tokens :: "bytes token_table"
  devices :: "trusted_device list"
  out :: "login_effect list"

record login_env =
  sha256 :: "bytes \<Rightarrow> bytes"
  temporary_enabled :: bool
  permanent_enabled :: bool
  new_temporary_password :: "string \<Rightarrow> string"
  local_storage_and_salt :: "string \<times> string"
  preset_storage_and_salt :: "string \<times> string"
  local_usable :: "string \<Rightarrow> string \<Rightarrow> bool"
  preset_usable :: "string \<Rightarrow> string \<Rightarrow> bool"
  decode_permanent_h1 :: "string \<Rightarrow> bytes option"
  decode_preset_h1 :: "string \<Rightarrow> bytes option"
  approve_mode_opt :: approve_mode
  has_valid_password :: bool
  allow_logon_screen_password :: bool
  config_id :: string
  direct_ip_access :: "string \<Rightarrow> bool"
  get_version_number :: "string \<Rightarrow> int"
  perm_env :: permission_env
  trusted_devices_enabled :: bool
  device_outdated :: "trusted_device \<Rightarrow> bool"
  add_trusted_device :: "trusted_device \<Rightarrow> trusted_device list \<Rightarrow> trusted_device list"
  totp_check :: "string \<Rightarrow> string \<Rightarrow> bool option"
  telegram_bot :: bool
  uuid_from_slice :: "bytes \<Rightarrow> bytes option"
  net :: ipv6_text
  in_privacy_mode :: bool
  tcp_connect :: "string \<Rightarrow> bool"
  service_specified_user :: "string \<Rightarrow> bool option"
  supports_print :: "string \<Rightarrow> string \<Rightarrow> bool"
  enable_abr :: string
  allow_scope_alarm :: bool
  allow_scope_close :: bool
  on_windows :: bool
  on_linux :: bool
  on_mobile :: bool
  flutter :: bool
  is_installed :: bool
  is_prelogin :: bool
  headless_allowed :: bool
  desktop_user :: string
  start_desktop :: "string \<Rightarrow> string \<Rightarrow> string"
  os_gate_free :: bool
  logon_user_admin :: "string \<Rightarrow> string \<Rightarrow> bool"
  current_session_id :: nat
  get_user_token :: "nat \<Rightarrow> nat"
  ensure_primary_token :: "nat \<Rightarrow> nat option"

text \<open>A connection and its world; \<open>say\<close> appends effects.\<close>

type_synonym st = "connection \<times> world"

definition say :: "login_effect list \<Rightarrow> world \<Rightarrow> world" where
  "say es w = w\<lparr>out := out w @ es\<rparr>"

lemma say_fields [simp]:
  "w_reg (say es w) = w_reg w" "w_guard (say es w) = w_guard w"
  "temporary_password (say es w) = temporary_password w" "w_tokens (say es w) = w_tokens w"
  "devices (say es w) = devices w"
  by (simp_all add: say_def)

definition str_bytes :: "string \<Rightarrow> bytes" where
  "str_bytes s = map of_char s"

definition c_session_key :: "connection \<Rightarrow> session_key" where
  "c_session_key c = \<lparr>peer_id = my_id (lr c), key_name = my_name (lr c), session_id = lr_session_id (lr c)\<rparr>"

section \<open>Passwords\<close>

definition constant_time_eq :: "bytes \<Rightarrow> bytes \<Rightarrow> bool" where
  "constant_time_eq a b =
     (if length a \<noteq> length b then False
      else fold (\<lambda>i x. x OR (a ! i XOR b ! i)) [0..<length a] 0 = 0)"

definition verify_h1 :: "login_env \<Rightarrow> connection \<Rightarrow> bytes \<Rightarrow> bool" where
  "verify_h1 env c h1 = constant_time_eq (sha256 env (h1 @ challenge c)) (lr_password (lr c))"

definition validate_password_plain :: "login_env \<Rightarrow> connection \<Rightarrow> string \<Rightarrow> bool" where
  "validate_password_plain env c password =
     (if password = [] then False else verify_h1 env c (sha256 env (str_bytes password @ salt c)))"

definition validate_password_storage :: "login_env \<Rightarrow> connection \<Rightarrow> string \<Rightarrow> bool" where
  "validate_password_storage env c storage =
     (case decode_permanent_h1 env storage of Some h1 \<Rightarrow> verify_h1 env c h1 | None \<Rightarrow> False)"

definition validate_preset_password_storage :: "login_env \<Rightarrow> connection \<Rightarrow> string \<Rightarrow> string \<Rightarrow> bool" where
  "validate_preset_password_storage env c storage psalt =
     (if psalt = [] then False
      else case decode_preset_h1 env storage of None \<Rightarrow> False | Some h1 \<Rightarrow> verify_h1 env c h1)"

definition MAX_CONSECUTIVE_FAILURES :: int where "MAX_CONSECUTIVE_FAILURES = 10"

definition check_update_temporary_password :: "login_env \<Rightarrow> bool \<Rightarrow> world \<Rightarrow> world" where
  "check_update_temporary_password env success w =
     (if \<not> temporary_enabled env then w
      else if temporary_password w = [] then w
      else
        let w = (if tp_password w \<noteq> temporary_password w
                 then w\<lparr>tp_password := temporary_password w, tp_failures := 0\<rparr> else w)
        in if success then w\<lparr>tp_failures := 0\<rparr>
           else
             let w = w\<lparr>tp_failures := tp_failures w + 1\<rparr>
             in if tp_failures w < MAX_CONSECUTIVE_FAILURES then w
                else let p = new_temporary_password env (temporary_password w)
                     in w\<lparr>temporary_password := p, tp_password := p, tp_failures := 0\<rparr>)"

definition validate_password :: "login_env \<Rightarrow> nat \<Rightarrow> bool \<Rightarrow> st \<Rightarrow> st \<times> bool" where
  "validate_password env now allow_permanent s =
     (case s of (c, w) \<Rightarrow>
        if temporary_enabled env \<and> validate_password_plain env c (temporary_password w)
        then
          let w' = w\<lparr>w_reg := update_or_insert_session now (c_session_key c)
                       (Some (temporary_password w)) (Some False) (w_reg w)\<rparr>
          in ((c\<lparr>primary_auth := PA_TemporaryPassword\<rparr>, check_update_temporary_password env True w'), True)
        else if permanent_enabled env \<or> allow_permanent
        then
          let (storage, lsalt) = local_storage_and_salt env;
              (hard, psalt) = preset_storage_and_salt env;
              ok = (if storage \<noteq> []
                    then local_usable env storage lsalt \<and> validate_password_storage env c storage
                    else preset_usable env hard psalt \<and> validate_preset_password_storage env c hard psalt)
          in if ok then ((c\<lparr>primary_auth := PA_PermanentPassword\<rparr>, w), True) else ((c, w), False)
        else ((c, w), False))"

definition c_is_recent_session :: "login_env \<Rightarrow> nat \<Rightarrow> bool \<Rightarrow> st \<Rightarrow> st \<times> bool" where
  "c_is_recent_session env now two s =
     (case s of (c, w) \<Rightarrow>
        case is_recent_session now (lr_password (lr c) \<noteq> []) (validate_password_plain env c)
               (c_session_key c) two (w_reg w) of
          (r, ok) \<Rightarrow>
            let c' = (if ok then if two then c\<lparr>two_factor := TF_Totp\<rparr>
                                 else c\<lparr>primary_auth := PA_TemporaryPassword\<rparr> else c)
            in ((c', w\<lparr>w_reg := r\<rparr>), ok))"

section \<open>Failure checks\<close>

definition guard_effects :: "guard_effect list \<Rightarrow> login_effect list" where
  "guard_effects es = map (\<lambda>e. case e of SendLoginError m \<Rightarrow> LoginErr m | PostAlarm a \<Rightarrow> GuardAlarm a) es"

definition c_check_failure ::
  "login_env \<Rightarrow> nat \<Rightarrow> nat \<Rightarrow> failure_scope \<Rightarrow> st \<Rightarrow> st \<times> (failure_entry \<times> int) \<times> bool" where
  "c_check_failure env now i scope s =
     (case s of (c, w) \<Rightarrow>
        case check_failure_with_scope (net env) (c_ip c) (int now) i scope (w_guard w) of
          (g, es, ft, ok) \<Rightarrow> ((c, say (guard_effects es) (w\<lparr>w_guard := g\<rparr>)), ft, ok))"

definition c_update_failure ::
  "login_env \<Rightarrow> nat \<Rightarrow> failure_entry \<times> int \<Rightarrow> bool \<Rightarrow> nat \<Rightarrow> failure_scope \<Rightarrow> st \<Rightarrow> st" where
  "c_update_failure env now ft remove i scope s =
     (case s of (c, w) \<Rightarrow>
        (c, w\<lparr>w_guard := update_failure_with_scope (net env) (c_ip c) (int now) ft remove i scope (w_guard w)\<rparr>))"

section \<open>Terminal accounts\<close>

definition should_use_terminal_os_login_scope :: "login_env \<Rightarrow> bool \<Rightarrow> string \<Rightarrow> bool" where
  "should_use_terminal_os_login_scope env is_terminal name \<longleftrightarrow>
     on_windows env \<and> is_terminal \<and> trim name \<noteq> []"

definition should_check_linux_headless_os_auth_before_desktop_start :: "login_env \<Rightarrow> string \<Rightarrow> bool" where
  "should_check_linux_headless_os_auth_before_desktop_start env name \<longleftrightarrow>
     headless_allowed env \<and> trim name \<noteq> [] \<and> desktop_user env = []"

definition should_record_linux_headless_os_auth_failure :: "login_env \<Rightarrow> string \<Rightarrow> string \<Rightarrow> bool" where
  "should_record_linux_headless_os_auth_failure env name err \<longleftrightarrow>
     headless_allowed env \<and> trim name \<noteq> [] \<and> err = ''Wrong Password''"

definition handle_administrator_check :: "login_env \<Rightarrow> string \<Rightarrow> string \<Rightarrow> connection \<Rightarrow> connection \<times> string option" where
  "handle_administrator_check env name pass c =
     (if logon_user_admin env name pass then (c\<lparr>terminal_user_tok := Some SelfUser\<rparr>, None)
      else (c, Some ''Incorrect username or password.''))"

definition handle_installed_user :: "login_env \<Rightarrow> connection \<Rightarrow> connection \<times> string option" where
  "handle_installed_user env c =
     (if current_session_id env = 0xFFFFFFFF then (c, Some ''Failed to get current session id.'')
      else
        let token = get_user_token env (current_session_id env)
        in if token \<noteq> 0
           then (c\<lparr>terminal_user_tok :=
                     Some (CurrentLogonUser (unwrap_or (ensure_primary_token env token) token))\<rparr>, None)
           else (c, Some ''Failed to get user token.''))"

definition fill_terminal_user_token :: "login_env \<Rightarrow> string \<Rightarrow> string \<Rightarrow> connection \<Rightarrow> connection \<times> string option" where
  "fill_terminal_user_token env name pass c =
     (if \<not> on_windows env then (c\<lparr>terminal_user_tok := Some SelfUser\<rparr>, None)
      else if name \<noteq> [] then handle_administrator_check env name pass c
      else if is_prelogin env
        then (c\<lparr>terminal_user_tok := None\<rparr>,
              Some ''No active console user logged on, please connect and logon first.'')
      else if is_installed env then handle_installed_user env c
      else (c\<lparr>terminal_user_tok := Some SelfUser\<rparr>, None))"

definition to_terminal_service_token :: "terminal_user_token \<Rightarrow> nat option" where
  "to_terminal_service_token t = (case t of SelfUser \<Rightarrow> None | CurrentLogonUser k \<Rightarrow> Some k)"

definition try_start_cm_ipc :: "st \<Rightarrow> st" where
  "try_start_cm_ipc s =
     (case s of (c, w) \<Rightarrow>
        if start_cm_ipc_para c then (c\<lparr>start_cm_ipc_para := False\<rparr>, say [StartCmIpc] w) else (c, w))"

text \<open>\<open>None\<close> lets the authorization go on, \<open>Some b\<close> ends it and keeps the connection when \<open>b\<close>.\<close>

definition prepare_terminal_login_for_authorization :: "login_env \<Rightarrow> nat \<Rightarrow> st \<Rightarrow> st \<times> bool option" where
  "prepare_terminal_login_for_authorization env now s =
     (case s of (c, w) \<Rightarrow>
        if on_mobile env then (s, None)
        else if \<not> terminal c \<or> terminal_user_tok c \<noteq> None then (s, None)
        else
          let name = trim (os_username (lr c));
              os = should_use_terminal_os_login_scope env (terminal c) name;
              (s, failure, allowed) =
                (if os then c_check_failure env now 0 TerminalOsLogin s else (s, ((0, 0, 0), 0), True))
          in if \<not> allowed then (s, Some False)
             else if on_windows env \<and> os \<and> \<not> os_gate_free env
             then ((fst s, say [LoginErr ''Please try 1 minute later'', GuardAlarm TerminalOsLoginConcurrency]
                            (snd s)), Some False)
             else
               let (c', err) = fill_terminal_user_token env name (os_password (lr c)) (fst s);
                   s = (c', snd s)
               in case err of
                    Some m \<Rightarrow>
                      (let s = (if os then c_update_failure env now failure False 0 TerminalOsLogin s else s)
                       in ((fst s, say [LoginErr m] (snd s)), Some False))
                  | None \<Rightarrow>
                      (let s = (if os then c_update_failure env now failure True 0 TerminalOsLogin s else s);
                           mismatch =
                             (case (service_specified_user env (terminal_service_id (fst s)), terminal_user_tok (fst s)) of
                                (Some is_user, Some tok) \<Rightarrow> is_user \<noteq> (to_terminal_service_token tok \<noteq> None)
                              | _ \<Rightarrow> False)
                       in if mismatch
                          then ((fst s, say [LoginErr ''Terminal service user mismatch detected.''] (snd s)), Some False)
                          else if os then (try_start_cm_ipc s, None) else (s, None)))"

section \<open>Authorization\<close>

definition normalize_conn_audit_auth_fields :: "connection \<Rightarrow> connection" where
  "normalize_conn_audit_auth_fields c =
     (if primary_auth c = PA_Click \<or> primary_auth c = PA_SwitchSides then c\<lparr>two_factor := TF_None\<rparr> else c)"

definition normalize_port_forward_target :: "string \<Rightarrow> int \<Rightarrow> string \<times> bool" where
  "normalize_port_forward_target host port =
     (let is_rdp = (host = ''RDP'' \<and> port = 0);
          (host, port) = (if is_rdp then (''localhost'', 3389) else (host, port));
          host = (if host = [] then ''localhost'' else host)
      in (host @ '':'' @ show_int port, is_rdp))"

definition connect_port_forward_if_needed :: "login_env \<Rightarrow> st \<Rightarrow> st \<times> bool" where
  "connect_port_forward_if_needed env s =
     (case s of (c, w) \<Rightarrow>
        if port_forward_socket c then (s, True)
        else case lr_union (lr c) of
               Some (LU_PortForward host port) \<Rightarrow>
                 (let (addr, is_rdp) = normalize_port_forward_target host port;
                      c = c\<lparr>port_forward_address := addr\<rparr>
                  in if tcp_connect env addr then ((c\<lparr>port_forward_socket := True\<rparr>, w), True)
                     else ((c, say [LoginErr (''Failed to access remote '' @ (if is_rdp then ''RDP'' else addr)
                                       @ ''. Please make sure it is reachable/open.'')] w), False))
             | _ \<Rightarrow> (s, True))"

definition session_type :: "connection \<Rightarrow> auth_conn_type" where
  "session_type c =
     (if file_transfer c \<noteq> None then FileTransfer
      else if port_forward_socket c then PortForward
      else if view_camera c then ViewCamera
      else if terminal c then Terminal
      else Remote)"

text \<open>The end of the authorization: the tables are entered and the peer is told.\<close>

definition enter_authorized :: "login_env \<Rightarrow> nat \<Rightarrow> st \<Rightarrow> st" where
  "enter_authorized env now s =
     (case s of (c, w) \<Rightarrow>
        let t = session_type c;
            key = c_session_key c;
            r = authed_conn_id_new now (enable_abr env) (c_id c) t key
                  (supports_print env (version (lr c)) (my_platform (lr c))) (w_reg w);
            c = normalize_conn_audit_auth_fields
                  (c\<lparr>authorized := True, authed_conn_id := Some t, session_last_recv_time := session_cell key r\<rparr>)
        in (c, say [ConnAudit (primary_auth c) (two_factor c) t, LoginOk] (w\<lparr>w_reg := r\<rparr>)))"

definition send_logon_response_and_keep_alive :: "login_env \<Rightarrow> nat \<Rightarrow> st \<Rightarrow> st \<times> bool" where
  "send_logon_response_and_keep_alive env now s =
     (if authorized (fst s) then (s, True)
      else
        let (s, recent) = (if require_2fa (fst s) \<noteq> None then c_is_recent_session env now True s else (s, True))
        in if \<not> recent \<and> \<not> from_switch (fst s)
           then ((fst s, say ((if telegram_bot env then [TwoFactorNotice] else []) @ [LoginErr ''2FA Required'']) (snd s)), True)
           else case prepare_terminal_login_for_authorization env now s of
                  (s, Some keep_alive) \<Rightarrow> (s, keep_alive)
                | (s, None) \<Rightarrow>
                    (case connect_port_forward_if_needed env s of
                       (s, False) \<Rightarrow> (s, False)
                     | (s, True) \<Rightarrow> (enter_authorized env now s, True)))"

section \<open>Login requests\<close>

definition reset_session_scope_for_login :: "connection \<Rightarrow> connection" where
  "reset_session_scope_for_login c =
     c\<lparr>file_transfer := None, view_camera := False, terminal := False, port_forward_address := [],
       c_terminal_persistent := False\<rparr>"

definition handle_login_request_without_validation :: "login_env \<Rightarrow> login_request \<Rightarrow> st \<Rightarrow> st" where
  "handle_login_request_without_validation env l s =
     (case s of (c, w) \<Rightarrow>
        let c = c\<lparr>lr := l\<rparr>;
            c = (case lr_option l of Some o' \<Rightarrow> c\<lparr>options_in_login := Some o'\<rparr> | None \<Rightarrow> c);
            trusted = (require_2fa c \<noteq> None \<and> hwid l \<noteq> [] \<and> trusted_devices_enabled env
              \<and> (case find (\<lambda>d. d_hwid d = hwid l) (devices w) of
                   Some d \<Rightarrow> \<not> device_outdated env d \<and> d_id d = my_id l \<and> d_name d = my_name l
                              \<and> d_platform d = my_platform l
                 | None \<Rightarrow> False));
            c = (if trusted then c\<lparr>two_factor := TF_TrustedDevice, require_2fa := None\<rparr> else c)
        in (c\<lparr>video_ack_required := lr_video_ack_required l\<rparr>, w))"

definition try_start_cm :: "string \<Rightarrow> string \<Rightarrow> bool \<Rightarrow> st \<Rightarrow> st" where
  "try_start_cm peer name auth s = (fst s, say [CmLogin peer name auth] (snd s))"

definition login_err :: "string \<Rightarrow> st \<Rightarrow> st" where
  "login_err m s = (fst s, say [LoginErr m] (snd s))"

text \<open>The request's kind sets the scope of the connection: an error refuses it.\<close>

definition login_scope :: "login_env \<Rightarrow> login_request \<Rightarrow> connection \<Rightarrow> (string, connection) result" where
  "login_scope env l c =
     (let allowed = (\<lambda>k. permission (perm_env env) k (control_permissions c))
      in case lr_union l of
           Some (LU_FileTransfer dir hidden) \<Rightarrow>
             if \<not> allowed OPTION_ENABLE_FILE_TRANSFER then Inl ''No permission of file transfer''
             else Inr (c\<lparr>file_transfer := Some (dir, hidden)\<rparr>)
         | Some LU_ViewCamera \<Rightarrow>
             if \<not> allowed OPTION_ENABLE_CAMERA then Inl ''No permission of viewing camera''
             else Inr (c\<lparr>view_camera := True\<rparr>)
         | Some (LU_Terminal service_id) \<Rightarrow>
             if \<not> allowed OPTION_ENABLE_TERMINAL then Inl ''No permission of terminal''
             else if on_windows env \<and> os_username l \<noteq> [] \<and> \<not> is_installed env
             then Inl ''Supported only in the installed version.''
             else
               let c = c\<lparr>terminal := True\<rparr>;
                   c = (case options_in_login c of
                          Some o' \<Rightarrow> c\<lparr>c_terminal_persistent :=
                                        (bool_option_enum_value (terminal_persistent o') = Inr BO_Yes)\<rparr>
                        | None \<Rightarrow> c)
               in Inr (c\<lparr>terminal_service_id := service_id\<rparr>)
         | Some (LU_PortForward host port) \<Rightarrow>
             if \<not> allowed OPTION_ENABLE_TUNNEL then Inl ''No permission of IP tunneling''
             else Inr (c\<lparr>port_forward_address := fst (normalize_port_forward_target host port)\<rparr>)
         | None \<Rightarrow>
             if in_privacy_mode env then Inl ''Someone turns on privacy mode, exit'' else Inr c)"

text \<open>The desktop of a headless Linux host: the error message, or \<open>None\<close> when the handler is done.\<close>

definition LOGIN_MSG_DESKTOP_SESSION_NOT_READY :: string where
  "LOGIN_MSG_DESKTOP_SESSION_NOT_READY = ''Desktop session not ready''"

definition desktop_message :: "login_env \<Rightarrow> nat \<Rightarrow> login_request \<Rightarrow> st \<Rightarrow> st \<times> string option" where
  "desktop_message env now l s =
     (let (s, blocked) =
        (if on_linux env \<and> should_check_linux_headless_os_auth_before_desktop_start env (os_username l)
         then let (s, _, ok) = c_check_failure env now 0 Default s in (s, \<not> ok) else (s, False))
      in if blocked then (s, None)
         else
           let err = (if on_linux env \<and> headless_allowed env
                      then start_desktop env (os_username l) (os_password l) else [])
           in if err \<noteq> [] \<and> err \<noteq> LOGIN_MSG_DESKTOP_SESSION_NOT_READY
              then
                let (s, blocked) =
                  (if should_record_linux_headless_os_auth_failure env (os_username l) err
                   then let (s, failure, ok) = c_check_failure env now 0 Default s
                        in if ok then (c_update_failure env now failure False 0 Default s, False) else (s, True)
                   else (s, False))
                in if blocked then (s, None) else (login_err err s, None)
              else (s, Some err))"

text \<open>The terminal account is checked before a login that waits for the user's click.\<close>

definition prepare_before_click :: "login_env \<Rightarrow> nat \<Rightarrow> login_request \<Rightarrow> st \<Rightarrow> st \<times> bool option" where
  "prepare_before_click env now l s =
     (if \<not> on_mobile env \<and> should_use_terminal_os_login_scope env (terminal (fst s)) (os_username l)
      then prepare_terminal_login_for_authorization env now s else (s, None))"

definition finish_login :: "login_env \<Rightarrow> nat \<Rightarrow> login_request \<Rightarrow> string \<Rightarrow> st \<Rightarrow> st \<times> bool" where
  "finish_login env now l err s =
     (if err = []
      then case send_logon_response_and_keep_alive env now s of
             (s, False) \<Rightarrow> (s, False)
           | (s, True) \<Rightarrow> (try_start_cm (my_id l) (my_name l) (authorized (fst s)) s, True)
      else (login_err err s, True))"

text \<open>Approval by password: the attempt is counted, checked, and then authorized or refused.\<close>

definition password_login :: "login_env \<Rightarrow> nat \<Rightarrow> login_request \<Rightarrow> string \<Rightarrow> st \<Rightarrow> st \<times> bool" where
  "password_login env now l err s =
     (case c_check_failure env now 0 Default s of
        (s, failure, False) \<Rightarrow> (s, True)
      | (s, failure, True) \<Rightarrow>
          (case validate_password env now (allow_logon_screen_password env) s of
             (s, False) \<Rightarrow>
               (let s = c_update_failure env now failure False 0 Default s;
                    s = (fst s, check_update_temporary_password env False (snd s))
                in if err = []
                   then (try_start_cm (my_id l) (my_name l) False (login_err ''Wrong Password'' s), True)
                   else (login_err ''Desktop session not ready, password wrong'' s, True))
           | (s, True) \<Rightarrow> finish_login env now l err (c_update_failure env now failure True 0 Default s)))"

definition approve_login :: "login_env \<Rightarrow> nat \<Rightarrow> login_request \<Rightarrow> string \<Rightarrow> st \<Rightarrow> st \<times> bool" where
  "approve_login env now l err s =
     (if approve_mode_opt env = ApproveClick \<and> \<not> allow_logon_screen_password env
         \<or> approve_mode_opt env = ApproveBoth \<and> \<not> has_valid_password env
      then case prepare_before_click env now l s of
             (s, Some keep_alive) \<Rightarrow> (s, keep_alive)
           | (s, None) \<Rightarrow>
               (let s = try_start_cm (my_id l) (my_name l) False s
                in (if get_version_number env (version l) \<ge> get_version_number env ''1.2.0''
                    then login_err ''No Password Access'' s else s, True))
      else case c_is_recent_session env now False s of
             (s, True) \<Rightarrow> finish_login env now l err s
           | (s, False) \<Rightarrow>
               (if lr_password l = []
                then if err = []
                     then case prepare_before_click env now l s of
                            (s, Some keep_alive) \<Rightarrow> (s, keep_alive)
                          | (s, None) \<Rightarrow> (try_start_cm (my_id l) (my_name l) False s, True)
                     else (login_err ''Desktop session not ready, password empty'' s, True)
                else password_login env now l err s))"

definition on_login_request :: "login_env \<Rightarrow> nat \<Rightarrow> login_request \<Rightarrow> st \<Rightarrow> st \<times> bool" where
  "on_login_request env now l s =
     (let s = handle_login_request_without_validation env l s
      in if authorized (fst s) then (s, True)
         else case login_scope env l (reset_session_scope_for_login (fst s)) of
                Inl e \<Rightarrow> (login_err e (reset_session_scope_for_login (fst s), snd s), False)
              | Inr c \<Rightarrow>
                  (let s = (c, snd s)
                   in if \<not> direct_ip_access env (username l) \<and> username l \<noteq> config_id env
                      then (login_err ''Offline'' s, False)
                      else if on_windows env \<and> terminal c \<and> trim (os_username l) = [] \<and> is_prelogin env
                      then (login_err ''No active console user logged on, please connect and logon first.'' s, False)
                      else
                        let s = (if \<not> on_mobile env \<and> \<not> should_use_terminal_os_login_scope env (terminal c) (os_username l)
                                 then try_start_cm_ipc s else s)
                        in case desktop_message env now l s of
                             (s, None) \<Rightarrow> (s, True)
                           | (s, Some err) \<Rightarrow> approve_login env now l err s))"

section \<open>Messages\<close>

text \<open>
  A message of the peer; those the login part does not look into are \<open>M_Other\<close>. A step keeps or
  closes the connection, hands the message to the handlers of an authorized session, or panics.
\<close>

datatype login_msg =
    M_CloseReason
  | M_Login login_request
  | M_Auth2fa string bytes
  | M_TestDelay bool
  | M_SwitchSides "login_request option" bytes
  | M_Other "unit message"

datatype verdict = Keep | Close | Dispatch | Panicked

definition as_message :: "login_msg \<Rightarrow> unit message" where
  "as_message m =
     (case m of
        M_CloseReason \<Rightarrow> Some (Misc (Some (CloseReason ())))
      | M_Login _ \<Rightarrow> Some (LoginRequest ())
      | M_Auth2fa _ _ \<Rightarrow> Some (Auth2fa ())
      | M_TestDelay _ \<Rightarrow> Some (TestDelay ())
      | M_SwitchSides _ _ \<Rightarrow> Some (SwitchSidesResponse ())
      | M_Other msg \<Rightarrow> msg)"

definition is_login :: "login_msg \<Rightarrow> bool" where
  "is_login m = (case m of M_Login _ \<Rightarrow> True | _ \<Rightarrow> False)"

definition keep_if :: "st \<times> bool \<Rightarrow> st \<times> verdict" where
  "keep_if r = (fst r, if snd r then Keep else Close)"

definition on_close :: "login_env \<Rightarrow> string \<Rightarrow> bool \<Rightarrow> st \<Rightarrow> st" where
  "on_close env reason lock s =
     (case s of (c, w) \<Rightarrow>
        if closed c then s
        else
          (c\<lparr>closed := True, port_forward_socket := False\<rparr>,
           say ([ClosedBy reason]
                @ (if lock \<and> c_lock_after_session_end c \<and> keyboard c \<and> \<not> on_mobile env then [LockScreen] else [])
                @ [CmData (if \<not> on_mobile env \<and> (chat_unanswered c \<or> file_transferred c \<and> flutter env)
                           then ''Disconnected'' else ''Close'')]) w))"

definition send_close_reason_no_retry :: "string \<Rightarrow> st \<Rightarrow> st" where
  "send_close_reason_no_retry reason s =
     (case s of (c, w) \<Rightarrow>
        (c, say [ScopeEffect (SendCloseReason (if reason = [] then ''Closed manually by the peer'' else reason))]
              (w\<lparr>w_reg := check_remove_session (c_id c) (c_session_key c) (w_reg w)\<rparr>)))"

definition on_scope_violation :: "login_env \<Rightarrow> string \<Rightarrow> st \<Rightarrow> st \<times> verdict" where
  "on_scope_violation env family s =
     (case s of (c, w) \<Rightarrow>
        case handle_authorized_scope_violation (allow_scope_alarm env) (allow_scope_close env)
               (scope_violation_messages c) family of
          (seen, es, keep) \<Rightarrow>
            let alarms = map ScopeEffect (filter (\<lambda>e. case e of ScopeAlarm _ \<Rightarrow> True | _ \<Rightarrow> False) es);
                s = (c\<lparr>scope_violation_messages := seen\<rparr>, say alarms w)
            in if keep then (s, Keep)
               else (on_close env ''Session scope violation'' True
                       (send_close_reason_no_retry ''Connection not allowed'' s), Close))"

definition on_auth_2fa :: "login_env \<Rightarrow> nat \<Rightarrow> string \<Rightarrow> bytes \<Rightarrow> st \<Rightarrow> st \<times> bool" where
  "on_auth_2fa env now code hw s =
     (case c_check_failure env now 1 Default s of
        (s, failure, False) \<Rightarrow> (s, True)
      | (s, failure, True) \<Rightarrow>
          (case require_2fa (fst s) of
             None \<Rightarrow> (s, True)
           | Some secret \<Rightarrow>
               (case totp_check env secret code of
                  None \<Rightarrow> (s, True)
                | Some False \<Rightarrow>
                    (login_err ''Wrong 2FA Code'' (c_update_failure env now failure False 1 Default s), True)
                | Some True \<Rightarrow>
                    (let (c, w) = c_update_failure env now failure True 1 Default s;
                         s = (c\<lparr>require_2fa := None, two_factor := TF_Totp\<rparr>,
                              w\<lparr>w_reg := set_session_2fa now (c_session_key c) (w_reg w)\<rparr>)
                     in case send_logon_response_and_keep_alive env now s of
                          (s, False) \<Rightarrow> (s, False)
                        | (s, True) \<Rightarrow>
                            (let l = lr (fst s);
                                 (c, w) = try_start_cm (my_id l) (my_name l) (authorized (fst s)) s;
                                 w = (if hw \<noteq> [] \<and> trusted_devices_enabled env
                                      then w\<lparr>devices := add_trusted_device env \<lparr>d_hwid = hw, d_time = now, d_id = my_id l,
                                              d_name = my_name l, d_platform = my_platform l\<rparr> (devices w)\<rparr> else w)
                             in ((c, w), True))))))"

definition on_switch_sides :: "login_env \<Rightarrow> nat \<Rightarrow> login_request option \<Rightarrow> bytes \<Rightarrow> st \<Rightarrow> st \<times> bool" where
  "on_switch_sides env now lr_opt uuid s =
     (if \<not> flutter env \<or> on_mobile env then (s, True)
      else case lr_opt of
        None \<Rightarrow> (s, True)
      | Some l \<Rightarrow>
          (let (c, w) = s;
               tokens = retain_tokens now (w_tokens w);
               old = tokens (my_id l);
               s = (c, w\<lparr>w_tokens := map_remove tokens (my_id l)\<rparr>)
           in case (uuid_from_slice env uuid, old) of
                (Some u, Some (_, v)) \<Rightarrow>
                  (if u \<noteq> v then (s, True)
                   else if lr_union l \<noteq> None then (login_err ''Connection not allowed'' s, False)
                   else
                     let s = (reset_session_scope_for_login (fst s), snd s);
                         s = handle_login_request_without_validation env l s;
                         s = ((fst s)\<lparr>from_switch := True, primary_auth := PA_SwitchSides\<rparr>, snd s)
                     in case send_logon_response_and_keep_alive env now s of
                          (s, False) \<Rightarrow> (s, False)
                        | (s, True) \<Rightarrow>
                            (try_start_cm_ipc (try_start_cm (my_id l) (my_name l) (authorized (fst s)) s), True))
              | _ \<Rightarrow> (s, True)))"

definition on_test_delay :: "login_env \<Rightarrow> nat \<Rightarrow> bool \<Rightarrow> st \<Rightarrow> st \<times> verdict" where
  "on_test_delay env now from_client s =
     (case s of (c, w) \<Rightarrow>
        if from_client then ((c, say [EchoTestDelay] w), Keep)
        else case last_test_delay c of
               None \<Rightarrow> (s, Keep)
             | Some t \<Rightarrow>
                 (let d = wrap_u32 (now - t)
                  in case user_network_delay (on_linux env) now (c_id c) d (qos (w_reg w)) of
                       None \<Rightarrow> (s, Panicked)
                     | Some q \<Rightarrow> ((c\<lparr>last_test_delay := None, network_delay := d\<rparr>,
                                   w\<lparr>w_reg := (w_reg w)\<lparr>qos := q\<rparr>\<rparr>), Keep)))"

definition on_message :: "login_env \<Rightarrow> nat \<Rightarrow> login_msg \<Rightarrow> st \<Rightarrow> st \<times> verdict" where
  "on_message env now m s =
     (if m = M_CloseReason
      then let (c, w) = on_close env ''Peer close'' True s
           in ((c, w\<lparr>w_reg := check_remove_session (c_id c) (c_session_key c) (w_reg w)\<rparr>), Close)
      else if authorized (fst s) \<and> is_login m then (s, Keep)
      else case (if authorized (fst s)
                 then authorized_scope_violation (on_windows env) (authed_conn_id (fst s)) (as_message m)
                 else None) of
             Some family \<Rightarrow> on_scope_violation env family s
           | None \<Rightarrow>
               (case m of
                  M_Login l \<Rightarrow> keep_if (on_login_request env now l s)
                | M_Auth2fa code hw \<Rightarrow> keep_if (on_auth_2fa env now code hw s)
                | M_TestDelay from_client \<Rightarrow> on_test_delay env now from_client s
                | M_SwitchSides lr_opt uuid \<Rightarrow> keep_if (on_switch_sides env now lr_opt uuid s)
                | _ \<Rightarrow> (s, if authorized (fst s) \<and> \<not> port_forward_socket (fst s) then Dispatch else Keep)))"

text \<open>The user's click on accept, from the connection manager: \<open>False\<close> ends the connection's loop.\<close>

definition on_cm_authorize :: "login_env \<Rightarrow> nat \<Rightarrow> st \<Rightarrow> st \<times> bool" where
  "on_cm_authorize env now s =
     (let s = ((fst s)\<lparr>primary_auth := PA_Click, require_2fa := None\<rparr>, snd s)
      in case send_logon_response_and_keep_alive env now s of
           (s, False) \<Rightarrow> (s, False)
         | (s, True) \<Rightarrow> (s, \<not> port_forward_socket (fst s)))"

section \<open>What the helpers leave unchanged\<close>

definition view :: "connection \<Rightarrow> bool \<times> (string \<times> bool) option \<times> bool \<times> bool \<times> bool \<times> login_request
    \<times> auth_conn_type option \<times> string option \<times> bool \<times> bytes \<times> bytes \<times> 64 word option" where
  "view c = (authorized c, file_transfer c, view_camera c, terminal c, port_forward_socket c, lr c,
     authed_conn_id c, require_2fa c, from_switch c, salt c, challenge c, control_permissions c)"

lemma view_updates [simp]:
  "view (c\<lparr>primary_auth := a\<rparr>) = view c" "view (c\<lparr>two_factor := b\<rparr>) = view c"
  "view (c\<lparr>terminal_user_tok := t\<rparr>) = view c" "view (c\<lparr>start_cm_ipc_para := d\<rparr>) = view c"
  "view (c\<lparr>port_forward_address := e\<rparr>) = view c"
  by (simp_all add: view_def)

lemma c_check_failure_conn [simp]: "fst (fst (c_check_failure env now i scope s)) = fst s"
  by (simp add: c_check_failure_def split: prod.splits)

lemma c_update_failure_conn [simp]: "fst (c_update_failure env now ft b i scope s) = fst s"
  by (simp add: c_update_failure_def split: prod.splits)

lemma c_is_recent_view [simp]: "view (fst (fst (c_is_recent_session env now two s))) = view (fst s)"
  by (simp add: c_is_recent_session_def Let_def split: prod.splits)

lemma validate_password_view [simp]: "view (fst (fst (validate_password env now b s))) = view (fst s)"
  by (simp add: validate_password_def Let_def split: prod.splits)

lemma try_start_cm_ipc_view [simp]: "view (fst (try_start_cm_ipc s)) = view (fst s)"
  by (simp add: try_start_cm_ipc_def split: prod.splits)

lemma fill_terminal_view [simp]: "view (fst (fill_terminal_user_token env n p c)) = view c"
  by (simp add: fill_terminal_user_token_def handle_administrator_check_def handle_installed_user_def Let_def)

lemma prepare_terminal_view [simp]:
  "view (fst (fst (prepare_terminal_login_for_authorization env now s))) = view (fst s)"
proof -
  have a: "view (fst (fst (c_check_failure env now 0 TerminalOsLogin s))) = view (fst s)" by simp
  have b: "view (fst (fill_terminal_user_token env n p (fst s))) = view (fst s)" for n p by simp
  show ?thesis
    using a b
    by (cases s) (simp add: prepare_terminal_login_for_authorization_def Let_def case_prod_beta
        split: option.splits)
qed

lemma prepare_before_click_view [simp]: "view (fst (fst (prepare_before_click env now l s))) = view (fst s)"
  by (simp add: prepare_before_click_def)

lemma desktop_message_view [simp]: "view (fst (fst (desktop_message env now l s))) = view (fst s)"
  by (simp add: desktop_message_def login_err_def Let_def case_prod_beta)

lemma try_start_cm_conn [simp]: "fst (try_start_cm p n b s) = fst s"
  by (simp add: try_start_cm_def)

lemma login_err_conn [simp]: "fst (login_err m s) = fst s"
  by (simp add: login_err_def)

section \<open>Credentials\<close>

lemma fold_or_zero:
  "fold (\<lambda>i x. x OR f i) is z = (0 :: 'a :: len word) \<longleftrightarrow> z = 0 \<and> (\<forall>i \<in> set is. f i = 0)"
  by (induction "is" arbitrary: z) (auto simp: or_eq_0_iff)

text \<open>
  C30. The comparison that takes the same time for every difference is equality.
\<close>

theorem constant_time_eq_is_eq: "constant_time_eq a b \<longleftrightarrow> a = b"
proof (cases "length a = length b")
  case True
  have zero: "x XOR y = 0 \<longleftrightarrow> x = y" for x y :: byte
    by (metis xor.right_neutral xor_self_eq xor.assoc)
  have "constant_time_eq a b \<longleftrightarrow> (\<forall>i \<in> set [0..<length a]. a ! i XOR b ! i = 0)"
    using True unfolding constant_time_eq_def fold_or_zero by simp
  also have "\<dots> \<longleftrightarrow> (\<forall>i < length a. a ! i = b ! i)"
    unfolding zero by auto
  finally show ?thesis using True by (simp add: list_eq_iff_nth_eq)
next
  case False
  then show ?thesis by (auto simp: constant_time_eq_def)
qed

text \<open>The stored password of the host, and what a client may present besides it.\<close>

definition stored_password_ok :: "login_env \<Rightarrow> connection \<Rightarrow> bool" where
  "stored_password_ok env c \<longleftrightarrow>
     (if fst (local_storage_and_salt env) \<noteq> []
      then local_usable env (fst (local_storage_and_salt env)) (snd (local_storage_and_salt env))
           \<and> validate_password_storage env c (fst (local_storage_and_salt env))
      else preset_usable env (fst (preset_storage_and_salt env)) (snd (preset_storage_and_salt env))
           \<and> validate_preset_password_storage env c (fst (preset_storage_and_salt env))
               (snd (preset_storage_and_salt env)))"

definition password_ok :: "login_env \<Rightarrow> connection \<Rightarrow> world \<Rightarrow> bool" where
  "password_ok env c w \<longleftrightarrow>
     temporary_enabled env \<and> validate_password_plain env c (temporary_password w)
     \<or> (permanent_enabled env \<or> allow_logon_screen_password env) \<and> stored_password_ok env c"

definition recent_password :: "login_env \<Rightarrow> nat \<Rightarrow> connection \<Rightarrow> world \<Rightarrow> bool" where
  "recent_password env now c w \<longleftrightarrow>
     lr_password (lr c) \<noteq> [] \<and> recent now (validate_password_plain env c) (c_session_key c) False (w_reg w)"

definition tfa_recent :: "nat \<Rightarrow> connection \<Rightarrow> world \<Rightarrow> bool" where
  "tfa_recent now c w \<longleftrightarrow>
     (\<exists>s. sessions (w_reg w) (c_session_key c) = Some s \<and> tfa s
          \<and> now - cells (w_reg w) ! last_recv_time s < SESSION_TIMEOUT)"

lemma validate_password_result:
  "snd (validate_password env now (allow_logon_screen_password env) (c, w)) = password_ok env c w"
  by (simp add: validate_password_def password_ok_def stored_password_ok_def Let_def case_prod_beta)

lemma c_is_recent_False: "snd (c_is_recent_session env now False (c, w)) = recent_password env now c w"
  by (auto simp: c_is_recent_session_def recent_password_def recent_def is_recent_session_def Let_def
      split: option.splits)

lemma c_is_recent_True: "snd (c_is_recent_session env now True (c, w)) \<Longrightarrow> tfa_recent now c w"
  by (auto simp: c_is_recent_session_def tfa_recent_def is_recent_session_def retain_recent_def Let_def
      split: option.splits)

lemma view_eq_fields:
  assumes "view c = view c'"
  shows "authorized c = authorized c'" "lr c = lr c'" "require_2fa c = require_2fa c'"
    "from_switch c = from_switch c'" "authed_conn_id c = authed_conn_id c'"
    "port_forward_socket c = port_forward_socket c'" "file_transfer c = file_transfer c'"
    "view_camera c = view_camera c'" "terminal c = terminal c'" "salt c = salt c'"
    "challenge c = challenge c'" "c_session_key c = c_session_key c'"
    "control_permissions c = control_permissions c'"
  using assms by (simp_all add: view_def c_session_key_def)

lemma validate_core:
  assumes "lr c = lr c'" "salt c = salt c'" "challenge c = challenge c'"
  shows "validate_password_plain env c = validate_password_plain env c'"
    and "validate_password_storage env c = validate_password_storage env c'"
    and "validate_preset_password_storage env c = validate_preset_password_storage env c'"
proof -
  have h: "verify_h1 env c = verify_h1 env c'" by (rule ext) (simp only: verify_h1_def assms)
  show "validate_password_plain env c = validate_password_plain env c'"
    by (rule ext) (simp only: validate_password_plain_def h assms)
  show "validate_password_storage env c = validate_password_storage env c'"
    by (rule ext) (simp only: validate_password_storage_def h)
  show "validate_preset_password_storage env c = validate_preset_password_storage env c'"
    by (intro ext) (simp only: validate_preset_password_storage_def h)
qed

lemmas validate_cong = validate_core [OF view_eq_fields(2) view_eq_fields(10) view_eq_fields(11)]

lemma credentials_core:
  assumes "lr c = lr c'" "salt c = salt c'" "challenge c = challenge c'"
  shows "password_ok env c w = password_ok env c' w" "recent_password env now c w = recent_password env now c' w"
    "tfa_recent now c w = tfa_recent now c' w"
  by (simp_all only: password_ok_def stored_password_ok_def recent_password_def tfa_recent_def
      c_session_key_def validate_core [OF assms] assms)

lemma password_ok_cong:
  assumes "view c = view c'" "temporary_password w = temporary_password w'"
  shows "password_ok env c w = password_ok env c' w'"
  by (simp only: password_ok_def stored_password_ok_def validate_cong [OF assms(1) assms(1) assms(1)] assms(2))

lemma tfa_recent_cong: "view c = view c' \<Longrightarrow> tfa_recent now c w = tfa_recent now c' w"
  by (simp add: tfa_recent_def view_eq_fields(12) [of c c'])

text \<open>Steps on the world that create no session with a passed second factor.\<close>

lemma c_check_failure_world [simp]:
  "w_reg (snd (fst (c_check_failure env now i scope s))) = w_reg (snd s)"
  "temporary_password (snd (fst (c_check_failure env now i scope s))) = temporary_password (snd s)"
  by (simp_all add: c_check_failure_def say_def split: prod.splits)

lemma c_update_failure_world [simp]:
  "w_reg (snd (c_update_failure env now ft b i scope s)) = w_reg (snd s)"
  by (simp add: c_update_failure_def split: prod.splits)

lemma c_is_recent_world:
  "temporary_password (snd (fst (c_is_recent_session env now two s))) = temporary_password (snd s)"
  "tfa_recent now c (snd (fst (c_is_recent_session env now two s))) \<Longrightarrow> tfa_recent now c (snd s)"
  by (auto simp: c_is_recent_session_def is_recent_session_def retain_recent_def tfa_recent_def Let_def
      split: prod.splits)

lemma check_update_temporary_reg [simp]: "w_reg (check_update_temporary_password env b w) = w_reg w"
  by (simp add: check_update_temporary_password_def Let_def)

lemma validate_password_tfa:
  "tfa_recent now (fst s) (snd (fst (validate_password env now b s))) \<Longrightarrow> tfa_recent now (fst s) (snd s)"
  by (cases s) (auto simp: validate_password_def tfa_recent_def update_or_insert_session_def new_session_def
      Let_def case_prod_beta split: if_splits option.splits)

section \<open>Authorization\<close>

definition second_factor_ok :: "nat \<Rightarrow> st \<Rightarrow> bool" where
  "second_factor_ok now s \<longleftrightarrow>
     require_2fa (fst s) = None \<or> from_switch (fst s) \<or> tfa_recent now (fst s) (snd s)"

definition wants_port_forward :: "connection \<Rightarrow> bool" where
  "wants_port_forward c \<longleftrightarrow> (case lr_union (lr c) of Some (LU_PortForward _ _) \<Rightarrow> True | _ \<Rightarrow> False)"

definition target_type :: "connection \<Rightarrow> auth_conn_type" where
  "target_type c =
     (if file_transfer c \<noteq> None then FileTransfer
      else if port_forward_socket c \<or> wants_port_forward c then PortForward
      else if view_camera c then ViewCamera
      else if terminal c then Terminal else Remote)"

lemma target_type_cong:
  assumes "view c = view c'"
  shows "target_type c = target_type c'"
  unfolding target_type_def wants_port_forward_def view_eq_fields [OF assms] ..

lemma connect_port_forward_cases:
  "case connect_port_forward_if_needed env s of
     (s', False) \<Rightarrow> view (fst s') = view (fst s)
   | (s', True) \<Rightarrow> session_type (fst s') = target_type (fst s) \<and> authorized (fst s') = authorized (fst s)"
  by (cases s) (auto simp: connect_port_forward_if_needed_def session_type_def target_type_def
      wants_port_forward_def Let_def split: option.splits login_union.splits prod.splits)

lemma enter_authorized_fields [simp]:
  "authorized (fst (enter_authorized env now s))"
  "authed_conn_id (fst (enter_authorized env now s)) = Some (session_type (fst s))"
  by (simp_all add: enter_authorized_def normalize_conn_audit_auth_fields_def Let_def split: prod.splits)

text \<open>
  The logon response either leaves the connection as it is, or authorizes it with the second factor
  settled and the type its scope asks for.
\<close>

definition authorized_as :: "nat \<Rightarrow> st \<Rightarrow> st \<times> bool \<Rightarrow> bool" where
  "authorized_as now s r \<longleftrightarrow> second_factor_ok now s \<and> authorized (fst (fst r))
     \<and> authed_conn_id (fst (fst r)) = Some (target_type (fst s)) \<and> snd r"

lemma send_logon_cases:
  assumes "\<not> authorized (fst s)"
  shows "view (fst (fst (send_logon_response_and_keep_alive env now s))) = view (fst s)
         \<or> authorized_as now s (send_logon_response_and_keep_alive env now s)"
proof -
  define r where "r = (if require_2fa (fst s) \<noteq> None then c_is_recent_session env now True s else (s, True))"
  obtain s1 recent where s1: "r = (s1, recent)" by (meson surj_pair)
  have "view (fst (fst r)) = view (fst s)" by (simp add: r_def)
  then have v1: "view (fst s1) = view (fst s)" by (simp add: s1)
  have second: "second_factor_ok now s" if "recent \<or> from_switch (fst s1)"
    using that s1 view_eq_fields(4) [OF v1] c_is_recent_True [of env now "fst s" "snd s"]
    by (auto simp: r_def second_factor_ok_def split: if_splits)
  obtain s2 stop where s2: "prepare_terminal_login_for_authorization env now s1 = (s2, stop)" by (meson surj_pair)
  have v2: "view (fst s2) = view (fst s)" using prepare_terminal_view [of env now s1] s2 v1 by simp
  obtain s3 ok where s3: "connect_port_forward_if_needed env s2 = (s3, ok)" by (meson surj_pair)
  have eq: "send_logon_response_and_keep_alive env now s =
     (if \<not> recent \<and> \<not> from_switch (fst s1)
      then ((fst s1, say ((if telegram_bot env then [TwoFactorNotice] else []) @ [LoginErr ''2FA Required'']) (snd s1)), True)
      else case stop of Some k \<Rightarrow> (s2, k)
           | None \<Rightarrow> if ok then (enter_authorized env now s3, True) else (s3, False))"
    using assms s3 unfolding send_logon_response_and_keep_alive_def r_def [symmetric] s1
    by (simp add: s2 split: option.splits)
  have c: "if ok then session_type (fst s3) = target_type (fst s) else view (fst s3) = view (fst s)"
    using connect_port_forward_cases [where env = env and s = s2] v2 target_type_cong [OF v2]
    by (simp add: s3 split: bool.splits if_splits)
  show ?thesis
    using v1 v2 c second unfolding eq authorized_as_def
    by (cases stop) auto
qed

lemma send_logon_authorized: "authorized (fst s) \<Longrightarrow> send_logon_response_and_keep_alive env now s = (s, True)"
  by (simp add: send_logon_response_and_keep_alive_def)

lemma second_factor_cong:
  assumes "view (fst s') = view (fst s)" "tfa_recent now (fst s) (snd s') \<Longrightarrow> tfa_recent now (fst s) (snd s)"
    "second_factor_ok now s'"
  shows "second_factor_ok now s"
  using assms(2,3) tfa_recent_cong [OF assms(1), of now "snd s'"]
  unfolding second_factor_ok_def view_eq_fields(3,4) [OF assms(1)] by blast

lemma finish_login_cases:
  assumes "\<not> authorized (fst s)" "view (fst s') = view (fst s)"
    "tfa_recent now (fst s) (snd s') \<Longrightarrow> tfa_recent now (fst s) (snd s)"
  shows "view (fst (fst (finish_login env now l err s'))) = view (fst s)
         \<or> authorized_as now s (finish_login env now l err s')"
proof -
  have na: "\<not> authorized (fst s')" using assms(1) view_eq_fields(1) [OF assms(2)] by simp
  obtain s1 k where s1: "send_logon_response_and_keep_alive env now s' = (s1, k)" by (meson surj_pair)
  have "fst (fst (finish_login env now l err s')) = (if err = [] then fst s1 else fst s')"
    "err = [] \<Longrightarrow> snd (finish_login env now l err s') = k"
    by (auto simp: finish_login_def s1 split: bool.splits)
  with send_logon_cases [OF na, of env now] s1 assms(2) second_factor_cong [OF assms(2,3)]
    target_type_cong [OF assms(2)]
  show ?thesis by (auto simp: authorized_as_def)
qed

definition click_only :: "login_env \<Rightarrow> bool" where
  "click_only env \<longleftrightarrow> approve_mode_opt env = ApproveClick \<and> \<not> allow_logon_screen_password env
     \<or> approve_mode_opt env = ApproveBoth \<and> \<not> has_valid_password env"

lemma password_login_cases:
  assumes na: "\<not> authorized (fst s)" and v: "view (fst s') = view (fst s)"
    and tp: "temporary_password (snd s') = temporary_password (snd s)"
    and tfa: "tfa_recent now (fst s) (snd s') \<Longrightarrow> tfa_recent now (fst s) (snd s)"
  shows "view (fst (fst (password_login env now l err s'))) = view (fst s)
         \<or> password_ok env (fst s) (snd s) \<and> authorized_as now s (password_login env now l err s')"
proof -
  obtain s1 ft ok where s1: "c_check_failure env now 0 Default s' = (s1, ft, ok)" by (metis prod_cases3)
  have c1: "fst s1 = fst s'" "w_reg (snd s1) = w_reg (snd s')"
    "temporary_password (snd s1) = temporary_password (snd s')"
    using c_check_failure_conn [of env now 0 Default s'] c_check_failure_world [of env now 0 Default s']
    unfolding s1 by simp_all
  obtain s2 valid where s2: "validate_password env now (allow_logon_screen_password env) s1 = (s2, valid)"
    by (meson surj_pair)
  have v2: "view (fst s2) = view (fst s)"
    using validate_password_view [of env now "allow_logon_screen_password env" s1] v c1(1) unfolding s2 by simp
  have valid: "valid = password_ok env (fst s) (snd s)"
    using validate_password_result [of env now "fst s1" "snd s1", unfolded prod.collapse s2 snd_conv]
      password_ok_cong [of "fst s1" "fst s" "snd s1" "snd s" env] v tp c1 by simp
  have t1: "tfa_recent now c (snd s1) = tfa_recent now c (snd s')" for c by (simp add: tfa_recent_def c1(2))
  have vs1: "view (fst s1) = view (fst s)" using v c1(1) by simp
  have t2: "tfa_recent now (fst s) (snd s)" if "tfa_recent now (fst s) (snd s2)"
    using that validate_password_tfa [of now s1 env "allow_logon_screen_password env"] t1 tfa
      tfa_recent_cong [OF vs1] unfolding s2 fst_conv by simp
  have "view (fst (fst (finish_login env now l err (c_update_failure env now ft True 0 Default s2)))) = view (fst s)
        \<or> authorized_as now s (finish_login env now l err (c_update_failure env now ft True 0 Default s2))"
    using t2 v2 by (intro finish_login_cases [OF na]) (auto simp: tfa_recent_def)
  then show ?thesis
    using v2 vs1 valid by (auto simp: password_login_def s1 s2 Let_def split: bool.splits)
qed

lemma approve_login_cases:
  assumes na: "\<not> authorized (fst s)" and v: "view (fst s') = view (fst s)"
    and same: "w_reg (snd s') = w_reg (snd s)" "temporary_password (snd s') = temporary_password (snd s)"
  shows "view (fst (fst (approve_login env now l err s'))) = view (fst s)
         \<or> \<not> click_only env \<and> (recent_password env now (fst s) (snd s) \<or> password_ok env (fst s) (snd s))
           \<and> authorized_as now s (approve_login env now l err s')"
proof (cases "click_only env")
  case True
  obtain s1 stop where s1: "prepare_before_click env now l s' = (s1, stop)" by (meson surj_pair)
  have "view (fst s1) = view (fst s)" using prepare_before_click_view [of env now l s'] v unfolding s1 by simp
  with True show ?thesis
    unfolding approve_login_def click_only_def [symmetric] if_P [OF True] s1
    by (auto simp: Let_def split: option.splits)
next
  case False
  obtain s1 recent where s1: "c_is_recent_session env now False s' = (s1, recent)" by (meson surj_pair)
  have v1: "view (fst s1) = view (fst s)" using c_is_recent_view [of env now False s'] v unfolding s1 by simp
  have recent: "recent = recent_password env now (fst s) (snd s)"
    using c_is_recent_False [of env now "fst s'" "snd s'"] s1 view_eq_fields [OF v] validate_cong(1) [OF v v v] same
    by (simp add: recent_password_def)
  have t1: "tfa_recent now (fst s) (snd s1) \<Longrightarrow> tfa_recent now (fst s) (snd s)"
    using c_is_recent_world(2) [of now "fst s" env False s'] same(1) unfolding s1
    by (simp add: tfa_recent_def)
  have tp: "temporary_password (snd s1) = temporary_password (snd s)"
    using c_is_recent_world(1) [of env now False s'] same(2) unfolding s1 by simp
  obtain s2 stop where s2: "prepare_before_click env now l s1 = (s2, stop)" by (meson surj_pair)
  have v2: "view (fst s2) = view (fst s)" using prepare_before_click_view [of env now l s1] v1 unfolding s2 by simp
  have "approve_login env now l err s' =
     (if recent then finish_login env now l err s1
      else if lr_password l = []
      then if err = []
           then case stop of Some k \<Rightarrow> (s2, k) | None \<Rightarrow> (try_start_cm (my_id l) (my_name l) False s2, True)
           else (login_err ''Desktop session not ready, password empty'' s1, True)
      else password_login env now l err s1)"
    unfolding approve_login_def click_only_def [symmetric] if_not_P [OF False] s1
    by (simp add: s2 split: bool.splits option.splits)
  then show ?thesis
    using finish_login_cases [OF na v1 t1, of env l err] password_login_cases [OF na v1 tp t1, of env l err]
      False recent v1 v2
    by (auto split: option.splits if_splits)
qed

subsection \<open>Login requests\<close>

definition trusted_device_ok :: "login_env \<Rightarrow> login_request \<Rightarrow> world \<Rightarrow> bool" where
  "trusted_device_ok env l w \<longleftrightarrow> hwid l \<noteq> [] \<and> trusted_devices_enabled env
     \<and> (\<exists>d \<in> set (devices w). d_hwid d = hwid l \<and> \<not> device_outdated env d \<and> d_id d = my_id l
          \<and> d_name d = my_name l \<and> d_platform d = my_platform l)"

lemma handle_login_fields:
  fixes env l s
  defines "s' \<equiv> handle_login_request_without_validation env l s"
  shows "snd s' = snd s" "lr (fst s') = l" "salt (fst s') = salt (fst s)" "challenge (fst s') = challenge (fst s)"
    "authorized (fst s') = authorized (fst s)" "authed_conn_id (fst s') = authed_conn_id (fst s)"
    "port_forward_socket (fst s') = port_forward_socket (fst s)" "from_switch (fst s') = from_switch (fst s)"
    "control_permissions (fst s') = control_permissions (fst s)"
    "require_2fa (fst s') = None \<Longrightarrow> require_2fa (fst s) = None \<or> trusted_device_ok env l (snd s)"
  unfolding s'_def handle_login_request_without_validation_def trusted_device_ok_def
  by (auto simp: Let_def find_Some_iff split: prod.splits option.splits if_splits intro!: bexI [OF _ nth_mem])

definition requested_type :: "login_request \<Rightarrow> auth_conn_type" where
  "requested_type l =
     (case lr_union l of
        None \<Rightarrow> Remote | Some (LU_FileTransfer _ _) \<Rightarrow> FileTransfer | Some (LU_PortForward _ _) \<Rightarrow> PortForward
      | Some LU_ViewCamera \<Rightarrow> ViewCamera | Some (LU_Terminal _) \<Rightarrow> Terminal)"

text \<open>What the host must permit for a session of a type; remote control waits for privacy mode to end.\<close>

definition type_permitted :: "login_env \<Rightarrow> 64 word option \<Rightarrow> auth_conn_type \<Rightarrow> bool" where
  "type_permitted env cp t \<longleftrightarrow>
     (case t of
        Remote \<Rightarrow> \<not> in_privacy_mode env
      | FileTransfer \<Rightarrow> permission (perm_env env) OPTION_ENABLE_FILE_TRANSFER cp
      | PortForward \<Rightarrow> permission (perm_env env) OPTION_ENABLE_TUNNEL cp
      | ViewCamera \<Rightarrow> permission (perm_env env) OPTION_ENABLE_CAMERA cp
      | Terminal \<Rightarrow> permission (perm_env env) OPTION_ENABLE_TERMINAL cp)"

lemma login_scope_Inr:
  assumes "login_scope env l (reset_session_scope_for_login c) = Inr c'" "lr c = l" "\<not> port_forward_socket c"
  shows "target_type c' = requested_type l" "type_permitted env (control_permissions c) (requested_type l)"
    "lr c' = l" "salt c' = salt c" "challenge c' = challenge c" "authorized c' = authorized c"
    "authed_conn_id c' = authed_conn_id c" "port_forward_socket c' = port_forward_socket c"
    "from_switch c' = from_switch c" "require_2fa c' = require_2fa c"
  using assms
  by (auto simp: login_scope_def reset_session_scope_for_login_def target_type_def wants_port_forward_def
      requested_type_def type_permitted_def Let_def split: option.splits login_union.splits if_splits)

definition login_authorizes :: "login_env \<Rightarrow> nat \<Rightarrow> login_request \<Rightarrow> st \<Rightarrow> bool" where
  "login_authorizes env now l s \<longleftrightarrow>
     (let c = (fst s)\<lparr>lr := l\<rparr>; w = snd s
      in \<not> click_only env \<and> (recent_password env now c w \<or> password_ok env c w)
         \<and> (require_2fa c = None \<or> trusted_device_ok env l w \<or> from_switch c \<or> tfa_recent now c w)
         \<and> type_permitted env (control_permissions c) (requested_type l))"

text \<open>A connection that is not authorized has no forwarding socket and no entry of its own.\<close>

definition conn_inv :: "connection \<Rightarrow> bool" where
  "conn_inv c \<longleftrightarrow> (if authorized c then authed_conn_id c \<noteq> None
                   else authed_conn_id c = None \<and> \<not> port_forward_socket c)"

lemma conn_inv_view: "view c = view c' \<Longrightarrow> conn_inv c = conn_inv c'"
  by (simp add: conn_inv_def view_eq_fields(1,5,6) [of c c'])

lemma desktop_message_world:
  "w_reg (snd (fst (desktop_message env now l s))) = w_reg (snd s)"
  "temporary_password (snd (fst (desktop_message env now l s))) = temporary_password (snd s)"
  by (simp_all add: desktop_message_def login_err_def say_def Let_def case_prod_beta c_update_failure_def)

lemma try_start_cm_ipc_world:
  "w_reg (snd (try_start_cm_ipc s)) = w_reg (snd s)"
  "temporary_password (snd (try_start_cm_ipc s)) = temporary_password (snd s)"
  by (simp_all add: try_start_cm_ipc_def say_def split: prod.splits)

lemma on_login_request_cases:
  assumes inv: "conn_inv (fst s)" and na: "\<not> authorized (fst s)"
  shows "(\<not> authorized (fst (fst (on_login_request env now l s))) \<and> conn_inv (fst (fst (on_login_request env now l s))))
     \<or> (login_authorizes env now l s \<and> authorized (fst (fst (on_login_request env now l s)))
        \<and> authed_conn_id (fst (fst (on_login_request env now l s))) = Some (requested_type l))"
proof -
  define s0 where "s0 = handle_login_request_without_validation env l s"
  note f0 = handle_login_fields [of env l s, folded s0_def]
  have na0: "\<not> authorized (fst s0)" and sock: "\<not> port_forward_socket (fst s0)" "authed_conn_id (fst s0) = None"
    using na inv f0 by (auto simp: conn_inv_def)
  show ?thesis
  proof (cases "login_scope env l (reset_session_scope_for_login (fst s0))")
    case (Inl e)
    then have "fst (fst (on_login_request env now l s)) = reset_session_scope_for_login (fst s0)"
      using na0 by (simp add: on_login_request_def s0_def [symmetric] Let_def)
    with na0 sock show ?thesis by (simp add: conn_inv_def reset_session_scope_for_login_def)
  next
    case (Inr c)
    note f1 = login_scope_Inr [OF Inr f0(2) sock(1)]
    have c: "\<not> authorized c" "conn_inv c" using f1 na0 sock by (simp_all add: conn_inv_def)
    define s1 where "s1 = (if \<not> on_mobile env \<and> \<not> should_use_terminal_os_login_scope env (terminal c) (os_username l)
                           then try_start_cm_ipc (c, snd s0) else (c, snd s0))"
    have s1: "view (fst s1) = view c" "w_reg (snd s1) = w_reg (snd s)" "temporary_password (snd s1) = temporary_password (snd s)"
      by (simp_all add: s1_def try_start_cm_ipc_world f0(1))
    obtain s2 err where s2: "desktop_message env now l s1 = (s2, err)" by (meson surj_pair)
    have v2: "view (fst s2) = view c" "w_reg (snd s2) = w_reg (snd s)" "temporary_password (snd s2) = temporary_password (snd s)"
      using desktop_message_view [of env now l s1] desktop_message_world [of env now l s1] s1 unfolding s2 by simp_all
    have "fst (fst (on_login_request env now l s)) = c
        \<or> on_login_request env now l s = (s2, True)
        \<or> (\<exists>e. on_login_request env now l s = approve_login env now l e s2)" (is "?refused \<or> ?done \<or> ?approve")
      using na0 Inr by (auto simp: on_login_request_def s0_def [symmetric] s1_def [symmetric] s2 Let_def
          split: option.splits)
    moreover have kept: "\<not> authorized c' \<and> conn_inv c'" if "view c' = view c" for c'
      using c conn_inv_view [OF that] view_eq_fields(1) [OF that] by simp
    moreover have ?thesis if ?approve
    proof -
      from that obtain e where e: "on_login_request env now l s = approve_login env now l e s2" (is "?r = _") by blast
      have "view (fst (fst ?r)) = view c
          \<or> \<not> click_only env \<and> (recent_password env now c (snd s) \<or> password_ok env c (snd s)) \<and> authorized_as now (c, snd s) ?r"
        unfolding e using approve_login_cases [of "(c, snd s)" s2 env now l e] c v2 by simp
      then show ?thesis
        using kept [of "fst (fst ?r)"] f0 f1 credentials_core [of c "(fst s)\<lparr>lr := l\<rparr>"]
        by (auto simp: login_authorizes_def authorized_as_def second_factor_ok_def Let_def)
    qed
    ultimately show ?thesis using v2(1) by auto
  qed
qed

subsection \<open>Other messages\<close>

text \<open>The result of a handler that ends with the logon response.\<close>

lemma send_logon_inv:
  assumes "conn_inv (fst s)" "\<not> authorized (fst s)"
  shows "let c' = fst (fst (send_logon_response_and_keep_alive env now s))
         in conn_inv c' \<and> (authorized c' \<longrightarrow> authed_conn_id c' = Some (target_type (fst s)))"
  using send_logon_cases [OF assms(2), of env now] assms
    conn_inv_view [of "fst (fst (send_logon_response_and_keep_alive env now s))" "fst s"]
    view_eq_fields(1) [of "fst (fst (send_logon_response_and_keep_alive env now s))" "fst s"]
  by (auto simp: authorized_as_def conn_inv_def Let_def)

definition totp_authorizes :: "login_env \<Rightarrow> string \<Rightarrow> connection \<Rightarrow> bool" where
  "totp_authorizes env code c \<longleftrightarrow> (\<exists>secret. require_2fa c = Some secret \<and> totp_check env secret code = Some True)"

lemma on_auth_2fa_cases:
  assumes inv: "conn_inv (fst s)"
  shows "let c = fst s; c' = fst (fst (on_auth_2fa env now code hw s))
         in conn_inv c' \<and> (authorized c \<longrightarrow> authorized c' \<and> authed_conn_id c' = authed_conn_id c)
            \<and> (\<not> authorized c \<and> authorized c' \<longrightarrow>
                 totp_authorizes env code c \<and> authed_conn_id c' = Some (target_type c))"
proof -
  obtain s1 ft ok where s1: "c_check_failure env now 1 Default s = (s1, ft, ok)" by (metis prod_cases3)
  have c1: "fst s1 = fst s" using c_check_failure_conn [of env now 1 Default s] unfolding s1 by simp
  show ?thesis
  proof (cases "ok \<and> totp_authorizes env code (fst s)")
    case False
    then have "fst (fst (on_auth_2fa env now code hw s)) = fst s"
      using c1 by (auto simp: on_auth_2fa_def s1 totp_authorizes_def simp del: One_nat_def split: bool.splits option.splits)
    with inv show ?thesis by simp
  next
    case True
    obtain c2 w2 where u: "c_update_failure env now ft True 1 Default s1 = (c2, w2)" by (meson surj_pair)
    have c2: "c2 = fst s" using c_update_failure_conn [of env now ft True 1 Default s1] c1 unfolding u by simp
    let ?s = "(c2\<lparr>require_2fa := None, two_factor := TF_Totp\<rparr>,
               w2\<lparr>w_reg := set_session_2fa now (c_session_key c2) (w_reg w2)\<rparr>)"
    obtain s3 k where s3: "send_logon_response_and_keep_alive env now ?s = (s3, k)" by (meson surj_pair)
    have eq: "fst (fst (on_auth_2fa env now code hw s)) = fst s3"
      using True c1 by (auto simp: on_auth_2fa_def s1 u s3 totp_authorizes_def try_start_cm_def Let_def
          simp del: One_nat_def split: bool.splits)
    have inv': "conn_inv (fst ?s)" using inv by (simp add: conn_inv_def c2)
    have tt: "target_type (fst ?s) = target_type (fst s)" by (simp add: target_type_def wants_port_forward_def c2)
    show ?thesis
    proof (cases "authorized (fst s)")
      case True
      then have "s3 = ?s" using s3 send_logon_authorized [of ?s env now] by (simp add: c2)
      with True inv' show ?thesis by (simp add: eq c2 Let_def)
    next
      case False
      then show ?thesis
        using send_logon_inv [OF inv', of env now] True unfolding s3 tt eq by (simp add: c2 Let_def)
    qed
  qed
qed

definition switch_authorizes :: "login_env \<Rightarrow> nat \<Rightarrow> login_request option \<Rightarrow> bytes \<Rightarrow> world \<Rightarrow> bool" where
  "switch_authorizes env now lr_opt uuid w \<longleftrightarrow>
     (\<exists>l u t0. lr_opt = Some l \<and> lr_union l = None \<and> uuid_from_slice env uuid = Some u
        \<and> w_tokens w (my_id l) = Some (t0, u) \<and> now - t0 < SWITCH_SIDES_TIMEOUT)"

lemma on_switch_sides_refused:
  assumes "\<not> switch_authorizes env now lr_opt uuid (snd s)"
  shows "fst (fst (on_switch_sides env now lr_opt uuid s)) = fst s"
proof (cases "lr_opt")
  case None
  then show ?thesis by (simp add: on_switch_sides_def)
next
  case (Some l)
  obtain c w where s: "s = (c, w)" by (meson surj_pair)
  have "\<forall>u t0. \<not> (uuid_from_slice env uuid = Some u \<and> retain_tokens now (w_tokens w) (my_id l) = Some (t0, u) \<and> lr_union l = None)"
    using assms Some by (auto simp: switch_authorizes_def retain_tokens_def s)
  then show ?thesis
    by (auto simp: on_switch_sides_def Some s Let_def split: option.splits)
qed

lemma on_switch_sides_cases:
  assumes inv: "conn_inv (fst s)"
  shows "let c = fst s; c' = fst (fst (on_switch_sides env now lr_opt uuid s))
         in conn_inv c' \<and> (authorized c \<longrightarrow> authorized c' \<and> authed_conn_id c' = authed_conn_id c)
            \<and> (\<not> authorized c \<and> authorized c' \<longrightarrow>
                 switch_authorizes env now lr_opt uuid (snd s) \<and> authed_conn_id c' = Some Remote)"
proof (cases "switch_authorizes env now lr_opt uuid (snd s) \<and> flutter env \<and> \<not> on_mobile env")
  case False
  then have "fst (fst (on_switch_sides env now lr_opt uuid s)) = fst s"
    using on_switch_sides_refused [of env now lr_opt uuid s] by (auto simp: on_switch_sides_def)
  with inv show ?thesis by simp
next
  case True
  then obtain l u t0 where l: "lr_opt = Some l" "lr_union l = None" "uuid_from_slice env uuid = Some u"
    "w_tokens (snd s) (my_id l) = Some (t0, u)" "now - t0 < SWITCH_SIDES_TIMEOUT"
    by (auto simp: switch_authorizes_def)
  then have tok: "retain_tokens now (w_tokens (snd s)) (my_id l) = Some (t0, u)"
    by (simp add: retain_tokens_def)
  define s0 where "s0 = (reset_session_scope_for_login (fst s),
      (snd s)\<lparr>w_tokens := map_remove (retain_tokens now (w_tokens (snd s))) (my_id l)\<rparr>)"
  define s1 where "s1 = handle_login_request_without_validation env l s0"
  let ?s = "((fst s1)\<lparr>from_switch := True, primary_auth := PA_SwitchSides\<rparr>, snd s1)"
  obtain s3 k where s3: "send_logon_response_and_keep_alive env now ?s = (s3, k)" by (meson surj_pair)
  have v: "view (fst (fst (on_switch_sides env now lr_opt uuid s))) = view (fst s3)"
    using True l tok s3 unfolding s1_def s0_def
    by (cases s) (auto simp: on_switch_sides_def Let_def split: bool.splits)
  note f = handle_login_fields [of env l s0, folded s1_def]
  have inv': "conn_inv (fst ?s)"
    using inv f by (simp add: conn_inv_def s0_def reset_session_scope_for_login_def)
  have same: "authorized (fst ?s) = authorized (fst s)" "authed_conn_id (fst ?s) = authed_conn_id (fst s)"
    using f by (simp_all add: s0_def reset_session_scope_for_login_def)
  show ?thesis
  proof (cases "authorized (fst s)")
    case True
    with same have "s3 = ?s" using s3 send_logon_authorized [of ?s env now] by simp
    then show ?thesis
      using True same inv' conn_inv_view [OF v] view_eq_fields(1,5) [OF v] by (simp add: Let_def)
  next
    case na: False
    have "file_transfer (fst s1) = None" "\<not> view_camera (fst s1)" "\<not> terminal (fst s1)"
      by (simp_all add: s1_def s0_def handle_login_request_without_validation_def
          reset_session_scope_for_login_def Let_def split: option.splits)
    moreover have "\<not> port_forward_socket (fst s1)" using inv na f by (simp add: conn_inv_def s0_def reset_session_scope_for_login_def)
    ultimately have "target_type (fst ?s) = Remote"
      using f(2) l(2) by (simp add: target_type_def wants_port_forward_def)
    then show ?thesis
      using send_logon_inv [OF inv', of env now] na same True conn_inv_view [OF v] view_eq_fields(1,5) [OF v]
      unfolding s3 by (simp add: Let_def)
  qed
qed

subsection \<open>One message\<close>

definition authorizes :: "login_env \<Rightarrow> nat \<Rightarrow> login_msg \<Rightarrow> st \<Rightarrow> auth_conn_type \<Rightarrow> bool" where
  "authorizes env now m s t \<longleftrightarrow>
     (case m of
        M_Login l \<Rightarrow> login_authorizes env now l s \<and> t = requested_type l
      | M_Auth2fa code _ \<Rightarrow> totp_authorizes env code (fst s) \<and> t = target_type (fst s)
      | M_SwitchSides lr_opt uuid \<Rightarrow> switch_authorizes env now lr_opt uuid (snd s) \<and> t = Remote
      | _ \<Rightarrow> False)"

text \<open>A step keeps the invariant, never takes an authorization back, and gives one only for a reason.\<close>

definition sound_step :: "(auth_conn_type \<Rightarrow> bool) \<Rightarrow> connection \<Rightarrow> connection \<Rightarrow> bool" where
  "sound_step reason c c' \<longleftrightarrow> conn_inv c'
     \<and> (authorized c \<longrightarrow> authorized c' \<and> authed_conn_id c' = authed_conn_id c)
     \<and> (\<not> authorized c \<and> authorized c' \<longrightarrow> (\<exists>t. authed_conn_id c' = Some t \<and> reason t))"

lemma sound_step_view: "conn_inv c \<Longrightarrow> view c' = view c \<Longrightarrow> sound_step R c c'"
  using conn_inv_view [of c' c] view_eq_fields(1,5) [of c' c] by (simp add: sound_step_def)

lemma on_close_fields:
  "authorized (fst (on_close env reason lock s)) = authorized (fst s)"
  "authed_conn_id (fst (on_close env reason lock s)) = authed_conn_id (fst s)"
  "conn_inv (fst s) \<Longrightarrow> conn_inv (fst (on_close env reason lock s))"
  by (auto simp: on_close_def conn_inv_def split: prod.splits)

lemma on_test_delay_view: "view (fst (fst (on_test_delay env now b s))) = view (fst s)"
  by (simp add: on_test_delay_def view_def Let_def split: prod.splits option.splits)

lemma on_scope_violation_step:
  assumes "conn_inv (fst s)"
  shows "sound_step R (fst s) (fst (fst (on_scope_violation env family s)))"
    and "snd (on_scope_violation env family s) \<noteq> Dispatch"
proof -
  obtain c w where s: "s = (c, w)" by (meson surj_pair)
  obtain seen es keep where h: "handle_authorized_scope_violation (allow_scope_alarm env) (allow_scope_close env)
      (scope_violation_messages c) family = (seen, es, keep)" by (metis prod_cases3)
  let ?s = "(c\<lparr>scope_violation_messages := seen\<rparr>,
      say (map ScopeEffect (filter (\<lambda>e. case e of ScopeAlarm _ \<Rightarrow> True | _ \<Rightarrow> False) es)) w)"
  have "conn_inv (fst (send_close_reason_no_retry r ?s))" "authorized (fst (send_close_reason_no_retry r ?s)) = authorized c"
    "authed_conn_id (fst (send_close_reason_no_retry r ?s)) = authed_conn_id c" for r
    using assms by (simp_all add: send_close_reason_no_retry_def s conn_inv_def)
  with assms show "sound_step R (fst s) (fst (fst (on_scope_violation env family s)))"
    by (auto simp: on_scope_violation_def s h Let_def sound_step_def on_close_fields)
      (simp add: conn_inv_def)
  show "snd (on_scope_violation env family s) \<noteq> Dispatch"
    by (simp add: on_scope_violation_def s h Let_def)
qed

lemma on_message_step:
  assumes inv: "conn_inv (fst s)"
  shows "sound_step (authorizes env now m s) (fst s) (fst (fst (on_message env now m s)))"
proof (cases "m = M_CloseReason")
  case True
  obtain c w where c: "on_close env ''Peer close'' True s = (c, w)" by (meson surj_pair)
  with on_close_fields [where env = env and reason = "''Peer close''" and lock = True and s = s] inv
  have "authorized c = authorized (fst s)" "authed_conn_id c = authed_conn_id (fst s)" "conn_inv c" by simp_all
  with True c show ?thesis by (simp add: on_message_def sound_step_def)
next
  case False
  define v where "v = (if authorized (fst s)
      then authorized_scope_violation (on_windows env) (authed_conn_id (fst s)) (as_message m) else None)"
  show ?thesis
  proof (cases "(authorized (fst s) \<and> is_login m) \<or> v \<noteq> None")
    case True
    with False inv show ?thesis
      using on_scope_violation_step(1) [OF inv]
      by (auto simp: on_message_def v_def [symmetric] sound_step_view)
  next
    case pass: False
    then have eq: "on_message env now m s =
       (case m of
          M_Login l \<Rightarrow> keep_if (on_login_request env now l s)
        | M_Auth2fa code hw \<Rightarrow> keep_if (on_auth_2fa env now code hw s)
        | M_TestDelay from_client \<Rightarrow> on_test_delay env now from_client s
        | M_SwitchSides lr_opt uuid \<Rightarrow> keep_if (on_switch_sides env now lr_opt uuid s)
        | _ \<Rightarrow> (s, if authorized (fst s) \<and> \<not> port_forward_socket (fst s) then Dispatch else Keep))"
      using False by (auto simp: on_message_def v_def [symmetric])
    show ?thesis
    proof (cases m)
      case (M_Login l)
      with pass have "\<not> authorized (fst s)" by (auto simp: is_login_def)
      with on_login_request_cases [OF inv this, where env = env and now = now and l = l] M_Login show ?thesis
        unfolding eq by (auto simp: keep_if_def sound_step_def authorizes_def conn_inv_def)
    next
      case (M_Auth2fa code hw)
      with on_auth_2fa_cases [OF inv, where env = env and now = now and code = code and hw = hw] show ?thesis
        unfolding eq by (simp add: keep_if_def sound_step_def authorizes_def Let_def)
    next
      case (M_SwitchSides lr_opt uuid)
      with on_switch_sides_cases [OF inv, where env = env and now = now and lr_opt = lr_opt and uuid = uuid] show ?thesis
        unfolding eq by (simp add: keep_if_def sound_step_def authorizes_def Let_def)
    next
      case (M_TestDelay b)
      with inv show ?thesis unfolding eq by (simp add: sound_step_view on_test_delay_view)
    next
      case (M_Other msg)
      with inv show ?thesis unfolding eq by (simp add: sound_step_view)
    next
      case M_CloseReason
      with False show ?thesis by simp
    qed
  qed
qed

section \<open>Reachable connections\<close>

definition new_connection :: "connection \<Rightarrow> bool" where
  "new_connection c \<longleftrightarrow> \<not> authorized c \<and> authed_conn_id c = None \<and> \<not> port_forward_socket c"

text \<open>
  A connection starts unauthorized, receives messages of its peer and clicks of the local user, and
  shares its world with others that may change it; configuration and system may change in between.
\<close>

inductive conn_reachable :: "st \<Rightarrow> bool" where
  started: "new_connection c \<Longrightarrow> conn_reachable (c, w)"
| message: "conn_reachable s \<Longrightarrow> conn_reachable (fst (on_message env now m s))"
| clicked: "conn_reachable s \<Longrightarrow> conn_reachable (fst (on_cm_authorize env now s))"
| others: "conn_reachable (c, w) \<Longrightarrow> conn_reachable (c, w')"

lemma on_cm_authorize_inv:
  assumes "conn_inv (fst s)"
  shows "conn_inv (fst (fst (on_cm_authorize env now s)))"
proof -
  let ?s = "((fst s)\<lparr>primary_auth := PA_Click, require_2fa := None\<rparr>, snd s)"
  have inv: "conn_inv (fst ?s)" using assms by (simp add: conn_inv_def)
  obtain s1 k where s1: "send_logon_response_and_keep_alive env now ?s = (s1, k)" by (meson surj_pair)
  have "conn_inv (fst s1)"
  proof (cases "authorized (fst s)")
    case True
    with s1 send_logon_authorized [of ?s env now] inv show ?thesis by simp
  next
    case False
    with send_logon_inv [OF inv, where env = env and now = now] show ?thesis unfolding s1 by (simp add: Let_def)
  qed
  then show ?thesis by (simp add: on_cm_authorize_def s1 split: bool.splits)
qed

lemma conn_inv_reachable: "conn_reachable s \<Longrightarrow> conn_inv (fst s)"
proof (induction rule: conn_reachable.induct)
  case (message s env now m)
  with on_message_step [OF message.IH, of env now m] show ?case by (simp add: sound_step_def)
next
  case (clicked s env now)
  then show ?case by (intro on_cm_authorize_inv)
qed (simp_all add: new_connection_def conn_inv_def)

section \<open>Properties\<close>

text \<open>
  C1. Which messages authorize a connection, and as what. In every reachable state a message that
  turns an unauthorized connection into an authorized one is of one of three kinds:
  (1) a login request, while the host does not insist on a click, with a valid password or the one of
  a recent session, whose second factor is not required, or settled by a trusted device, a switch of
  sides or a recent session, and for a kind of session that the host permits; the session has that kind;
  (2) a correct code of the second factor; the session has the kind that the requests before it have
  left in the connection, and neither the password nor the permission is checked with the code;
  (3) a switch-sides response that carries the pending token of that peer within its time limit; the
  session is a remote one, and the permission for it is not checked.
  The click of the user at the host, who can always accept, is not a message.
\<close>

theorem only_credentials_authorize:
  assumes "conn_reachable s" "\<not> authorized (fst s)" "on_message env now m s = (s', v)" "authorized (fst s')"
  shows "\<exists>t. authed_conn_id (fst s') = Some t \<and> authorizes env now m s t"
  using on_message_step [OF conn_inv_reachable [OF assms(1)], of env now m] assms
  by (simp add: sound_step_def)

text \<open>
  A message reaches the handlers of a session only when the connection is authorized and the
  policy table lists its session type for the message; a port forwarding session gets none.
\<close>

theorem dispatch_in_scope:
  assumes "conn_reachable s" "on_message env now m s = (s', Dispatch)"
  shows "authorized (fst s) \<and> (\<exists>t. authed_conn_id (fst s) = Some t \<and> \<not> port_forward_socket (fst s)
           \<and> t \<in> message_scopes (on_windows env) (as_message m))"
proof -
  have inv: "conn_inv (fst s)" using assms(1) by (rule conn_inv_reachable)
  have no: "on_scope_violation env f s \<noteq> (s', Dispatch)" for f
    using on_scope_violation_step(2) [OF inv, of env f] by auto
  have delay: "on_test_delay env now b s \<noteq> (s', Dispatch)" for b
    by (auto simp: on_test_delay_def Let_def split: prod.splits option.splits)
  have "authorized (fst s) \<and> \<not> port_forward_socket (fst s)
      \<and> authorized_scope_violation (on_windows env) (authed_conn_id (fst s)) (as_message m) = None"
    using assms(2) no delay
    by (auto simp: on_message_def keep_if_def split: if_splits option.splits login_msg.splits prod.splits)
  with inv show ?thesis
    by (auto simp: conn_inv_def authorized_scope_violation_def violation_iff)
qed

lemma rotation_step:
  assumes "temporary_enabled env" "temporary_password w \<noteq> []" "tp_password w = temporary_password w"
    and "0 \<le> tp_failures w" "tp_failures w < 10"
  shows "check_update_temporary_password env False w =
     (if tp_failures w = 9
      then let p = new_temporary_password env (temporary_password w)
           in w\<lparr>temporary_password := p, tp_password := p, tp_failures := 0\<rparr>
      else w\<lparr>tp_failures := tp_failures w + 1\<rparr>)"
  using assms by (simp add: check_update_temporary_password_def MAX_CONSECUTIVE_FAILURES_def Let_def)

text \<open>
  The temporary password is replaced after every ten wrong guesses in a row, whatever the
  guesses are: after \<open>n\<close> of them it has been replaced \<open>n div 10\<close> times.
\<close>

theorem temporary_password_rotates:
  assumes "temporary_enabled env" "\<And>p. new_temporary_password env p \<noteq> []"
    and "temporary_password w \<noteq> []" "tp_password w = temporary_password w" "tp_failures w = 0"
  shows "temporary_password ((check_update_temporary_password env False ^^ n) w)
           = (new_temporary_password env ^^ (n div 10)) (temporary_password w)
         \<and> tp_failures ((check_update_temporary_password env False ^^ n) w) = int (n mod 10)"
proof -
  let ?w = "\<lambda>n. (check_update_temporary_password env False ^^ n) w"
  let ?new = "new_temporary_password env"
  have "temporary_password (?w n) = (?new ^^ (n div 10)) (temporary_password w)
      \<and> tp_password (?w n) = temporary_password (?w n) \<and> temporary_password (?w n) \<noteq> []
      \<and> tp_failures (?w n) = int (n mod 10)" for n
  proof (induction n)
    case 0
    with assms show ?case by simp
  next
    case (Suc n)
    have step: "?w (Suc n) = (if n mod 10 = 9
        then let p = ?new (temporary_password (?w n))
             in (?w n)\<lparr>temporary_password := p, tp_password := p, tp_failures := 0\<rparr>
        else (?w n)\<lparr>tp_failures := tp_failures (?w n) + 1\<rparr>)"
      using Suc.IH rotation_step [OF assms(1), of "?w n"] by auto
    have "Suc n div 10 = (if n mod 10 = 9 then Suc (n div 10) else n div 10)"
      "Suc n mod 10 = (if n mod 10 = 9 then 0 else Suc (n mod 10))" by (simp_all add: mod_Suc div_Suc)
    with Suc.IH assms(2) show ?case unfolding step by (auto simp: Let_def)
  qed
  then show ?thesis by blast
qed

text \<open>
  A login attempt with a wrong password is one failed attempt on the counters of the address and
  of its IPv6 networks, leaves the connection unauthorized, and keeps it open.
\<close>

theorem wrong_password_counts:
  assumes "\<not> password_ok env c w" "password_login env now l err (c, w) = ((c', w'), keep)"
  shows "w_guard w' = fst (failed_attempt (net env) 0 (c_ip c, int now) (w_guard w)) \<and> keep \<and> view c' = view c"
proof -
  obtain g es ft ok where g: "check_failure_with_scope (net env) (c_ip c) (int now) 0 Default (w_guard w) = (g, es, ft, ok)"
    by (metis prod_cases4)
  let ?w = "say (guard_effects es) (w\<lparr>w_guard := g\<rparr>)"
  have "password_ok env c ?w = password_ok env c w" by (simp add: password_ok_def)
  with assms(1) validate_password_result [of env now c ?w]
  have "\<not> snd (validate_password env now (allow_logon_screen_password env) (c, ?w))" by simp
  then have v: "validate_password env now (allow_logon_screen_password env) (c, ?w) = ((c, ?w), False)"
    by (auto simp: validate_password_def Let_def case_prod_beta split: if_splits)
  have cut: "w_guard (check_update_temporary_password env b x) = w_guard x" for b x
    by (simp add: check_update_temporary_password_def Let_def)
  show ?thesis using assms(2)
    by (auto simp: password_login_def c_check_failure_def g v c_update_failure_def failed_attempt_def
        check_failure_def update_failure_def cut try_start_cm_def login_err_def Let_def
        split: bool.splits if_splits)
qed

section \<open>A concrete host\<close>

text \<open>An instance of the parameters: the hash is the identity, one code passes the second factor.\<close>

definition sample_env :: login_env where
  "sample_env = \<lparr>sha256 = (\<lambda>b. b), temporary_enabled = True, permanent_enabled = False,
     new_temporary_password = (\<lambda>p. CHR ''x'' # p), local_storage_and_salt = ([], []),
     preset_storage_and_salt = ([], []), local_usable = (\<lambda>_ _. False), preset_usable = (\<lambda>_ _. False),
     decode_permanent_h1 = (\<lambda>_. None), decode_preset_h1 = (\<lambda>_. None), approve_mode_opt = ApproveBoth,
     has_valid_password = True, allow_logon_screen_password = False, config_id = ''host'',
     direct_ip_access = (\<lambda>_. False), get_version_number = (\<lambda>_. 0),
     perm_env = \<lparr>access_mode = ''full'', option_enabled = (\<lambda>_. True), permission_value = (\<lambda>_. 0), desktop_flutter = True\<rparr>,
     trusted_devices_enabled = False, device_outdated = (\<lambda>_. False),
     add_trusted_device = (\<lambda>d ds. ds @ [d]), totp_check = (\<lambda>secret code. Some (secret = code)),
     telegram_bot = False, uuid_from_slice = Some,
     net = \<lparr>ipv6_from_str = (\<lambda>_. None), ipv6_to_string = (\<lambda>_. [])\<rparr>, in_privacy_mode = False,
     tcp_connect = (\<lambda>_. True), service_specified_user = (\<lambda>_. None), supports_print = (\<lambda>_ _. False),
     enable_abr = ''Y'', allow_scope_alarm = True, allow_scope_close = False, on_windows = False,
     on_linux = False, on_mobile = False, flutter = True, is_installed = True, is_prelogin = False,
     headless_allowed = False, desktop_user = [], start_desktop = (\<lambda>_ _. []), os_gate_free = True,
     logon_user_admin = (\<lambda>_ _. False), current_session_id = 0, get_user_token = (\<lambda>_. 0),
     ensure_primary_token = (\<lambda>_. None)\<rparr>"

definition sample_conn :: connection where
  "sample_conn = \<lparr>c_id = 1, c_ip = ''10.0.0.1'', salt = [1], challenge = [2], lr = default_login_request,
     authorized = False, require_2fa = None, file_transfer = None, view_camera = False, terminal = False,
     port_forward_address = [], port_forward_socket = False, c_terminal_persistent = False,
     terminal_service_id = [], terminal_user_tok = None, from_switch = False, options_in_login = None,
     video_ack_required = False, primary_auth = PA_None, two_factor = TF_None, authed_conn_id = None,
     session_last_recv_time = None, control_permissions = None, scope_violation_messages = {},
     last_test_delay = None, network_delay = 0, start_cm_ipc_para = True, closed = False,
     c_lock_after_session_end = False, keyboard = True, chat_unanswered = False, file_transferred = False\<rparr>"

definition sample_world :: world where
  "sample_world = \<lparr>w_reg = empty_registry 0,
     w_guard = \<lparr>login_failures = (\<lambda>_. Map.empty), os_credential_state = default_os_credential_failure_state\<rparr>,
     temporary_password = ''pw'', tp_password = ''pw'', tp_failures = 0, w_tokens = Map.empty, devices = [], out = []\<rparr>"

definition sample_login :: login_request where
  "sample_login = default_login_request\<lparr>username := ''host'', my_id := ''peer'',
     lr_password := str_bytes ''pw'' @ [1, 2]\<rparr>"

lemma sample_reachable: "conn_reachable (sample_conn, sample_world)"
  by (rule started) (simp add: new_connection_def sample_conn_def)

lemma sample_login_ok: "authorized (fst (fst (on_message sample_env 5 (M_Login sample_login) (sample_conn, sample_world))))"
  by code_simp

theorem only_credentials_authorize_witness:
  "\<exists>s'. fst (on_message sample_env 5 (M_Login sample_login) (sample_conn, sample_world)) = s'
     \<and> authed_conn_id (fst s') = Some Remote \<and> login_authorizes sample_env 5 sample_login (sample_conn, sample_world)"
proof -
  obtain s' v where s': "on_message sample_env 5 (M_Login sample_login) (sample_conn, sample_world) = (s', v)"
    by (meson surj_pair)
  have "requested_type sample_login = Remote"
    by (simp add: requested_type_def sample_login_def default_login_request_def)
  moreover have "\<not> authorized (fst (sample_conn, sample_world))" by (simp add: sample_conn_def)
  ultimately show ?thesis
    using only_credentials_authorize [OF sample_reachable _ s'] sample_login_ok
    by (auto simp: s' authorizes_def)
qed

definition sample_session :: st where
  "sample_session = fst (on_message sample_env 5 (M_Login sample_login) (sample_conn, sample_world))"

lemma sample_session_reachable: "conn_reachable sample_session"
  unfolding sample_session_def by (rule message [OF sample_reachable])

theorem dispatch_in_scope_witness:
  "\<exists>t. authed_conn_id (fst sample_session) = Some t
       \<and> t \<in> message_scopes (on_windows sample_env) (as_message (M_Other (Some (MouseEvent ()))))"
proof -
  have "snd (on_message sample_env 6 (M_Other (Some (MouseEvent ()))) sample_session) = Dispatch" by code_simp
  then obtain s' where "on_message sample_env 6 (M_Other (Some (MouseEvent ()))) sample_session = (s', Dispatch)"
    by (metis prod.collapse)
  from dispatch_in_scope [OF sample_session_reachable this] show ?thesis by blast
qed

theorem temporary_password_rotates_witness:
  "temporary_password ((check_update_temporary_password sample_env False ^^ 25) sample_world) = ''xxpw''"
  using temporary_password_rotates [of sample_env sample_world 25]
  by (simp add: sample_env_def sample_world_def numeral_2_eq_2)

theorem wrong_password_counts_witness:
  "login_failures (w_guard (snd (fst (password_login sample_env 5 sample_login [] (sample_conn, sample_world))))) 0 ''10.0.0.1''
     = Some (0, 1, 1)"
proof -
  obtain c' w' keep where r: "password_login sample_env 5 sample_login [] (sample_conn, sample_world) = ((c', w'), keep)"
    by (metis prod.collapse)
  have "\<not> password_ok sample_env sample_conn sample_world" by code_simp
  moreover have "login_failures (fst (failed_attempt (net sample_env) 0 (c_ip sample_conn, int 5) (w_guard sample_world))) 0 ''10.0.0.1''
     = Some (0, 1, 1)" by code_simp
  ultimately show ?thesis using wrong_password_counts [OF _ r] by (simp add: r)
qed

text \<open>
  C31. A correct code of the second factor authorizes the connection on its own: the handler of
  \<open>Auth2fa\<close> asks neither whether a password was accepted before nor whether the local user has
  approved, so a client that has sent no login request, or only wrong passwords, is let in.
\<close>

theorem totp_code_suffices:
  assumes "require_2fa c = Some secret" "totp_check env secret code = Some True"
    and "\<not> authorized c" "\<not> terminal c" "\<not> port_forward_socket c" "lr_union (lr c) = None"
    and "snd (snd (c_check_failure env now 1 Default (c, w)))"
  shows "authorized (fst (fst (on_message env now (M_Auth2fa code hw) (c, w))))"
proof -
  obtain s1 ft where s1: "c_check_failure env now 1 Default (c, w) = (s1, ft, True)"
    using assms(7) by (metis (full_types) prod.collapse)
  have "fst s1 = c" using c_check_failure_conn [of env now 1 Default "(c, w)"] unfolding s1 by simp
  then obtain w1 where s1': "s1 = (c, w1)" by (metis prod.collapse)
  have prep: "prepare_terminal_login_for_authorization env now (c\<lparr>require_2fa := None, two_factor := TF_Totp\<rparr>, x)
      = ((c\<lparr>require_2fa := None, two_factor := TF_Totp\<rparr>, x), None)" for x
    using assms(4) by (simp add: prepare_terminal_login_for_authorization_def)
  have conn: "connect_port_forward_if_needed env (c\<lparr>require_2fa := None, two_factor := TF_Totp\<rparr>, x)
      = ((c\<lparr>require_2fa := None, two_factor := TF_Totp\<rparr>, x), True)" for x
    using assms(6) by (simp add: connect_port_forward_if_needed_def)
  show ?thesis
    using assms(1-3)
    by (simp add: on_message_def is_login_def keep_if_def on_auth_2fa_def s1 s1' c_update_failure_def
        send_logon_response_and_keep_alive_def prep conn try_start_cm_def case_prod_beta Let_def
        del: One_nat_def)
qed

theorem totp_code_suffices_witness:
  "authorized (fst (fst (on_message sample_env 5 (M_Auth2fa ''123'' []) (sample_conn\<lparr>require_2fa := Some ''123''\<rparr>, sample_world))))"
proof (rule totp_code_suffices)
  show "snd (snd (c_check_failure sample_env 5 1 Default (sample_conn\<lparr>require_2fa := Some ''123''\<rparr>, sample_world)))"
    by code_simp
qed (simp_all add: sample_conn_def sample_env_def default_login_request_def)

end
