(* ===== verification/Utf8.thy ===== *)
theory Utf8
  imports Prelude
begin

unbundle bit_operations_syntax

text \<open>
  Well-formed UTF-8, as \<open>str::from_utf8\<close> of the standard library decides it, and the facts on
  beginnings and ends of well-formed text that the terminal output path and the archive reader use.
\<close>

text \<open>
  \<open>str::from_utf8\<close> of the standard library: the length of the well-formed character at the front,
  and a whole slice of such characters.
\<close>

definition is_cont :: "byte \<Rightarrow> bool" where "is_cont b \<longleftrightarrow> b AND 0xC0 = 0x80"

definition utf8_first :: "bytes \<Rightarrow> nat option" where
  "utf8_first bs =
     (case bs of
        [] \<Rightarrow> None
      | a # bs \<Rightarrow>
          if a AND 0x80 = 0 then Some 1
          else if a AND 0xE0 = 0xC0
          then (case bs of b # _ \<Rightarrow> if a \<ge> 0xC2 \<and> is_cont b then Some 2 else None | _ \<Rightarrow> None)
          else if a AND 0xF0 = 0xE0
          then (case bs of
                  b # c # _ \<Rightarrow>
                    if is_cont b \<and> is_cont c \<and> (a = 0xE0 \<longrightarrow> b \<ge> 0xA0) \<and> (a = 0xED \<longrightarrow> b \<le> 0x9F) then Some 3 else None
                | _ \<Rightarrow> None)
          else if a AND 0xF8 = 0xF0
          then (case bs of
                  b # c # d # _ \<Rightarrow>
                    if is_cont b \<and> is_cont c \<and> is_cont d \<and> a \<le> 0xF4 \<and> (a = 0xF0 \<longrightarrow> b \<ge> 0x90) \<and> (a = 0xF4 \<longrightarrow> b \<le> 0x8F)
                    then Some 4 else None
                | _ \<Rightarrow> None)
          else None)"

lemma utf8_first_bounds: "utf8_first bs = Some n \<Longrightarrow> 0 < n \<and> n \<le> 4 \<and> n \<le> length bs"
  by (auto simp: utf8_first_def split: list.splits if_splits)

function utf8_valid :: "bytes \<Rightarrow> bool" where
  "utf8_valid bs =
     (if bs = [] then True
      else case utf8_first bs of None \<Rightarrow> False | Some n \<Rightarrow> utf8_valid (drop n bs))"
  by auto
termination by (relation "measure length") (auto dest: utf8_first_bounds)

declare utf8_valid.simps [simp del]

text \<open>The length a lead byte announces.\<close>

definition seq_len :: "byte \<Rightarrow> nat option" where
  "seq_len b =
     (if b AND 0x80 = 0 then Some 1 else if b AND 0xE0 = 0xC0 then Some 2
      else if b AND 0xF0 = 0xE0 then Some 3 else if b AND 0xF8 = 0xF0 then Some 4 else None)"

lemma mask_of_mask:
  fixes a :: byte
  assumes "a AND m = v" "m AND 0xC0 = 0xC0"
  shows "a AND 0xC0 = v AND 0xC0"
  using assms by (metis and.assoc)

lemma cont_high:
  assumes "is_cont b"
  shows "b AND 0x80 \<noteq> 0"
proof -
  have "(b AND 0xC0) AND 0x80 = b AND 0x80" by (simp add: and.assoc)
  with assms show ?thesis by (auto simp: is_cont_def)
qed

lemma seq_len_not_cont:
  assumes "seq_len b = Some n"
  shows "\<not> is_cont b"
proof -
  from assms cont_high [of b] mask_of_mask [of b "0xE0" "0xC0"] mask_of_mask [of b "0xF0" "0xE0"] mask_of_mask [of b "0xF8" "0xF0"]
  show ?thesis by (auto simp: seq_len_def is_cont_def split: if_splits)
qed

lemma utf8_first_seq:
  assumes "utf8_first bs = Some n"
  shows "bs \<noteq> []" "seq_len (hd bs) = Some n" "0 < i \<Longrightarrow> i < n \<Longrightarrow> is_cont (bs ! i)"
proof -
  show "bs \<noteq> []" "seq_len (hd bs) = Some n"
    using assms by (auto simp: utf8_first_def seq_len_def split: list.splits if_splits)
  show "is_cont (bs ! i)" if "0 < i" "i < n"
    using assms that by (auto simp: utf8_first_def less_Suc_eq numeral_eq_Suc split: list.splits if_splits)
qed

lemma byte_shapes:
  obtains "bs = []" | a where "bs = [a]" | a b where "bs = [a, b]" | a b c where "bs = [a, b, c]"
  | a b c d x where "bs = a # b # c # d # x"
  by (metis neq_Nil_conv)

lemma utf8_first_append: "utf8_first bs = Some n \<Longrightarrow> utf8_first (bs @ x) = Some n"
proof (cases bs rule: byte_shapes)
  case (5 a b c d y)
  moreover have "utf8_first (a # b # c # d # y @ x) = utf8_first (a # b # c # d # y)"
    by (simp add: utf8_first_def)
  ultimately show "utf8_first bs = Some n \<Longrightarrow> ?thesis" by simp
qed (simp_all add: utf8_first_def split: if_split_asm)

lemma utf8_first_char: "utf8_first bs = Some n \<Longrightarrow> utf8_first (take n bs) = Some n"
  by (cases bs rule: byte_shapes) (auto simp: utf8_first_def numeral_eq_Suc split: if_splits)

lemma utf8_first_take: "utf8_first bs = Some n \<Longrightarrow> utf8_first (take n bs @ x) = Some n"
  by (intro utf8_first_append utf8_first_char)

lemma utf8_valid_Nil [simp]: "utf8_valid []"
  by (simp add: utf8_valid.simps)

lemma utf8_valid_step: "utf8_first bs = Some n \<Longrightarrow> utf8_valid bs = utf8_valid (drop n bs)"
  using utf8_first_seq(1) [of bs n] by (subst utf8_valid.simps) simp

lemma utf8_valid_cases:
  assumes "utf8_valid bs" "bs \<noteq> []"
  obtains n where "utf8_first bs = Some n" "utf8_valid (drop n bs)"
  using assms by (subst (asm) utf8_valid.simps) (auto split: option.splits)

lemma utf8_valid_append:
  "utf8_valid a \<Longrightarrow> utf8_valid (a @ b) = utf8_valid b"
proof (induction a rule: utf8_valid.induct)
  case (1 a)
  show ?case
  proof (cases "a = []")
    case False
    with "1.prems" obtain n where n: "utf8_first a = Some n" "utf8_valid (drop n a)"
      by (rule utf8_valid_cases)
    have "utf8_first (a @ b) = Some n" using n(1) by (rule utf8_first_append)
    then show ?thesis
      using "1.IH" [OF False n] utf8_first_bounds [OF n(1)] by (simp add: utf8_valid_step)
  qed simp
qed

text \<open>A proper beginning of a character, and the decomposition of a beginning of valid text.\<close>

definition unfinished :: "bytes \<Rightarrow> bool" where
  "unfinished p \<longleftrightarrow> p \<noteq> [] \<and> (\<exists>s n. utf8_first (p @ s) = Some n \<and> length p < n)"

lemma valid_prefix_split:
  "utf8_valid (xs @ ys) \<Longrightarrow> \<exists>v p. xs = v @ p \<and> utf8_valid v \<and> (p = [] \<or> unfinished p)"
proof (induction "length xs" arbitrary: xs rule: less_induct)
  case less
  show ?case
  proof (cases "xs = []")
    case False
    with less.prems obtain n where n: "utf8_first (xs @ ys) = Some n" "utf8_valid (drop n (xs @ ys))"
      by (auto elim: utf8_valid_cases)
    show ?thesis
    proof (cases "length xs < n")
      case True
      with n(1) False show ?thesis unfolding unfinished_def by (intro exI [of _ "[]"] exI [of _ xs]) auto
    next
      case long: False
      with n utf8_first_bounds [OF n(1)] False less.hyps [of "drop n xs"] obtain v p where
        vp: "drop n xs = v @ p" "utf8_valid v" "p = [] \<or> unfinished p" by auto
      have c: "utf8_first (take n xs) = Some n" using utf8_first_char [OF n(1)] long by simp
      then have "utf8_valid (take n xs @ v)"
        using long vp(2) utf8_first_take [OF c, of v] by (simp add: utf8_valid_step)
      moreover have "xs = (take n xs @ v) @ p" using vp(1) by (metis append.assoc append_take_drop_id)
      ultimately show ?thesis using vp(3) by blast
    qed
  qed simp
qed

lemma valid_last_char:
  "utf8_valid v \<Longrightarrow> v \<noteq> [] \<Longrightarrow> \<exists>w c. v = w @ c \<and> utf8_first c = Some (length c)"
proof (induction "length v" arbitrary: v rule: less_induct)
  case less
  from less.prems obtain n where n: "utf8_first v = Some n" "utf8_valid (drop n v)" by (rule utf8_valid_cases)
  note b = utf8_first_bounds [OF n(1)]
  show ?case
  proof (cases "drop n v = []")
    case True
    with n b show ?thesis by (intro exI [of _ "[]"] exI [of _ v]) auto
  next
    case False
    then have "length (drop n v) < length v" using b unfolding length_drop by linarith
    from less.hyps [OF this n(2) False] obtain w c where "drop n v = w @ c" "utf8_first c = Some (length c)" by blast
    then show ?thesis by (metis append.assoc append_take_drop_id)
  qed
qed

end
