(* ===== verification/TerminalBuffer.thy ===== *)
theory TerminalBuffer
  imports Utf8 "HOL-Library.Sublist"
begin

unbundle bit_operations_syntax

text \<open>
  The output path of a terminal in \<open>src/server/terminal_service.rs\<close>: the replay buffer kept for a
  client that reconnects, the accumulator that keeps characters of several bytes together, and the
  bounded channel between reader and sender. The theorems show what the buffer contains and how
  large it gets, that no byte is lost or reordered, and that well-formed UTF-8 stays well formed in
  every chunk.
\<close>

section \<open>The replay buffer\<close>

definition MAX_OUTPUT_BUFFER_SIZE :: nat where "MAX_OUTPUT_BUFFER_SIZE = 1024 * 1024"
definition MAX_BUFFER_LINES :: nat where "MAX_BUFFER_LINES = 10000"

record output_buffer =
  ob_lines :: "bytes list"
  total_size :: nat
  last_line_incomplete :: bool

definition output_buffer_new :: output_buffer where
  "output_buffer_new = \<lparr>ob_lines = [], total_size = 0, last_line_incomplete = False\<rparr>"

definition newline :: byte where "newline = 10"

text \<open>
  The lines of the remaining data, as the loop over \<open>split\<close> pushes them: every piece but the last
  with its newline, the last one only when it is not empty.
\<close>

definition pushed_lines :: "bytes \<Rightarrow> bytes list" where
  "pushed_lines remaining =
     (let ls = split_on (\<lambda>b. b = newline) remaining;
          ends_with_newline = (remaining \<noteq> [] \<and> last remaining = newline)
      in map (\<lambda>l. l @ [newline]) (butlast ls)
         @ (if last ls = [] then [] else [last ls @ (if ends_with_newline then [newline] else [])]))"

fun trim_buffer :: "bytes list \<Rightarrow> nat \<Rightarrow> bool \<Rightarrow> output_buffer" where
  "trim_buffer [] n inc =
     (if n > MAX_OUTPUT_BUFFER_SIZE \<or> length ([] :: bytes list) > MAX_BUFFER_LINES
      then \<lparr>ob_lines = [], total_size = 0, last_line_incomplete = False\<rparr>
      else \<lparr>ob_lines = [], total_size = n, last_line_incomplete = inc\<rparr>)"
| "trim_buffer (l # ls) n inc =
     (if n > MAX_OUTPUT_BUFFER_SIZE \<or> length (l # ls) > MAX_BUFFER_LINES
      then trim_buffer ls (if length l > n then sum_list (map length ls) else n - length l)
             (if ls = [] then False else inc)
      else \<lparr>ob_lines = l # ls, total_size = n, last_line_incomplete = inc\<rparr>)"

definition append_lines :: "bytes \<Rightarrow> output_buffer \<Rightarrow> output_buffer" where
  "append_lines remaining b =
     (let ls = pushed_lines remaining;
          ends_with_newline = (remaining \<noteq> [] \<and> last remaining = newline);
          inc = (if \<not> ends_with_newline \<and> last (split_on (\<lambda>b. b = newline) remaining) \<noteq> [] then True
                 else last_line_incomplete b)
      in trim_buffer (ob_lines b @ ls) (total_size b + sum_list (map length ls)) inc)"

definition append :: "bytes \<Rightarrow> output_buffer \<Rightarrow> output_buffer" where
  "append data b =
     (if data = [] then b
      else if last_line_incomplete b \<and> ob_lines b \<noteq> []
      then
        let last_line = last (ob_lines b); front = butlast (ob_lines b);
            head = takeWhile (\<lambda>x. x \<noteq> newline) data
        in if newline \<in> set data
           then append_lines (drop (length head + 1) data)
                  (b\<lparr>ob_lines := front @ [last_line @ take (length head + 1) data],
                     total_size := total_size b + (length head + 1), last_line_incomplete := False\<rparr>)
           else b\<lparr>ob_lines := front @ [last_line @ data], total_size := total_size b + length data\<rparr>
      else append_lines data b)"

text \<open>Offset of the tail of an oversized line, moved past at most three continuation bytes.\<close>

fun align_offset :: "bytes \<Rightarrow> nat \<Rightarrow> nat \<Rightarrow> nat" where
  "align_offset line 0 offset = offset"
| "align_offset line (Suc k) offset =
     (if offset < length line \<and> line ! offset AND 0xC0 = 0x80 then align_offset line k (offset + 1)
      else offset)"

fun recent_chunks :: "nat \<Rightarrow> nat \<Rightarrow> bytes list \<Rightarrow> bytes list" where
  "recent_chunks max_bytes sz [] = []"
| "recent_chunks max_bytes sz (line # older) =
     (if sz + length line > max_bytes
      then if sz = 0 \<and> length line > max_bytes
           then let offset = align_offset line 3 (length line - max_bytes)
                in if offset < length line then [drop offset line] else []
           else []
      else line # recent_chunks max_bytes (sz + length line) older)"

definition get_recent :: "nat \<Rightarrow> output_buffer \<Rightarrow> bytes" where
  "get_recent max_bytes b =
     (if max_bytes = 0 then [] else concat (rev (recent_chunks max_bytes 0 (rev (ob_lines b)))))"

section \<open>Characters of several bytes\<close>

fun utf8_scan :: "bytes \<Rightarrow> nat \<Rightarrow> nat \<Rightarrow> nat" where
  "utf8_scan buf start 0 = length buf"
| "utf8_scan buf start (Suc j) =
     (let i = start + j; b = buf ! i
      in if b AND 0x80 = 0 then length buf
         else if b AND 0xC0 = 0x80 then utf8_scan buf start j
         else if b AND 0xE0 = 0xC0 then (if length buf - i \<ge> 2 then length buf else i)
         else if b AND 0xF0 = 0xE0 then (if length buf - i \<ge> 3 then length buf else i)
         else if b AND 0xF8 = 0xF0 then (if length buf - i \<ge> 4 then length buf else i)
         else length buf)"

definition find_utf8_split_point :: "bytes \<Rightarrow> nat" where
  "find_utf8_split_point buf =
     (if buf = [] then 0
      else let start = length buf - 3 in utf8_scan buf start (length buf - start))"

text \<open>The accumulator is its remainder; \<open>push_chunk\<close> and \<open>finish\<close> return what is passed on.\<close>

definition push_chunk :: "bytes \<Rightarrow> bytes \<Rightarrow> bytes \<times> bytes option" where
  "push_chunk data remainder =
     (if data = [] then (remainder, None)
      else
        let had_remainder = (remainder \<noteq> []);
            data = remainder @ data;
            split = find_utf8_split_point data
        in if split = length data then ([], Some data)
           else if \<not> had_remainder \<and> split > 0 \<and> \<not> utf8_valid (take split data) then ([], Some data)
           else (drop split data, if take split data = [] then None else Some (take split data)))"

definition finish :: "bytes \<Rightarrow> bytes \<times> bytes option" where
  "finish remainder = (if remainder = [] then ([], None) else ([], Some remainder))"

text \<open>A reader: it pushes the chunks it reads and finishes at the end; the chunks passed on.\<close>

fun push_chunks :: "bytes list \<Rightarrow> bytes \<Rightarrow> bytes \<times> bytes list" where
  "push_chunks [] r = (r, [])"
| "push_chunks (d # ds) r =
     (case push_chunk d r of (r', o') \<Rightarrow>
        case push_chunks ds r' of (r'', os) \<Rightarrow> (r'', (case o' of None \<Rightarrow> os | Some x \<Rightarrow> x # os)))"

definition read_all :: "bytes list \<Rightarrow> bytes list" where
  "read_all ds =
     (case push_chunks ds [] of (r, os) \<Rightarrow> os @ (case snd (finish r) of None \<Rightarrow> [] | Some x \<Rightarrow> [x]))"

section \<open>The channel\<close>

datatype send_result = SentOk | ChannelFull | Disconnected

text \<open>\<open>try_send\<close> on a channel with room for \<open>cap\<close> chunks whose receiver may be gone.\<close>

definition try_send :: "nat \<Rightarrow> bool \<Rightarrow> bytes \<Rightarrow> bytes list \<Rightarrow> bytes list \<times> send_result" where
  "try_send cap alive data q =
     (if \<not> alive then (q, Disconnected) else if length q < cap then (q @ [data], SentOk) else (q, ChannelFull))"

record drop_log =
  drop_count :: nat
  last_drop_warn :: nat

text \<open>The new queue, the log state and whether the reader stops.\<close>

definition try_send_output ::
  "nat \<Rightarrow> bool \<Rightarrow> nat \<Rightarrow> bytes \<Rightarrow> bytes list \<times> drop_log \<Rightarrow> (bytes list \<times> drop_log) \<times> bool" where
  "try_send_output cap alive now data s =
     (case s of (q, lg) \<Rightarrow>
        case try_send cap alive data q of
          (q', SentOk) \<Rightarrow> ((q', if drop_count lg > 0 then lg\<lparr>drop_count := 0\<rparr> else lg), False)
        | (q', ChannelFull) \<Rightarrow>
            (let lg = lg\<lparr>drop_count := drop_count lg + 1\<rparr>
             in ((q', if now - last_drop_warn lg \<ge> 5000 then lg\<lparr>drop_count := 0, last_drop_warn := now\<rparr> else lg), False))
        | (q', Disconnected) \<Rightarrow> ((q', lg), True))"

section \<open>Lemmas: the replay buffer\<close>

definition content :: "output_buffer \<Rightarrow> bytes" where "content b = concat (ob_lines b)"

definition complete_line :: "bytes \<Rightarrow> bool" where
  "complete_line l \<longleftrightarrow> (\<exists>x. l = x @ [newline] \<and> newline \<notin> set x)"

definition open_line :: "bytes \<Rightarrow> bool" where
  "open_line l \<longleftrightarrow> l \<noteq> [] \<and> newline \<notin> set l"

definition lines_ok :: "bytes list \<Rightarrow> bool \<Rightarrow> bool" where
  "lines_ok ls inc \<longleftrightarrow>
     (if inc then \<exists>cs l. ls = cs @ [l] \<and> list_all complete_line cs \<and> open_line l else list_all complete_line ls)"

definition ob_inv :: "output_buffer \<Rightarrow> bool" where
  "ob_inv b \<longleftrightarrow> total_size b = length (content b) \<and> lines_ok (ob_lines b) (last_line_incomplete b)
     \<and> length (ob_lines b) \<le> MAX_BUFFER_LINES"

lemma length_content: "length (concat ls) = sum_list (map length ls)"
  by (simp add: length_concat)

lemma split_on_concat:
  "concat (map (\<lambda>l. l @ [x]) (butlast (split_on (\<lambda>b. b = x) xs))) @ last (split_on (\<lambda>b. b = x) xs) = xs"
proof (induction xs)
  case (Cons y ys)
  then show ?case by (cases "split_on (\<lambda>b. b = x) ys") auto
qed simp

lemma last_piece_free: "x \<notin> set (last (split_on (\<lambda>b. b = x) xs))"
  using split_on_no_sep [of _ "\<lambda>b. b = x" xs] last_in_set [OF split_on_not_Nil] by blast

lemma pushed_lines_spec:
  "concat (pushed_lines r) = r"
  "lines_ok (pushed_lines r) (\<not> (r \<noteq> [] \<and> last r = newline) \<and> last (split_on (\<lambda>b. b = newline) r) \<noteq> [])"
proof -
  let ?ls = "split_on (\<lambda>b. b = newline) r"
  note join = split_on_concat [of newline r]
  have ends: "\<not> (r \<noteq> [] \<and> last r = newline)" if "last ?ls \<noteq> []"
  proof -
    have "last r = last (last ?ls)" using that by (subst join [symmetric]) simp
    also have "last (last ?ls) \<noteq> newline" using that last_piece_free [of newline r] last_in_set by metis
    finally show ?thesis by blast
  qed
  then show "concat (pushed_lines r) = r" using join by (auto simp: pushed_lines_def Let_def)
  have "list_all complete_line (map (\<lambda>l. l @ [newline]) (butlast ?ls))"
    using split_on_no_sep [of _ "\<lambda>b. b = newline" r]
    by (auto simp: list_all_iff complete_line_def dest!: in_set_butlastD)
  with ends last_piece_free [of newline r]
  show "lines_ok (pushed_lines r) (\<not> (r \<noteq> [] \<and> last r = newline) \<and> last ?ls \<noteq> [])"
    by (auto simp: pushed_lines_def lines_ok_def open_line_def Let_def)
qed

lemma lines_ok_append: "list_all complete_line cs \<Longrightarrow> lines_ok ls inc \<Longrightarrow> lines_ok (cs @ ls) inc"
  unfolding lines_ok_def by (auto split: if_splits)

lemma lines_ok_tl: "lines_ok (l # ls) inc \<Longrightarrow> lines_ok ls (if ls = [] then False else inc)"
  by (auto simp: lines_ok_def Cons_eq_append_conv split: if_splits)

text \<open>Trimming drops whole lines from the front until both limits hold.\<close>

lemma trim_buffer_spec:
  assumes "n = length (concat ls)" "lines_ok ls inc"
  shows "\<exists>k. trim_buffer ls n inc = \<lparr>ob_lines = drop k ls, total_size = length (concat (drop k ls)),
            last_line_incomplete = (inc \<and> drop k ls \<noteq> [])\<rparr>
         \<and> lines_ok (drop k ls) (inc \<and> drop k ls \<noteq> [])
         \<and> length (concat (drop k ls)) \<le> MAX_OUTPUT_BUFFER_SIZE \<and> length (drop k ls) \<le> MAX_BUFFER_LINES
         \<and> (n \<le> MAX_OUTPUT_BUFFER_SIZE \<and> length ls \<le> MAX_BUFFER_LINES \<longrightarrow> k = 0)"
  using assms
proof (induction ls arbitrary: n inc)
  case Nil
  then show ?case by (auto simp: lines_ok_def)
next
  case (Cons l ls)
  show ?case
  proof (cases "n > MAX_OUTPUT_BUFFER_SIZE \<or> length (l # ls) > MAX_BUFFER_LINES")
    case False
    with Cons.prems show ?thesis by (intro exI [of _ 0]) auto
  next
    case True
    have "trim_buffer (l # ls) n inc = trim_buffer ls (length (concat ls)) (if ls = [] then False else inc)"
      using True Cons.prems(1) by (simp add: length_content)
    with Cons.IH [OF refl lines_ok_tl [OF Cons.prems(2)]] obtain k where
      "trim_buffer (l # ls) n inc = \<lparr>ob_lines = drop k ls, total_size = length (concat (drop k ls)),
          last_line_incomplete = ((if ls = [] then False else inc) \<and> drop k ls \<noteq> [])\<rparr>"
      "lines_ok (drop k ls) ((if ls = [] then False else inc) \<and> drop k ls \<noteq> [])"
      "length (concat (drop k ls)) \<le> MAX_OUTPUT_BUFFER_SIZE" "length (drop k ls) \<le> MAX_BUFFER_LINES" by auto
    with True show ?thesis by (intro exI [of _ "Suc k"]) (auto split: if_splits)
  qed
qed

text \<open>What an append leaves: the old content and the data, less whole lines dropped at the front.\<close>

definition appended :: "bytes \<Rightarrow> output_buffer \<Rightarrow> output_buffer \<Rightarrow> bool" where
  "appended data b b' \<longleftrightarrow> ob_inv b'
     \<and> (\<exists>dropped. content b @ data = dropped @ content b'
          \<and> (length (content b @ data) \<le> MAX_OUTPUT_BUFFER_SIZE
             \<and> length (ob_lines b) + length (filter (\<lambda>x. x = newline) data) < MAX_BUFFER_LINES \<longrightarrow> dropped = []))"

lemma appended_mono:
  assumes "appended r b0 b'" "content b0 @ r = content b @ data" "length (ob_lines b0) = length (ob_lines b)"
    "length (filter (\<lambda>x. x = newline) r) \<le> length (filter (\<lambda>x. x = newline) data)"
  shows "appended data b b'"
  using assms unfolding appended_def by (metis add_left_mono order_le_less_trans)

lemma length_pushed_lines: "length (pushed_lines r) \<le> Suc (length (filter (\<lambda>x. x = newline) r))"
  by (simp add: pushed_lines_def Let_def length_split_on)

lemma append_lines_spec:
  assumes "total_size b = length (content b)" "list_all complete_line (ob_lines b)" "\<not> last_line_incomplete b"
  shows "appended r b (append_lines r b)" "total_size (append_lines r b) \<le> MAX_OUTPUT_BUFFER_SIZE"
proof -
  let ?inc = "\<not> (r \<noteq> [] \<and> last r = newline) \<and> last (split_on (\<lambda>b. b = newline) r) \<noteq> []"
  let ?ls = "ob_lines b @ pushed_lines r"
  have c: "concat ?ls = content b @ r" by (simp add: content_def pushed_lines_spec)
  have n: "total_size b + sum_list (map length (pushed_lines r)) = length (concat ?ls)"
    using assms(1) by (simp add: content_def pushed_lines_spec(1) flip: length_content)
  have eq: "append_lines r b = trim_buffer ?ls (length (concat ?ls)) ?inc"
    unfolding append_lines_def Let_def n using assms(3) by auto
  from trim_buffer_spec [OF refl lines_ok_append [OF assms(2) pushed_lines_spec(2)]] obtain k where
    k: "append_lines r b = \<lparr>ob_lines = drop k ?ls, total_size = length (concat (drop k ?ls)),
          last_line_incomplete = (?inc \<and> drop k ?ls \<noteq> [])\<rparr>"
      "lines_ok (drop k ?ls) (?inc \<and> drop k ?ls \<noteq> [])"
      "length (concat (drop k ?ls)) \<le> MAX_OUTPUT_BUFFER_SIZE" "length (drop k ?ls) \<le> MAX_BUFFER_LINES"
      "length (concat ?ls) \<le> MAX_OUTPUT_BUFFER_SIZE \<and> length ?ls \<le> MAX_BUFFER_LINES \<longrightarrow> k = 0"
    unfolding eq by blast
  have cut: "content b @ r = concat (take k ?ls) @ content (append_lines r b)"
    unfolding k(1) content_def output_buffer.select_convs concat_append [symmetric] append_take_drop_id
    using c by (simp add: content_def)
  have whole: "length ?ls \<le> MAX_BUFFER_LINES" if "length (ob_lines b) + length (filter (\<lambda>x. x = newline) r) < MAX_BUFFER_LINES"
    using that length_pushed_lines [of r] by simp
  have "ob_inv (append_lines r b)"
    using k(2,4) unfolding ob_inv_def content_def k(1) by (simp del: drop_append)
  moreover have "concat (take k ?ls) = []"
    if "length (content b @ r) \<le> MAX_OUTPUT_BUFFER_SIZE"
      "length (ob_lines b) + length (filter (\<lambda>x. x = newline) r) < MAX_BUFFER_LINES"
    using k(5) whole that unfolding c by simp
  ultimately show "appended r b (append_lines r b)"
    unfolding appended_def using cut by blast
  show "total_size (append_lines r b) \<le> MAX_OUTPUT_BUFFER_SIZE" using k by simp
qed

lemma newline_split:
  assumes "newline \<in> set data"
  defines "k \<equiv> length (takeWhile (\<lambda>x. x \<noteq> newline) data)"
  shows "take (k + 1) data = takeWhile (\<lambda>x. x \<noteq> newline) data @ [newline]"
    and "k < length data"
proof -
  show k: "k < length data"
    using assms length_takeWhile_le [of "\<lambda>x. x \<noteq> newline" data] takeWhile_eq_take [of "\<lambda>x. x \<noteq> newline" data]
    by (metis (mono_tags, lifting) le_neq_implies_less set_takeWhileD take_all_iff order_refl)
  have "data ! k = newline" using k unfolding k_def by (rule nth_length_takeWhile [of "\<lambda>x. x \<noteq> newline", simplified])
  moreover have "take k data = takeWhile (\<lambda>x. x \<noteq> newline) data" unfolding k_def by (rule takeWhile_eq_take [symmetric])
  ultimately show "take (k + 1) data = takeWhile (\<lambda>x. x \<noteq> newline) data @ [newline]"
    using k by (simp add: take_Suc_conv_app_nth)
qed

lemma append_spec:
  assumes inv: "ob_inv b"
  shows "appended data b (append data b)"
    and "data \<noteq> [] \<Longrightarrow> newline \<in> set data \<or> \<not> last_line_incomplete b \<Longrightarrow> total_size (append data b) \<le> MAX_OUTPUT_BUFFER_SIZE"
proof -
  have size: "total_size b = length (content b)" using inv by (simp add: ob_inv_def)
  have "appended data b (append data b)
      \<and> (data \<noteq> [] \<and> (newline \<in> set data \<or> \<not> last_line_incomplete b) \<longrightarrow> total_size (append data b) \<le> MAX_OUTPUT_BUFFER_SIZE)"
  proof (cases "data = [] \<or> \<not> last_line_incomplete b")
    case True
    with inv append_lines_spec [OF size, of data] show ?thesis
      by (auto simp: append_def ob_inv_def lines_ok_def appended_def)
  next
    case False
    then have data: "data \<noteq> []" and inc: "last_line_incomplete b" by auto
    with inv obtain cs l where l: "ob_lines b = cs @ [l]" "list_all complete_line cs" "open_line l"
      by (auto simp: ob_inv_def lines_ok_def)
    show ?thesis
    proof (cases "newline \<in> set data")
      case nl: False
      have eq: "append data b = b\<lparr>ob_lines := cs @ [l @ data], total_size := total_size b + length data\<rparr>"
        using data inc l(1) nl by (simp add: append_def Let_def)
      have "open_line (l @ data)" using l(3) nl by (simp add: open_line_def)
      with inv l inc show ?thesis
        unfolding eq using nl by (simp add: appended_def ob_inv_def content_def lines_ok_def)
    next
      case nl: True
      let ?h = "takeWhile (\<lambda>x. x \<noteq> newline) data"
      let ?k = "length ?h + 1"
      let ?b = "b\<lparr>ob_lines := cs @ [l @ take ?k data], total_size := total_size b + ?k, last_line_incomplete := False\<rparr>"
      have eq: "append data b = append_lines (drop ?k data) ?b"
        using data inc l(1) nl by (simp add: append_def Let_def)
      note t = newline_split [OF nl]
      have "newline \<notin> set ?h" by (auto dest: set_takeWhileD)
      then have "complete_line (l @ take ?k data)"
        using l(3) unfolding t(1) complete_line_def open_line_def by (intro exI [of _ "l @ ?h"]) auto
      with l(2) have all: "list_all complete_line (ob_lines ?b)" by simp
      have tot: "total_size ?b = length (content ?b)"
        using size l(1) t(2) by (simp add: content_def)
      have c: "content ?b @ drop ?k data = content b @ data" by (simp add: content_def l(1))
      have f: "length (filter (\<lambda>x. x = newline) (drop ?k data)) \<le> length (filter (\<lambda>x. x = newline) data)"
        by (metis append_take_drop_id filter_append le_add2 length_append)
      have len: "length (ob_lines ?b) = length (ob_lines b)" by (simp add: l(1))
      have done': "\<not> last_line_incomplete ?b" by simp
      show ?thesis
        unfolding eq using appended_mono [OF append_lines_spec(1) [OF tot all done'] c len f]
          append_lines_spec(2) [OF tot all done'] by blast
    qed
  qed
  then show "appended data b (append data b)"
    "data \<noteq> [] \<Longrightarrow> newline \<in> set data \<or> \<not> last_line_incomplete b \<Longrightarrow> total_size (append data b) \<le> MAX_OUTPUT_BUFFER_SIZE"
    by auto
qed

fun append_all :: "bytes list \<Rightarrow> output_buffer \<Rightarrow> output_buffer" where
  "append_all [] b = b"
| "append_all (d # ds) b = append_all ds (append d b)"

lemma append_all_spec:
  "ob_inv b \<Longrightarrow> ob_inv (append_all ds b) \<and> (\<exists>dropped. content b @ concat ds = dropped @ content (append_all ds b))"
proof (induction ds arbitrary: b)
  case (Cons d ds)
  from append_spec(1) [OF Cons.prems, of d] obtain x where
    x: "ob_inv (append d b)" "content b @ d = x @ content (append d b)" unfolding appended_def by blast
  with Cons.IH obtain y where "content (append d b) @ concat ds = y @ content (append_all ds (append d b))" by blast
  with x have "content b @ concat (d # ds) = (x @ y) @ content (append_all (d # ds) b)"
    unfolding append_all.simps concat.simps by (metis append.assoc)
  with x(1) Cons.IH show ?case by auto
qed simp

lemma ob_inv_new: "ob_inv output_buffer_new"
  by (simp add: ob_inv_def output_buffer_new_def content_def lines_ok_def)

subsection \<open>What is replayed\<close>

lemma align_offset_le: "offset \<le> length line \<Longrightarrow> offset \<le> align_offset line k offset \<and> align_offset line k offset \<le> length line"
proof (induction k arbitrary: offset)
  case (Suc k)
  show ?case
  proof (cases "offset < length line \<and> line ! offset AND 0xC0 = 0x80")
    case True
    with Suc.IH [of "offset + 1"] show ?thesis by simp
  next
    case False
    with Suc.prems show ?thesis by (simp only: align_offset.simps if_False simp_thms)
  qed
qed simp

lemma recent_chunks_suffix:
  "\<exists>older. concat (rev ls) = older @ concat (rev (recent_chunks m n ls))"
proof (induction ls arbitrary: n)
  case (Cons l ls)
  consider "n + length l \<le> m" | "n = 0" "m < length l" | "n + length l > m" "n \<noteq> 0 \<or> length l \<le> m" by linarith
  then show ?case
  proof cases
    case 1
    with Cons [of "n + length l"] show ?thesis by auto
  next
    case 2
    have "concat (rev ls) @ l = (concat (rev ls) @ take k l) @ drop k l" for k by simp
    with 2 show ?thesis by (auto simp: Let_def simp del: append_assoc)
  qed auto
qed simp

lemma recent_chunks_size:
  "n \<le> m \<Longrightarrow> n + length (concat (recent_chunks m n ls)) \<le> m"
proof (induction ls arbitrary: n)
  case (Cons l ls)
  from align_offset_le [of "length l - m" l 3] Cons.IH [of "n + length l"] Cons.prems show ?case
    by (auto simp: Let_def)
qed simp

lemma recent_chunks_all:
  "n + length (concat ls) \<le> m \<Longrightarrow> recent_chunks m n ls = ls"
  by (induction ls arbitrary: n) auto

lemma length_concat_rev: "length (concat (rev xs)) = length (concat xs)"
  by (simp add: length_content rev_map [symmetric])

lemma get_recent_suffix: "\<exists>older. content b = older @ get_recent m b"
  using recent_chunks_suffix [of "rev (ob_lines b)" m 0] by (auto simp: get_recent_def content_def)

lemma get_recent_limit: "length (get_recent m b) \<le> m"
  using recent_chunks_size [of 0 m "rev (ob_lines b)"] by (simp add: get_recent_def length_concat_rev)

text \<open>
  The replay sent to a reconnecting client is a contiguous end of the output, never longer than
  the limit asked for, and the whole buffer when that fits.
\<close>

theorem replay_is_bounded_suffix:
  "(\<exists>older. content b = older @ get_recent m b) \<and> length (get_recent m b) \<le> m
     \<and> (length (content b) \<le> m \<longrightarrow> get_recent m b = content b)"
  using get_recent_suffix [of b m] get_recent_limit [of m b] recent_chunks_all [of 0 "rev (ob_lines b)" m]
  by (auto simp: get_recent_def content_def length_concat_rev)

theorem replay_is_bounded_suffix_witness:
  "get_recent 5 (append [1, 10, 2] output_buffer_new) = content (append [1, 10, 2] output_buffer_new)"
proof -
  have "length (content (append [1, 10, 2] output_buffer_new)) \<le> 5"
    by (simp add: append_def append_lines_def output_buffer_new_def pushed_lines_def newline_def content_def
        MAX_OUTPUT_BUFFER_SIZE_def MAX_BUFFER_LINES_def Let_def)
  with replay_is_bounded_suffix [of "append [1, 10, 2] output_buffer_new" 5] show ?thesis by blast
qed

text \<open>
  C22. Whatever output a terminal produces, the replay buffer holds a contiguous end of it: nothing
  in the middle is lost, duplicated or reordered. Its size counter is exact (the underflow repair in
  the code is never needed), and it holds at most \<open>MAX_BUFFER_LINES\<close> lines, of which at most the
  last is incomplete.
\<close>

theorem replay_is_tail_of_output:
  "\<exists>dropped. concat ds = dropped @ content (append_all ds output_buffer_new)
     \<and> total_size (append_all ds output_buffer_new) = length (content (append_all ds output_buffer_new))
     \<and> length (ob_lines (append_all ds output_buffer_new)) \<le> MAX_BUFFER_LINES
     \<and> lines_ok (ob_lines (append_all ds output_buffer_new)) (last_line_incomplete (append_all ds output_buffer_new))"
  using append_all_spec [OF ob_inv_new, of ds] by (simp add: ob_inv_def output_buffer_new_def content_def)

text \<open>
  An append with a newline, or to a buffer whose last line is complete, leaves at most
  \<open>MAX_OUTPUT_BUFFER_SIZE\<close> bytes; data that fits within the limits is kept whole.
\<close>

theorem append_within_limits:
  assumes "b = append_all ds output_buffer_new" "data \<noteq> []"
  shows "(newline \<in> set data \<or> \<not> last_line_incomplete b \<longrightarrow> total_size (append data b) \<le> MAX_OUTPUT_BUFFER_SIZE)
     \<and> (length (content b @ data) \<le> MAX_OUTPUT_BUFFER_SIZE
        \<and> length (ob_lines b) + length (filter (\<lambda>x. x = newline) data) < MAX_BUFFER_LINES \<longrightarrow>
          content (append data b) = content b @ data)"
  using append_spec [of b data] append_all_spec [OF ob_inv_new, of ds] assms by (auto simp: appended_def)

theorem append_within_limits_witness: "content (append [1, 10, 2] (append_all [[7]] output_buffer_new)) = [7, 1, 10, 2]"
proof -
  have "content (append_all [[7]] output_buffer_new) = [7]" "length (ob_lines (append_all [[7]] output_buffer_new)) = 1"
    by (simp_all add: append_def append_lines_def output_buffer_new_def pushed_lines_def newline_def content_def
        MAX_OUTPUT_BUFFER_SIZE_def MAX_BUFFER_LINES_def Let_def)
  with append_within_limits [OF refl, of "[1, 10, 2]" "[[7]]"] show ?thesis
    by (simp add: newline_def MAX_OUTPUT_BUFFER_SIZE_def MAX_BUFFER_LINES_def)
qed

text \<open>
  C38. Output without newlines is never trimmed: the incomplete last line grows with every chunk, past
  the limit of one megabyte per terminal.
\<close>

theorem newline_free_output_unbounded:
  assumes "d \<noteq> []" "newline \<notin> set d" "length d \<le> MAX_OUTPUT_BUFFER_SIZE"
  shows "total_size (append_all (replicate n d) output_buffer_new) = n * length d"
proof -
  have grow: "total_size (append_all (replicate k d) b) = total_size b + k * length d"
    if "last_line_incomplete b" "ob_lines b \<noteq> []" for k b
    using that
  proof (induction k arbitrary: b)
    case (Suc k)
    with assms show ?case by (simp add: append_def Let_def)
  qed simp
  have first: "append d output_buffer_new = \<lparr>ob_lines = [d], total_size = length d, last_line_incomplete = True\<rparr>"
  proof -
    have "split_on (\<lambda>b. b = newline) d = [d]" using assms(2) by (intro split_on_free) auto
    moreover have "last d \<noteq> newline" using assms(1,2) last_in_set by metis
    ultimately show ?thesis
      using assms by (simp add: append_def append_lines_def output_buffer_new_def pushed_lines_def
          MAX_BUFFER_LINES_def Let_def)
  qed
  show ?thesis
  proof (cases n)
    case 0
    then show ?thesis by (simp add: output_buffer_new_def)
  next
    case (Suc k)
    then show ?thesis using grow [of "append d output_buffer_new" k] by (simp add: first)
  qed
qed

theorem newline_free_output_unbounded_witness:
  "total_size (append_all (replicate 2000000 [65]) output_buffer_new) = 2000000"
  using newline_free_output_unbounded [of "[65]" 2000000] by (simp add: newline_def MAX_OUTPUT_BUFFER_SIZE_def)

section \<open>Lemmas: the split point\<close>

lemma utf8_scan_skip:
  "(\<And>i. k \<le> i \<Longrightarrow> i < j \<Longrightarrow> is_cont (buf ! (start + i))) \<Longrightarrow> k \<le> j \<Longrightarrow> utf8_scan buf start j = utf8_scan buf start k"
proof (induction j)
  case (Suc j)
  show ?case
  proof (cases "k = Suc j")
    case False
    with Suc.prems have c: "is_cont (buf ! (start + j))" by simp
    moreover from c have "buf ! (start + j) AND 0x80 \<noteq> 0" by (rule cont_high)
    ultimately show ?thesis using Suc False by (simp add: is_cont_def Let_def)
  qed simp
qed simp

lemma utf8_scan_lead:
  assumes "seq_len (buf ! (start + j)) = Some n" "1 < n"
  shows "utf8_scan buf start (Suc j) = (if length buf - (start + j) \<ge> n then length buf else start + j)"
  using assms seq_len_not_cont [OF assms(1)] by (auto simp: seq_len_def is_cont_def Let_def split: if_splits)

lemma split_before_unfinished:
  assumes "unfinished p"
  shows "find_utf8_split_point (v @ p) = length v"
proof -
  from assms obtain s n where p: "p \<noteq> []" "utf8_first (p @ s) = Some n" "length p < n"
    unfolding unfinished_def by blast
  let ?buf = "v @ p" and ?start = "length (v @ p) - 3"
  define j where "j = length v - ?start"
  have j: "?start + j = length v" "length ?buf - ?start = j + length p"
    using p utf8_first_bounds [OF p(2)] unfolding j_def by simp_all linarith+
  have lead: "seq_len (?buf ! (?start + j)) = Some n"
    using utf8_first_seq(2) [OF p(2)] p(1) unfolding j(1) by (simp add: nth_append hd_conv_nth)
  have "is_cont (?buf ! (?start + i))" if "Suc j \<le> i" "i < j + length p" for i
  proof -
    have "?start + i = length v + (i - j)" using that(1) j(1) by linarith
    then have "?buf ! (?start + i) = (p @ s) ! (i - j)" using that
      by (simp only: nth_append_length_plus) (simp add: nth_append less_diff_conv2)
    with utf8_first_seq(3) [OF p(2), of "i - j"] that p(3) show ?thesis by simp
  qed
  then have "utf8_scan ?buf ?start (j + length p) = utf8_scan ?buf ?start (Suc j)"
    using p(1) by (intro utf8_scan_skip) (auto simp: Suc_le_eq)
  also have "\<dots> = length v"
    using utf8_scan_lead [OF lead] p(1,3) j(1) by (cases p) auto
  finally show ?thesis
    unfolding find_utf8_split_point_def Let_def j(2) using p(1) by simp
qed

lemma split_after_valid:
  assumes "utf8_valid v"
  shows "find_utf8_split_point v = length v"
proof (cases "v = []")
  case True
  then show ?thesis by (simp add: find_utf8_split_point_def)
next
  case False
  with valid_last_char [OF assms] obtain w c where c: "v = w @ c" "utf8_first c = Some (length c)" by blast
  let ?start = "length v - 3"
  note b = utf8_first_bounds [OF c(2)] and q = utf8_first_seq [OF c(2)]
  have cont: "is_cont (v ! i)" if "length w < i" "i < length v" for i
    using q(3) [of "i - length w"] that c(1) by (simp add: nth_append)
  have lead: "seq_len (v ! length w) = Some (length c)"
    using q(1,2) by (simp add: c(1) nth_append hd_conv_nth)
  have "utf8_scan v ?start (length v - ?start) = length v"
  proof (cases "?start \<le> length w")
    case True
    define j where "j = length w - ?start"
    have j: "?start + j = length w" "Suc j \<le> length v - ?start" using True q(1) c(1) unfolding j_def c(1) length_append
      by (linarith, cases c) auto
    have "utf8_scan v ?start (length v - ?start) = utf8_scan v ?start (Suc j)"
      using j by (intro utf8_scan_skip cont) linarith+
    also have "\<dots> = length v"
    proof (cases "length c = 1")
      case True
      with lead j(1) show ?thesis by (auto simp: seq_len_def Let_def split: if_splits)
    next
      case False
      with b have "1 < length c" by linarith
      from utf8_scan_lead [of v ?start j, unfolded j(1), OF lead this] show ?thesis by (simp add: c(1))
    qed
    finally show ?thesis .
  next
    case far: False
    then have "utf8_scan v ?start (length v - ?start) = utf8_scan v ?start 0"
      by (intro utf8_scan_skip cont) linarith+
    then show ?thesis by simp
  qed
  with False show ?thesis by (simp add: find_utf8_split_point_def Let_def)
qed

lemma utf8_scan_bounds: "start \<le> length buf \<Longrightarrow> utf8_scan buf start j \<ge> start \<and> (j \<le> length buf - start \<longrightarrow> utf8_scan buf start j \<le> length buf)"
  by (induction j) (auto simp: Let_def)

lemma split_point_bounds: "length buf - 3 \<le> find_utf8_split_point buf \<and> find_utf8_split_point buf \<le> length buf"
  using utf8_scan_bounds [of "length buf - 3" buf "length buf - (length buf - 3)"]
  by (simp add: find_utf8_split_point_def Let_def)

section \<open>Lemmas: the accumulator\<close>

abbreviation emitted :: "bytes option \<Rightarrow> bytes" where
  "emitted x \<equiv> (case x of None \<Rightarrow> [] | Some y \<Rightarrow> y)"

lemma push_chunk_bytes:
  assumes "push_chunk d r = (r', x)"
  shows "r @ d = emitted x @ r'" "x \<noteq> Some []" "length r \<le> 3 \<Longrightarrow> length r' \<le> 3"
  using assms split_point_bounds [of "r @ d"] append_take_drop_id [of "find_utf8_split_point (r @ d)" "r @ d"]
  by (auto simp: push_chunk_def Let_def simp del: append_take_drop_id take_append drop_append split: if_splits)

lemma push_chunk_valid:
  assumes "push_chunk d r = (r', x)" "utf8_valid (r @ d @ rest)"
  shows "utf8_valid (emitted x)" "utf8_valid (r' @ rest)"
proof -
  show "utf8_valid (emitted x)"
  proof (cases "d = []")
    case True
    with assms(1) show ?thesis by (simp add: push_chunk_def)
  next
    case False
    from valid_prefix_split [of "r @ d" rest] assms(2) obtain v p where
      vp: "r @ d = v @ p" "utf8_valid v" "p = [] \<or> unfinished p" by auto
    have "find_utf8_split_point (v @ p) = length v"
      using vp(2,3) split_after_valid split_before_unfinished by auto
    with assms(1) False vp(2) show ?thesis
      by (auto simp: push_chunk_def Let_def vp(1) split: if_splits)
  qed
  with utf8_valid_append [of "emitted x" "r' @ rest"] push_chunk_bytes(1) [OF assms(1)] assms(2)
  show "utf8_valid (r' @ rest)" by (metis append.assoc)
qed

lemma push_chunks_bytes:
  "push_chunks ds r = (r', xs) \<Longrightarrow> length r \<le> 3 \<Longrightarrow> r @ concat ds = concat xs @ r' \<and> [] \<notin> set xs \<and> length r' \<le> 3"
proof (induction ds arbitrary: r xs r')
  case (Cons d ds)
  obtain q x where q: "push_chunk d r = (q, x)" by (meson surj_pair)
  obtain s ys where s: "push_chunks ds q = (s, ys)" by (meson surj_pair)
  note b = push_chunk_bytes [OF q]
  from Cons.IH [OF s] b(3) Cons.prems q s have "q @ concat ds = concat ys @ r'" "[] \<notin> set ys" "length r' \<le> 3" by auto
  moreover have "r @ concat (d # ds) = emitted x @ (q @ concat ds)" using b(1) by simp
  ultimately show ?case using Cons.prems q s b(2) by (auto split: option.splits)
qed simp

lemma push_chunks_valid:
  "push_chunks ds r = (r', xs) \<Longrightarrow> utf8_valid (r @ concat ds) \<Longrightarrow> list_all utf8_valid xs \<and> utf8_valid r'"
proof (induction ds arbitrary: r xs r')
  case (Cons d ds)
  obtain q x where q: "push_chunk d r = (q, x)" by (meson surj_pair)
  obtain s ys where s: "push_chunks ds q = (s, ys)" by (meson surj_pair)
  from push_chunk_valid [OF q, of "concat ds"] Cons.prems have "utf8_valid (emitted x)" "utf8_valid (q @ concat ds)" by auto
  with Cons.IH [OF s] Cons.prems q s show ?case by (auto split: option.splits)
qed simp

text \<open>
  The accumulator loses, duplicates and reorders no byte: what a reader passes on, with the flush
  at the end, is exactly what it read, in non-empty chunks, and at most three bytes are ever held
  back.
\<close>

theorem accumulator_lossless:
  "concat (read_all ds) = concat ds \<and> [] \<notin> set (read_all ds) \<and> length (fst (push_chunks ds [])) \<le> 3"
proof -
  obtain r xs where r: "push_chunks ds [] = (r, xs)" by (meson surj_pair)
  from push_chunks_bytes [OF r] show ?thesis by (auto simp: read_all_def r finish_def)
qed

text \<open>
  C13. However the reads cut valid UTF-8 text, every chunk passed on is valid UTF-8 on its own: no
  character is split between two chunks.
\<close>

theorem accumulator_keeps_characters:
  assumes "utf8_valid (concat ds)"
  shows "list_all utf8_valid (read_all ds)"
proof -
  obtain r xs where r: "push_chunks ds [] = (r, xs)" by (meson surj_pair)
  from push_chunks_valid [OF r] assms show ?thesis by (auto simp: read_all_def r finish_def)
qed

theorem accumulator_keeps_characters_witness:
  "list_all utf8_valid (read_all [[0x41, 0xE2], [0x82], [0xAC, 0xF0, 0x9F, 0x98], [0x80]])
     \<and> read_all [[0x41, 0xE2], [0x82], [0xAC, 0xF0, 0x9F, 0x98], [0x80]] = [[0x41], [0xE2, 0x82, 0xAC], [0xF0, 0x9F, 0x98, 0x80]]"
proof
  have "utf8_valid (concat [[0x41, 0xE2], [0x82], [0xAC, 0xF0, 0x9F, 0x98], [0x80]])" by code_simp
  then show "list_all utf8_valid (read_all [[0x41, 0xE2], [0x82], [0xAC, 0xF0, 0x9F, 0x98], [0x80]])"
    by (rule accumulator_keeps_characters)
  show "read_all [[0x41, 0xE2], [0x82], [0xAC, 0xF0, 0x9F, 0x98], [0x80]] = [[0x41], [0xE2, 0x82, 0xAC], [0xF0, 0x9F, 0x98, 0x80]]"
    by code_simp
qed

section \<open>Lemmas: the channel\<close>

text \<open>Reader and sender taking turns: the state is the queue with its log, and what was received.\<close>

datatype chan_op = ChanSend bool nat bytes | ChanRecv

fun chan_step :: "nat \<Rightarrow> chan_op \<Rightarrow> (bytes list \<times> drop_log) \<times> bytes list \<Rightarrow> (bytes list \<times> drop_log) \<times> bytes list" where
  "chan_step cap (ChanSend alive now d) (s, got) = (fst (try_send_output cap alive now d s), got)"
| "chan_step cap ChanRecv (([], lg), got) = (([], lg), got)"
| "chan_step cap ChanRecv ((x # q, lg), got) = ((q, lg), got @ [x])"

fun sent_data :: "chan_op list \<Rightarrow> bytes list" where
  "sent_data [] = []"
| "sent_data (ChanSend _ _ d # ops) = d # sent_data ops"
| "sent_data (ChanRecv # ops) = sent_data ops"

lemma chan_step_keeps:
  assumes "length (fst (fst s)) \<le> cap"
  shows "length (fst (fst (chan_step cap c s))) \<le> cap
     \<and> (\<exists>x. subseq x (sent_data [c])
          \<and> snd (chan_step cap c s) @ fst (fst (chan_step cap c s)) = snd s @ fst (fst s) @ x)"
  using assms
  by (cases "(cap, c, s)" rule: chan_step.cases)
    (auto simp: try_send_output_def try_send_def Let_def split: if_splits intro: exI [of _ "[]"])

text \<open>
  However the reader's sends and the sender's receives interleave, the channel holds at most its
  capacity, and what was received followed by what is queued is the data sent with some chunks
  dropped: never reordered, never duplicated.
\<close>

theorem channel_bounded_in_order:
  assumes "fold (chan_step cap) ops (([], lg), []) = ((q, lg'), got)"
  shows "length q \<le> cap \<and> subseq (got @ q) (sent_data ops)"
proof -
  have "length (fst (fst (fold (chan_step cap) ops s))) \<le> cap
      \<and> (\<exists>x. subseq x (sent_data ops)
          \<and> snd (fold (chan_step cap) ops s) @ fst (fst (fold (chan_step cap) ops s)) = snd s @ fst (fst s) @ x)"
    if "length (fst (fst s)) \<le> cap" for s
    using that
  proof (induction ops arbitrary: s)
    case (Cons c ops)
    have split: "sent_data (c # ops) = sent_data [c] @ sent_data ops" by (cases c) auto
    from chan_step_keeps [OF Cons.prems, of c] Cons.IH [of "chan_step cap c s"] obtain x y where
      "subseq x (sent_data [c])" "subseq y (sent_data ops)"
      "snd (fold (chan_step cap) (c # ops) s) @ fst (fst (fold (chan_step cap) (c # ops) s)) = snd s @ fst (fst s) @ x @ y"
      "length (fst (fst (fold (chan_step cap) (c # ops) s))) \<le> cap" by fastforce
    then show ?case unfolding split by (metis list_emb_append_mono)
  qed auto
  from this [of "(([], lg), [])"] assms show ?thesis by auto
qed

theorem channel_bounded_in_order_witness:
  "subseq ([[1]] @ [[3]]) (sent_data [ChanSend True 0 [1], ChanSend True 0 [2], ChanRecv, ChanSend True 0 [3]])"
proof -
  have "fold (chan_step 1) [ChanSend True 0 [1], ChanSend True 0 [2], ChanRecv, ChanSend True 0 [3]]
          (([], \<lparr>drop_count = 0, last_drop_warn = 0\<rparr>), []) = (([[3]], \<lparr>drop_count = 0, last_drop_warn = 0\<rparr>), [[1]])"
    by (simp add: try_send_output_def try_send_def)
  from channel_bounded_in_order [OF this] show ?thesis by (rule conjunct2)
qed

end
