(* ===== verification/TerminalService.thy ===== *)
theory TerminalService
  imports TerminalBuffer "HOL-Library.AList" "HOL-Library.Multiset"
begin

text \<open>
  The terminal service of \<open>src/server/terminal_service.rs\<close>: the registry of services, their
  sessions with the state machine for reconnection, the handlers of the client's actions and the
  polling of the sessions' output. The theorems show the invariants of the registry, that no child
  process is lost, what the client of a session receives, and that the two-phase resize settles.
\<close>

section \<open>Data\<close>

definition MAX_SERVICES :: nat where "MAX_SERVICES = 100"
definition SERVICE_IDLE_TIMEOUT :: nat where "SERVICE_IDLE_TIMEOUT = 3600"
definition CHANNEL_BUFFER_SIZE :: nat where "CHANNEL_BUFFER_SIZE = 500"
definition COMPRESS_THRESHOLD :: nat where "COMPRESS_THRESHOLD = 512"
definition DEFAULT_RECONNECT_BUFFER_BYTES :: nat where "DEFAULT_RECONNECT_BUFFER_BYTES = 8 * 1024"
definition MAX_SIGWINCH_PHASE_ATTEMPTS :: nat where "MAX_SIGWINCH_PHASE_ATTEMPTS = 3"

datatype sigwinch_phase = Idle | TempResize nat | Restore nat
datatype sigwinch_action = DoTempResize | DoRestore
datatype session_state = Closed | Active "bytes option" sigwinch_phase

text \<open>
  A session. A child process is its number, the PTY its current size; a channel is the queue of the
  chunks in it. Times are in seconds.
\<close>

record terminal_session =
  ts_created_at :: nat
  ts_last_activity :: nat
  pty_pair :: "(nat \<times> nat) option"
  child :: "nat option"
  input_tx :: "bytes list option"
  output_rx :: "bytes list option"
  exiting :: bool
  reader_thread :: bool
  writer_thread :: bool
  out_buffer :: output_buffer
  title :: string
  pid :: nat
  ts_rows :: nat
  ts_cols :: nat
  closed_message_sent :: bool
  ts_state :: session_state

record persistent_service =
  service_id :: string
  ts_sessions :: "(int \<times> terminal_session) list"
  svc_created_at :: nat
  svc_last_activity :: nat
  is_persistent :: bool
  needs_session_sync :: bool
  is_specified_user :: bool

record term_state =
  services :: "(string \<times> persistent_service) list"
  terminal_tasks :: "nat list"
  cleanup_task :: bool

text \<open>
  What the process library and the operating system answer: \<open>try_wait\<close> and \<open>kill\<close> of a child,
  whether a reader thread has finished, whether a session is locked by another thread, and whether
  a resize succeeds; \<open>shrink\<close> is the compression library.
\<close>

datatype wait_result = Running | Exited nat | WaitError

record term_env =
  try_wait :: "nat \<Rightarrow> wait_result"
  kill_ok :: "nat \<Rightarrow> bool"
  reader_finished :: "int \<Rightarrow> bool"
  session_locked :: "int \<Rightarrow> bool"
  resize_ok :: "int \<Rightarrow> nat \<Rightarrow> nat \<Rightarrow> bool"
  shrink :: "bytes \<Rightarrow> bytes"
  now :: nat

text \<open>How opening a PTY with a shell goes: the steps that can fail, in order.\<close>

record shell_start =
  pty_opened :: bool
  spawned :: "nat option"
  pipes_taken :: bool

record terminal_opened =
  to_terminal_id :: int
  to_success :: bool
  to_message :: string
  to_pid :: nat
  to_service_id :: string
  replay_terminal_output :: bool
  persistent_sessions :: "int list"

datatype terminal_response =
    RespError string
  | RespOpened terminal_opened
  | RespData int bytes bool
  | RespClosed int int

datatype terminal_action =
    OpenTerminal int nat nat
  | ResizeTerminal int nat nat
  | TerminalData int bytes
  | CloseTerminal int
  | NoAction

definition as_u16 :: "nat \<Rightarrow> nat" where "as_u16 n = n mod 65536"

section \<open>Sessions\<close>

definition terminal_session_new :: "nat \<Rightarrow> int \<Rightarrow> nat \<Rightarrow> nat \<Rightarrow> terminal_session" where
  "terminal_session_new t terminal_id rows cols =
     \<lparr>ts_created_at = t, ts_last_activity = t, pty_pair = None, child = None, input_tx = None, output_rx = None,
      exiting = False, reader_thread = False, writer_thread = False, out_buffer = output_buffer_new,
      title = ''Terminal '' @ show_int terminal_id, pid = 0, ts_rows = rows, ts_cols = cols,
      closed_message_sent = False, ts_state = Closed\<rparr>"

text \<open>Stopping a session; the second component is the child handed to the reaper.\<close>

definition stop :: "terminal_session \<Rightarrow> terminal_session \<times> nat list" where
  "stop s =
     (s\<lparr>ts_state := Closed, exiting := True, input_tx := None, output_rx := None, pty_pair := None,
        reader_thread := False, writer_thread := False, child := None\<rparr>,
      case child s of None \<Rightarrow> [] | Some c \<Rightarrow> [c])"

section \<open>The registry\<close>

definition service_new :: "nat \<Rightarrow> string \<Rightarrow> bool \<Rightarrow> bool \<Rightarrow> persistent_service" where
  "service_new t sid persistent specified_user =
     \<lparr>service_id = sid, ts_sessions = [], svc_created_at = t, svc_last_activity = t, is_persistent = persistent,
      needs_session_sync = False, is_specified_user = specified_user\<rparr>"

definition reset_status :: "bool \<Rightarrow> persistent_service \<Rightarrow> persistent_service" where
  "reset_status persistent svc =
     svc\<lparr>is_persistent := persistent, needs_session_sync := True,
         ts_sessions := map (\<lambda>(i, s). (i, s\<lparr>ts_state := Closed\<rparr>)) (ts_sessions svc)\<rparr>"

definition get_service :: "string \<Rightarrow> term_state \<Rightarrow> persistent_service option" where
  "get_service sid st = map_of (services st) sid"

definition is_service_specified_user :: "string \<Rightarrow> term_state \<Rightarrow> bool option" where
  "is_service_specified_user sid st = map_option is_specified_user (get_service sid st)"

definition put_service :: "string \<Rightarrow> persistent_service \<Rightarrow> term_state \<Rightarrow> term_state" where
  "put_service sid svc st = st\<lparr>services := AList.update sid svc (services st)\<rparr>"

definition get_or_create_service ::
  "nat \<Rightarrow> string \<Rightarrow> bool \<Rightarrow> bool \<Rightarrow> term_state \<Rightarrow> term_state \<times> (string, persistent_service) result" where
  "get_or_create_service t sid persistent specified_user st =
     (if get_service sid st = None \<and> length (services st) \<ge> MAX_SERVICES
      then (st, Inl ''Maximum number of terminal services (100) reached'')
      else
        let svc = unwrap_or (get_service sid st) (service_new t sid persistent specified_user);
            svc = reset_status persistent svc
        in (put_service sid svc (st\<lparr>cleanup_task := True\<rparr>), Inr svc))"

definition remove_service :: "string \<Rightarrow> term_state \<Rightarrow> term_state" where
  "remove_service sid st =
     (case get_service sid st of
        None \<Rightarrow> st
      | Some svc \<Rightarrow>
          st\<lparr>services := AList.delete sid (services st),
             terminal_tasks := terminal_tasks st @ concat (map (snd \<circ> stop \<circ> snd) (ts_sessions svc))\<rparr>)"

definition service_expired :: "nat \<Rightarrow> persistent_service \<Rightarrow> bool" where
  "service_expired t svc \<longleftrightarrow>
     (\<not> is_persistent svc \<and> t - svc_last_activity svc > SERVICE_IDLE_TIMEOUT)
     \<or> (is_persistent svc \<and> ts_sessions svc = [] \<and> t - svc_last_activity svc > SERVICE_IDLE_TIMEOUT * 2)"

definition cleanup_inactive_services :: "nat \<Rightarrow> term_state \<Rightarrow> term_state" where
  "cleanup_inactive_services t st =
     fold remove_service (map fst (filter (\<lambda>(i, svc). service_expired t svc) (services st))) st"

fun check_zombies :: "(nat \<Rightarrow> wait_result) \<Rightarrow> nat list \<Rightarrow> nat list" where
  "check_zombies w [] = []"
| "check_zombies w (c # cs) =
     (case w c of Running \<Rightarrow> c # check_zombies w cs | Exited _ \<Rightarrow> check_zombies w cs | WaitError \<Rightarrow> check_zombies w cs)"

definition check_zombie_terminals :: "term_env \<Rightarrow> term_state \<Rightarrow> term_state" where
  "check_zombie_terminals env st = st\<lparr>terminal_tasks := check_zombies (try_wait env) (terminal_tasks st)\<rparr>"

definition set_persistent :: "string \<Rightarrow> bool \<Rightarrow> term_state \<Rightarrow> term_state \<times> (string, unit) result" where
  "set_persistent sid persistent st =
     (case get_service sid st of
        Some svc \<Rightarrow> (put_service sid (svc\<lparr>is_persistent := persistent\<rparr>) st, Inr ())
      | None \<Rightarrow> (st, Inl (''Service '' @ sid @ '' not found'')))"

text \<open>A proxy is the service it names and the persistence it was created with.\<close>

definition proxy_persistent :: "string \<Rightarrow> bool option \<Rightarrow> term_state \<Rightarrow> bool" where
  "proxy_persistent sid p st =
     unwrap_or p (case get_service sid st of Some svc \<Rightarrow> is_persistent svc | None \<Rightarrow> False)"

definition get_terminal_session_count :: "bool \<Rightarrow> term_state \<Rightarrow> nat" where
  "get_terminal_session_count include_zombie_tasks st =
     length (services st) + (if include_zombie_tasks then length (terminal_tasks st) else 0)"

section \<open>Handlers\<close>

definition lowest_id :: "(int \<times> terminal_session) list \<Rightarrow> int" where
  "lowest_id ss = Min (set (map fst ss))"

definition remap_session :: "int \<Rightarrow> persistent_service \<Rightarrow> persistent_service" where
  "remap_session tid svc =
     (if map_of (ts_sessions svc) tid = None \<and> needs_session_sync svc \<and> ts_sessions svc \<noteq> []
      then case map_of (ts_sessions svc) (lowest_id (ts_sessions svc)) of
             Some s \<Rightarrow> svc\<lparr>ts_sessions := AList.update tid s (AList.delete (lowest_id (ts_sessions svc)) (ts_sessions svc))\<rparr>
           | None \<Rightarrow> svc
      else svc)"

text \<open>Reattaching to a session: at most \<open>CHANNEL_BUFFER_SIZE\<close> chunks are drained at once.\<close>

definition reattach :: "terminal_session \<Rightarrow> terminal_session" where
  "reattach s =
     (let backlog = (case output_rx s of Some q \<Rightarrow> take CHANNEL_BUFFER_SIZE q | None \<Rightarrow> []);
          ob = append_all backlog (out_buffer s);
          buffer = get_recent DEFAULT_RECONNECT_BUFFER_BYTES (if backlog \<noteq> [] then ob else out_buffer s)
      in s\<lparr>output_rx := map_option (drop CHANNEL_BUFFER_SIZE) (output_rx s), out_buffer := ob,
           ts_state := Active (if buffer \<noteq> [] then Some buffer else None) (TempResize MAX_SIGWINCH_PHASE_ATTEMPTS)\<rparr>)"

definition has_pending :: "terminal_session \<Rightarrow> bool" where
  "has_pending s \<longleftrightarrow> (case ts_state s of Active (Some _) _ \<Rightarrow> True | _ \<Rightarrow> False)"

definition open_existing :: "string \<Rightarrow> int \<Rightarrow> terminal_session \<Rightarrow> persistent_service \<Rightarrow> persistent_service \<times> terminal_response" where
  "open_existing proxy_id tid s svc =
     (let s = reattach s;
          others = (if needs_session_sync svc \<and> length (ts_sessions svc) > 1
                    then filter (\<lambda>i. i \<noteq> tid) (map fst (ts_sessions svc)) else [])
      in (svc\<lparr>ts_sessions := AList.update tid s (ts_sessions svc), needs_session_sync := False\<rparr>,
          RespOpened \<lparr>to_terminal_id = tid, to_success = True,
            to_message = (if has_pending s then ''Reconnected to existing terminal with pending output''
                          else ''Reconnected to existing terminal''),
            to_pid = pid s, to_service_id = proxy_id, replay_terminal_output = has_pending s, persistent_sessions = others\<rparr>))"

definition open_new ::
  "nat \<Rightarrow> shell_start \<Rightarrow> int \<Rightarrow> nat \<Rightarrow> nat \<Rightarrow> persistent_service \<Rightarrow> persistent_service \<times> (string, terminal_response) result" where
  "open_new t shell tid rows cols svc =
     (if \<not> pty_opened shell then (svc, Inl ''Failed to open PTY'')
      else case spawned shell of
             None \<Rightarrow> (svc, Inl ''Failed to spawn command'')
           | Some c \<Rightarrow>
               if \<not> pipes_taken shell then (svc, Inl ''Failed to get writer'')
               else
                 let s = (terminal_session_new t tid (as_u16 rows) (as_u16 cols))
                       \<lparr>pid := c, pty_pair := Some (as_u16 rows, as_u16 cols), child := Some c, input_tx := Some [],
                        output_rx := Some [], reader_thread := True, writer_thread := True, ts_state := Active None Idle\<rparr>;
                     others = (if needs_session_sync svc then map fst (ts_sessions svc) else [])
                 in (svc\<lparr>ts_sessions := AList.update tid s (ts_sessions svc), needs_session_sync := False\<rparr>,
                     Inr (RespOpened \<lparr>to_terminal_id = tid, to_success = True, to_message = ''Terminal opened'', to_pid = c,
                       to_service_id = service_id svc, replay_terminal_output = False, persistent_sessions = others\<rparr>)))"

definition handle_open ::
  "term_env \<Rightarrow> shell_start \<Rightarrow> string \<Rightarrow> int \<Rightarrow> nat \<Rightarrow> nat \<Rightarrow> persistent_service \<Rightarrow> persistent_service \<times> (string, terminal_response) result" where
  "handle_open env shell proxy_id tid rows cols svc =
     (let svc = remap_session tid svc
      in case map_of (ts_sessions svc) tid of
           Some s \<Rightarrow> (let (svc, r) = open_existing proxy_id tid s svc in (svc, Inr r))
         | None \<Rightarrow> open_new (now env) shell tid rows cols svc)"

definition resize_pty :: "term_env \<Rightarrow> int \<Rightarrow> nat \<Rightarrow> nat \<Rightarrow> terminal_session \<Rightarrow> terminal_session \<times> bool" where
  "resize_pty env tid rows cols s =
     (case pty_pair s of
        None \<Rightarrow> (s, True)
      | Some _ \<Rightarrow> if resize_ok env tid rows cols then (s\<lparr>pty_pair := Some (rows, cols)\<rparr>, True) else (s, False))"

definition handle_resize :: "term_env \<Rightarrow> int \<Rightarrow> nat \<Rightarrow> nat \<Rightarrow> persistent_service \<Rightarrow> persistent_service \<times> (string, unit) result" where
  "handle_resize env tid rows cols svc =
     (case map_of (ts_sessions svc) tid of
        None \<Rightarrow> (svc, Inr ())
      | Some s \<Rightarrow>
          let s = s\<lparr>ts_last_activity := now env, ts_rows := as_u16 rows, ts_cols := as_u16 cols\<rparr>;
              (s, ok) = resize_pty env tid (as_u16 rows) (as_u16 cols) s
          in (svc\<lparr>ts_sessions := AList.update tid s (ts_sessions svc)\<rparr>, if ok then Inr () else Inl ''resize failed''))"

definition handle_data :: "term_env \<Rightarrow> int \<Rightarrow> bytes \<Rightarrow> persistent_service \<Rightarrow> persistent_service" where
  "handle_data env tid data svc =
     (case map_of (ts_sessions svc) tid of
        None \<Rightarrow> svc
      | Some s \<Rightarrow>
          svc\<lparr>ts_sessions := AList.update tid
                (s\<lparr>ts_last_activity := now env, input_tx := map_option (\<lambda>q. q @ [data]) (input_tx s)\<rparr>) (ts_sessions svc)\<rparr>)"

text \<open>A failing \<open>kill\<close> returns before the child is given to the reaper.\<close>

definition handle_close ::
  "term_env \<Rightarrow> int \<Rightarrow> persistent_service \<times> nat list \<Rightarrow> (persistent_service \<times> nat list) \<times> (string, terminal_response option) result" where
  "handle_close env tid x =
     (case x of (svc, tasks) \<Rightarrow>
        case map_of (ts_sessions svc) tid of
          None \<Rightarrow> (x, Inr None)
        | Some s \<Rightarrow>
            let svc = svc\<lparr>ts_sessions := AList.delete tid (ts_sessions svc)\<rparr>
            in case child s of
                 None \<Rightarrow> ((svc, tasks), Inr (Some (RespClosed tid 0)))
               | Some c \<Rightarrow>
                   if kill_ok env c then ((svc, tasks @ [c]), Inr (Some (RespClosed tid (- 1))))
                   else ((svc, tasks), Inl ''kill failed''))"

text \<open>
  An action and a poll of the outputs are one step each. The source takes the lock of the service for
  the lookup and then that of each session in turn, so a poll and an action on different sessions of
  one service may overlap, and a poll passes over a session whose lock is taken; what one session goes
  through is still one after the other, under its lock.
\<close>

definition handle_action ::
  "term_env \<Rightarrow> shell_start \<Rightarrow> string \<Rightarrow> terminal_action \<Rightarrow> term_state \<Rightarrow> term_state \<times> (string, terminal_response option) result" where
  "handle_action env shell sid action st =
     (case get_service sid st of
        None \<Rightarrow> (st, Inr (Some (RespError (''Terminal service '' @ sid @ '' not found''))))
      | Some svc \<Rightarrow>
          let svc = svc\<lparr>svc_last_activity := now env\<rparr>
          in case action of
               OpenTerminal tid rows cols \<Rightarrow>
                 (let (svc, r) = handle_open env shell sid tid rows cols svc
                  in (put_service sid svc st, case r of Inl e \<Rightarrow> Inl e | Inr x \<Rightarrow> Inr (Some x)))
             | ResizeTerminal tid rows cols \<Rightarrow>
                 (let (svc, r) = handle_resize env tid rows cols svc
                  in (put_service sid svc st, case r of Inl e \<Rightarrow> Inl e | Inr _ \<Rightarrow> Inr None))
             | TerminalData tid data \<Rightarrow> (put_service sid (handle_data env tid data svc) st, Inr None)
             | CloseTerminal tid \<Rightarrow>
                 (let ((svc, tasks), r) = handle_close env tid (svc, terminal_tasks st)
                  in ((put_service sid svc st)\<lparr>terminal_tasks := tasks\<rparr>, r))
             | NoAction \<Rightarrow> (put_service sid svc st, Inr None))"

section \<open>Polling\<close>

definition sigwinch_rows :: "sigwinch_action \<Rightarrow> nat \<Rightarrow> nat" where
  "sigwinch_rows action rows =
     (case action of
        DoTempResize \<Rightarrow> if rows > 2 then rows - 1 else min 65535 (rows + 1)
      | DoRestore \<Rightarrow> rows)"

definition do_sigwinch_resize :: "term_env \<Rightarrow> int \<Rightarrow> sigwinch_action \<Rightarrow> terminal_session \<Rightarrow> terminal_session \<times> bool" where
  "do_sigwinch_resize env tid action s =
     (if ts_rows s = 0 \<or> ts_cols s = 0 then (s, False)
      else case pty_pair s of
             None \<Rightarrow> (s, False)
           | Some _ \<Rightarrow>
               let target_rows = sigwinch_rows action (ts_rows s)
               in if resize_ok env tid target_rows (ts_cols s)
                  then (s\<lparr>pty_pair := Some (target_rows, ts_cols s)\<rparr>, True) else (s, False))"

definition create_terminal_data_response :: "term_env \<Rightarrow> int \<Rightarrow> bytes \<Rightarrow> terminal_response" where
  "create_terminal_data_response env tid data =
     (if length data > COMPRESS_THRESHOLD
      then let compressed = shrink env data
           in if length compressed < length data then RespData tid compressed True else RespData tid data False
      else RespData tid data False)"

definition session_ended :: "term_env \<Rightarrow> int \<Rightarrow> terminal_session \<Rightarrow> bool" where
  "session_ended env tid s \<longleftrightarrow> \<not> closed_message_sent s
     \<and> ((reader_thread s \<and> reader_finished env tid)
        \<or> (case child s of Some c \<Rightarrow> (case try_wait env c of Exited _ \<Rightarrow> True | _ \<Rightarrow> False) | None \<Rightarrow> False))"

text \<open>The action of a phase and the phase with one attempt used up.\<close>

fun take_attempt :: "sigwinch_phase \<Rightarrow> sigwinch_phase \<times> sigwinch_action option" where
  "take_attempt (TempResize n) = (if n = 0 then (Idle, None) else (TempResize (n - 1), Some DoTempResize))"
| "take_attempt (Restore n) = (if n = 0 then (Idle, None) else (Restore (n - 1), Some DoRestore))"
| "take_attempt Idle = (Idle, None)"

fun after_resize :: "sigwinch_action \<Rightarrow> bool \<Rightarrow> sigwinch_phase \<Rightarrow> sigwinch_phase" where
  "after_resize DoTempResize ok p = (if ok then Restore MAX_SIGWINCH_PHASE_ATTEMPTS else p)"
| "after_resize DoRestore ok p = (if ok then Idle else p)"

definition poll_session :: "term_env \<Rightarrow> int \<Rightarrow> terminal_session \<Rightarrow> terminal_session \<times> terminal_response list" where
  "poll_session env tid s =
     (let s = (if session_ended env tid s then s\<lparr>closed_message_sent := True\<rparr> else s);
          received = unwrap_or (output_rx s) [];
          s = s\<lparr>output_rx := map_option (\<lambda>_. []) (output_rx s), out_buffer := append_all received (out_buffer s)\<rparr>
      in case ts_state s of
           Closed \<Rightarrow> (s, [])
         | Active pending sigwinch \<Rightarrow>
             let (phase, act) = take_attempt sigwinch;
                 s = s\<lparr>ts_state := Active None phase\<rparr>;
                 replay = (case pending of
                             Some b \<Rightarrow> if b \<noteq> [] then [create_terminal_data_response env tid b] else []
                           | None \<Rightarrow> []);
                 s = (if received \<noteq> [] then s\<lparr>ts_last_activity := now env\<rparr> else s);
                 s = (case act of
                        None \<Rightarrow> s
                      | Some a \<Rightarrow>
                          let (s, ok) = do_sigwinch_resize env tid a s
                          in s\<lparr>ts_state := Active None (after_resize a ok phase)\<rparr>)
             in (s, replay @ map (create_terminal_data_response env tid) received))"

text \<open>The end of a session: its child goes to the reaper, the session leaves the service.\<close>

definition close_terminal ::
  "term_env \<Rightarrow> bool \<Rightarrow> int \<Rightarrow> (int \<times> terminal_session) list \<times> nat list \<Rightarrow> (int \<times> terminal_session) list \<times> nat list" where
  "close_terminal env persistent tid x =
     (case x of (ss, tasks) \<Rightarrow>
        case map_of ss tid of
          None \<Rightarrow> (ss, tasks)
        | Some s \<Rightarrow>
            let tasks = (case child s of Some c \<Rightarrow> tasks @ [c] | None \<Rightarrow> tasks)
            in if \<not> persistent \<or> closed_message_sent s then (AList.delete tid ss, tasks)
               else (AList.update tid (s\<lparr>child := None\<rparr>) ss, tasks))"

definition closed_response :: "term_env \<Rightarrow> (int \<times> terminal_session) list \<Rightarrow> int \<Rightarrow> terminal_response" where
  "closed_response env ss tid =
     RespClosed tid (case map_of ss tid of
                       Some s \<Rightarrow> (case child s of
                                    Some c \<Rightarrow> (case try_wait env c of Exited code \<Rightarrow> wrap_i32 (int code) | _ \<Rightarrow> 0)
                                  | None \<Rightarrow> 0)
                     | None \<Rightarrow> 0)"

definition read_outputs :: "term_env \<Rightarrow> string \<Rightarrow> bool \<Rightarrow> term_state \<Rightarrow> term_state \<times> terminal_response list" where
  "read_outputs env sid persistent st =
     (case get_service sid st of
        None \<Rightarrow> (st, [])
      | Some svc \<Rightarrow>
          let ss = ts_sessions svc;
              closed = map fst (filter (\<lambda>(i, s). \<not> session_locked env i \<and> session_ended env i s) ss);
              polled = map (\<lambda>(i, s). if session_locked env i then (i, s) else (i, fst (poll_session env i s))) ss;
              resp = concat (map (\<lambda>(i, s). if session_locked env i then [] else snd (poll_session env i s)) ss);
              (ss', tasks) = fold (close_terminal env persistent) closed (polled, terminal_tasks st)
          in ((put_service sid (svc\<lparr>ts_sessions := ss'\<rparr>) st)\<lparr>terminal_tasks := tasks\<rparr>,
              resp @ map (closed_response env polled) closed))"

definition on_disconnect :: "string \<Rightarrow> bool \<Rightarrow> term_state \<Rightarrow> term_state" where
  "on_disconnect sid persistent st = (if \<not> persistent then remove_service sid st else st)"

text \<open>The end of the service's loop.\<close>

definition run_end :: "string \<Rightarrow> term_state \<Rightarrow> term_state" where
  "run_end sid st =
     (case get_service sid st of
        Some svc \<Rightarrow> if \<not> is_persistent svc then remove_service sid st else st
      | None \<Rightarrow> st)"

section \<open>Operations as steps\<close>

text \<open>The reader thread of a session sends a chunk through the bounded channel.\<close>

definition reader_push :: "string \<Rightarrow> int \<Rightarrow> bytes \<Rightarrow> term_state \<Rightarrow> term_state" where
  "reader_push sid tid data st =
     (case get_service sid st of
        None \<Rightarrow> st
      | Some svc \<Rightarrow>
          case map_of (ts_sessions svc) tid of
            None \<Rightarrow> st
          | Some s \<Rightarrow>
              put_service sid (svc\<lparr>ts_sessions := AList.update tid
                (s\<lparr>output_rx := map_option (\<lambda>q. fst (try_send CHANNEL_BUFFER_SIZE True data q)) (output_rx s)\<rparr>) (ts_sessions svc)\<rparr>) st)"

datatype term_op =
    CreateService nat string bool bool
  | RemoveService string
  | Cleanup nat
  | Reap term_env
  | SetPersistent string bool
  | Action term_env shell_start string terminal_action
  | Poll term_env string bool
  | Disconnect string bool
  | RunEnd string
  | ReaderPush string int bytes

fun term_step :: "term_op \<Rightarrow> term_state \<Rightarrow> term_state" where
  "term_step (CreateService t sid p u) st = fst (get_or_create_service t sid p u st)"
| "term_step (RemoveService sid) st = remove_service sid st"
| "term_step (Cleanup t) st = cleanup_inactive_services t st"
| "term_step (Reap env) st = check_zombie_terminals env st"
| "term_step (SetPersistent sid p) st = fst (set_persistent sid p st)"
| "term_step (Action env shell sid a) st = fst (handle_action env shell sid a st)"
| "term_step (Poll env sid p) st = fst (read_outputs env sid p st)"
| "term_step (Disconnect sid p) st = on_disconnect sid p st"
| "term_step (RunEnd sid) st = run_end sid st"
| "term_step (ReaderPush sid tid d) st = reader_push sid tid d st"

definition term_init :: term_state where
  "term_init = \<lparr>services = [], terminal_tasks = [], cleanup_task = False\<rparr>"

section \<open>Lemmas: association lists\<close>

lemma map_of_in_set: "map_of xs k = Some v \<Longrightarrow> (k, v) \<in> set xs"
  by (rule map_of_SomeD)

lemma list_all_update: "list_all P xs \<Longrightarrow> P (k, v) \<Longrightarrow> list_all P (AList.update k v xs)"
  by (induction xs) auto

lemma list_all_delete: "list_all P xs \<Longrightarrow> list_all P (AList.delete k xs)"
  by (induction xs) auto

lemma length_update: "length (AList.update k v xs) = (if map_of xs k = None then Suc (length xs) else length xs)"
  by (induction xs) auto

definition msum :: "('v \<Rightarrow> 'm multiset) \<Rightarrow> ('k \<times> 'v) list \<Rightarrow> 'm multiset" where
  "msum f xs = sum_list (map (f \<circ> snd) xs)"

lemma msum_simps [simp]: "msum f [] = {#}" "msum f ((k, v) # xs) = f v + msum f xs"
  by (simp_all add: msum_def)

lemma msum_update_new: "map_of xs k = None \<Longrightarrow> msum f (AList.update k v xs) = msum f xs + f v"
  by (induction xs) (auto split: if_splits)

lemma msum_update_old: "map_of xs k = Some w \<Longrightarrow> msum f (AList.update k v xs) + f w = msum f xs + f v"
  by (induction xs) (auto split: if_splits simp: ac_simps)

lemma delete_absent: "k \<notin> fst ` set xs \<Longrightarrow> AList.delete k xs = xs"
  by (induction xs) auto

lemma msum_delete: "distinct (map fst xs) \<Longrightarrow> map_of xs k = Some w \<Longrightarrow> msum f (AList.delete k xs) + f w = msum f xs"
  by (induction xs) (auto split: if_splits simp: ac_simps delete_absent)

lemma msum_map: "msum f (map (\<lambda>(i, s). (i, g i s)) xs) = sum_list (map (\<lambda>(i, s). f (g i s)) xs)"
  by (induction xs) auto

section \<open>The invariant\<close>

fun state_ok :: "session_state \<Rightarrow> bool" where
  "state_ok Closed = True"
| "state_ok (Active pending phase) \<longleftrightarrow>
     (case pending of None \<Rightarrow> True | Some b \<Rightarrow> b \<noteq> [] \<and> length b \<le> DEFAULT_RECONNECT_BUFFER_BYTES)
     \<and> (case phase of Idle \<Rightarrow> True | TempResize n \<Rightarrow> n \<le> MAX_SIGWINCH_PHASE_ATTEMPTS | Restore n \<Rightarrow> n \<le> MAX_SIGWINCH_PHASE_ATTEMPTS)"

definition session_ok :: "terminal_session \<Rightarrow> bool" where
  "session_ok s \<longleftrightarrow> ob_inv (out_buffer s) \<and> \<not> closed_message_sent s \<and> state_ok (ts_state s)
     \<and> (case output_rx s of None \<Rightarrow> True | Some q \<Rightarrow> length q \<le> CHANNEL_BUFFER_SIZE)"

definition sessions_ok :: "(int \<times> terminal_session) list \<Rightarrow> bool" where
  "sessions_ok ss \<longleftrightarrow> distinct (map fst ss) \<and> list_all (\<lambda>(i, s). session_ok s) ss"

definition term_ok :: "term_state \<Rightarrow> bool" where
  "term_ok st \<longleftrightarrow> distinct (map fst (services st)) \<and> length (services st) \<le> MAX_SERVICES
     \<and> list_all (\<lambda>(i, svc). sessions_ok (ts_sessions svc)) (services st)"

lemma sessions_ok_lookup: "sessions_ok ss \<Longrightarrow> map_of ss tid = Some s \<Longrightarrow> session_ok s"
  by (auto simp: sessions_ok_def list_all_iff dest: map_of_in_set)

lemma sessions_ok_update: "sessions_ok ss \<Longrightarrow> session_ok s \<Longrightarrow> sessions_ok (AList.update tid s ss)"
  by (simp add: sessions_ok_def list_all_update distinct_update)

lemma sessions_ok_delete: "sessions_ok ss \<Longrightarrow> sessions_ok (AList.delete tid ss)"
  by (simp add: sessions_ok_def list_all_delete distinct_delete)

lemma term_ok_lookup: "term_ok st \<Longrightarrow> get_service sid st = Some svc \<Longrightarrow> sessions_ok (ts_sessions svc)"
  by (auto simp: term_ok_def get_service_def list_all_iff dest: map_of_in_set)

lemma term_ok_put:
  assumes "term_ok st" "get_service sid st = Some svc0" "sessions_ok (ts_sessions svc)"
  shows "term_ok (put_service sid svc st)"
  using assms by (simp add: term_ok_def put_service_def list_all_update distinct_update get_service_def length_update)

lemma term_ok_tasks [simp]: "term_ok (st\<lparr>terminal_tasks := ts\<rparr>) = term_ok st"
  by (simp add: term_ok_def)

lemma term_ok_remove: "term_ok st \<Longrightarrow> term_ok (remove_service sid st)"
  by (auto simp: term_ok_def remove_service_def list_all_delete distinct_delete split: option.split
      intro: order_trans [OF length_delete_le])

lemma ob_inv_append_all: "ob_inv b \<Longrightarrow> ob_inv (append_all ds b)"
  using append_all_spec by blast

lemma reset_ok: "sessions_ok ss \<Longrightarrow> sessions_ok (map (\<lambda>(i, s). (i, s\<lparr>ts_state := Closed\<rparr>)) ss)"
  by (auto simp: sessions_ok_def list_all_iff session_ok_def comp_def case_prod_beta)

lemma term_ok_create: "term_ok st \<Longrightarrow> term_ok (fst (get_or_create_service t sid p u st))"
proof (cases "get_service sid st")
  case None
  assume "term_ok st"
  with None show ?thesis
    by (auto simp: get_or_create_service_def term_ok_def put_service_def reset_status_def service_new_def sessions_ok_def
        get_service_def list_all_update distinct_update length_update Let_def)
next
  case (Some svc)
  assume ok: "term_ok st"
  then have "sessions_ok (ts_sessions (reset_status p svc))"
    using reset_ok term_ok_lookup [OF ok Some] by (simp add: reset_status_def)
  with Some ok show ?thesis
    by (auto simp: get_or_create_service_def term_ok_def put_service_def get_service_def list_all_update distinct_update
        length_update Let_def)
qed

lemma reattach_ok: "session_ok s \<Longrightarrow> session_ok (reattach s)"
  using get_recent_limit [of DEFAULT_RECONNECT_BUFFER_BYTES]
  by (auto simp: session_ok_def reattach_def Let_def ob_inv_append_all split: option.splits)

lemma remap_ok: "sessions_ok (ts_sessions svc) \<Longrightarrow> sessions_ok (ts_sessions (remap_session tid svc))"
  by (auto simp: remap_session_def intro!: sessions_ok_update sessions_ok_delete dest: sessions_ok_lookup split: option.split)

lemma handle_open_ok:
  assumes "sessions_ok (ts_sessions svc)"
  shows "sessions_ok (ts_sessions (fst (handle_open env shell sid tid rows cols svc)))"
proof -
  have "session_ok (terminal_session_new t tid r c\<lparr>pid := p, pty_pair := y, child := k, input_tx := i, output_rx := Some [],
      reader_thread := a, writer_thread := b, ts_state := Active None Idle\<rparr>)" for t r c p y k i a b
    using ob_inv_new by (simp add: session_ok_def terminal_session_new_def)
  with remap_ok [OF assms, of tid] sessions_ok_lookup show ?thesis
    by (auto simp: handle_open_def open_existing_def open_new_def Let_def reattach_ok intro!: sessions_ok_update split: option.split)
qed

lemma handle_resize_ok:
  "sessions_ok (ts_sessions svc) \<Longrightarrow> sessions_ok (ts_sessions (fst (handle_resize env tid rows cols svc)))"
  by (auto simp: handle_resize_def resize_pty_def Let_def session_ok_def intro!: sessions_ok_update
      dest: sessions_ok_lookup split: option.splits)

lemma handle_data_ok: "sessions_ok (ts_sessions svc) \<Longrightarrow> sessions_ok (ts_sessions (handle_data env tid d svc))"
  by (auto simp: handle_data_def session_ok_def intro!: sessions_ok_update dest: sessions_ok_lookup split: option.splits)

lemma handle_close_ok:
  "sessions_ok (ts_sessions svc) \<Longrightarrow> sessions_ok (ts_sessions (fst (fst (handle_close env tid (svc, ts)))))"
  by (auto simp: handle_close_def Let_def sessions_ok_delete split: option.splits)

subsection \<open>Polling keeps the invariant\<close>

lemma resize_fields:
  assumes "do_sigwinch_resize env tid a s = (s', ok)"
  shows "\<exists>y. s' = s\<lparr>pty_pair := y\<rparr>"
  using assms unfolding do_sigwinch_resize_def Let_def
  by (auto split: if_splits option.splits intro: exI [of _ "pty_pair s"])

lemma poll_session_fields:
  assumes "poll_session env tid s = (s', rs)"
  shows "child s' = child s" "out_buffer s' = append_all (unwrap_or (output_rx s) []) (out_buffer s)"
    "output_rx s' = map_option (\<lambda>_. []) (output_rx s)"
    "closed_message_sent s' \<longleftrightarrow> closed_message_sent s \<or> session_ended env tid s"
  using assms
  by (auto simp: poll_session_def Let_def dest!: resize_fields
      split: session_state.splits option.splits prod.splits if_splits)

lemma poll_session_state:
  assumes "poll_session env tid s = (s', rs)"
  shows "ts_state s = Closed \<Longrightarrow> ts_state s' = Closed \<and> rs = [] \<and> pty_pair s' = pty_pair s"
    and "ts_state s = Active pending phase \<Longrightarrow>
      \<exists>ok. ts_state s' = Active None (case snd (take_attempt phase) of None \<Rightarrow> fst (take_attempt phase)
                                       | Some a \<Rightarrow> after_resize a ok (fst (take_attempt phase)))
        \<and> rs = (case pending of Some b \<Rightarrow> if b \<noteq> [] then [create_terminal_data_response env tid b] else [] | None \<Rightarrow> [])
                @ map (create_terminal_data_response env tid) (unwrap_or (output_rx s) [])"
  using assms
  by (auto simp: poll_session_def Let_def dest!: resize_fields
      split: session_state.splits option.splits prod.splits if_splits)

lemma take_attempt_ok:
  "state_ok (Active p phase) \<Longrightarrow> state_ok (Active None (case snd (take_attempt phase) of None \<Rightarrow> fst (take_attempt phase)
      | Some a \<Rightarrow> after_resize a ok (fst (take_attempt phase))))"
  by (cases phase) auto

lemma poll_session_ok:
  assumes "session_ok s" "\<not> session_ended env tid s" "poll_session env tid s = (s', rs)"
  shows "session_ok s'"
proof -
  have "state_ok (ts_state s')"
  proof (cases "ts_state s")
    case Closed
    with poll_session_state(1) [OF assms(3)] show ?thesis by simp
  next
    case (Active p phase)
    with poll_session_state(2) [OF assms(3)] take_attempt_ok [of p phase] assms(1) show ?thesis
      by (auto simp: session_ok_def)
  qed
  with assms poll_session_fields [OF assms(3)] show ?thesis
    by (auto simp: session_ok_def ob_inv_append_all split: option.splits)
qed

definition kids :: "terminal_session \<Rightarrow> nat multiset" where
  "kids s = (case child s of None \<Rightarrow> {#} | Some c \<Rightarrow> {#c#})"

text \<open>Closing the ended sessions removes them and hands their children over.\<close>

lemma close_terminal_ended:
  assumes "map_of ss tid = Some s" "closed_message_sent s"
  shows "close_terminal env p tid (ss, ts) = (AList.delete tid ss, ts @ (case child s of None \<Rightarrow> [] | Some c \<Rightarrow> [c]))"
  using assms by (simp add: close_terminal_def Let_def split: option.split)

lemma close_terminals:
  assumes "distinct (map fst ss)" "distinct cs" "\<And>tid. tid \<in> set cs \<Longrightarrow> \<exists>s. map_of ss tid = Some s \<and> closed_message_sent s"
    "fold (close_terminal env p) cs (ss, ts) = (ss', ts')"
  shows "ss' = filter (\<lambda>(i, s). i \<notin> set cs) ss \<and> msum kids ss' + mset ts' = msum kids ss + mset ts"
  using assms
proof (induction cs arbitrary: ss ts)
  case Nil
  then show ?case by (auto simp: filter_id_conv)
next
  case (Cons c cs)
  then obtain s where s: "map_of ss c = Some s" "closed_message_sent s" by fastforce
  let ?ts = "ts @ (case child s of None \<Rightarrow> [] | Some k \<Rightarrow> [k])"
  have rest: "fold (close_terminal env p) cs (AList.delete c ss, ?ts) = (ss', ts')"
    using Cons.prems(4) close_terminal_ended [OF s] by simp
  have here: "\<exists>s. map_of (AList.delete c ss) tid = Some s \<and> closed_message_sent s" if "tid \<in> set cs" for tid
    using Cons.prems(2) Cons.prems(3) [of tid] that by (auto simp: delete_conv)
  from Cons.IH [OF _ _ here rest] Cons.prems(1,2)
  have IH: "ss' = filter (\<lambda>(i, s). i \<notin> set cs) (AList.delete c ss)"
    "msum kids ss' + mset ts' = msum kids (AList.delete c ss) + mset ?ts" by (auto simp: distinct_delete)
  have "mset ?ts = mset ts + kids s" by (simp add: kids_def split: option.split)
  moreover have "msum kids (AList.delete c ss) + kids s = msum kids ss" by (rule msum_delete [OF Cons.prems(1) s(1)])
  ultimately have "msum kids ss' + mset ts' = msum kids ss + mset ts" using IH(2) by (simp add: ac_simps)
  moreover have "filter (\<lambda>(i, s). i \<notin> set cs) (AList.delete c ss) = filter (\<lambda>(i, s). i \<notin> set (c # cs)) ss"
    by (induction ss) auto
  ultimately show ?case using IH(1) by simp
qed

text \<open>One round of polling: the sessions that have ended, and the others after their poll.\<close>

definition ended_ids :: "term_env \<Rightarrow> (int \<times> terminal_session) list \<Rightarrow> int list" where
  "ended_ids env ss = map fst (filter (\<lambda>(i, s). \<not> session_locked env i \<and> session_ended env i s) ss)"

definition polled :: "term_env \<Rightarrow> (int \<times> terminal_session) list \<Rightarrow> (int \<times> terminal_session) list" where
  "polled env ss = map (\<lambda>(i, s). (i, if session_locked env i then s else fst (poll_session env i s))) ss"

lemma map_fst_polled [simp]: "map fst (polled env ss) = map fst ss"
  by (simp add: polled_def case_prod_beta comp_def)

lemma kids_poll: "kids (fst (poll_session env i s)) = kids s"
  using poll_session_fields(1) [of env i s] by (metis kids_def prod.collapse)

lemma kids_polled: "msum kids (polled env ss) = msum kids ss"
  by (induction ss) (auto simp: polled_def kids_poll)

lemma ended_polled:
  assumes "distinct (map fst ss)" "tid \<in> set (ended_ids env ss)"
  shows "\<exists>s. map_of (polled env ss) tid = Some s \<and> closed_message_sent s"
proof -
  from assms obtain s where s: "(tid, s) \<in> set ss" "\<not> session_locked env tid" "session_ended env tid s"
    by (auto simp: ended_ids_def)
  then have "(tid, fst (poll_session env tid s)) \<in> set (polled env ss)" by (force simp: polled_def)
  with assms(1) have "map_of (polled env ss) tid = Some (fst (poll_session env tid s))"
    by (intro map_of_is_SomeI) simp_all
  with s(3) poll_session_fields(4) [of env tid s] show ?thesis by (metis prod.collapse)
qed

lemma read_outputs_spec:
  fixes env :: term_env
  assumes "get_service sid st = Some svc" "sessions_ok (ts_sessions svc)"
  defines "cs \<equiv> ended_ids env (ts_sessions svc)" and "ss \<equiv> polled env (ts_sessions svc)"
  shows "\<exists>ts. read_outputs env sid p st =
      ((put_service sid (svc\<lparr>ts_sessions := filter (\<lambda>(i, s). i \<notin> set cs) ss\<rparr>) st)\<lparr>terminal_tasks := ts\<rparr>,
       concat (map (\<lambda>(i, s). if session_locked env i then [] else snd (poll_session env i s)) (ts_sessions svc))
         @ map (closed_response env ss) cs)
     \<and> msum kids (filter (\<lambda>(i, s). i \<notin> set cs) ss) + mset ts = msum kids (ts_sessions svc) + mset (terminal_tasks st)"
proof -
  have d: "distinct (map fst (ts_sessions svc))" using assms(2) by (simp add: sessions_ok_def)
  then have dc: "distinct cs" by (simp add: cs_def ended_ids_def distinct_map_filter)
  obtain ss' ts where f: "fold (close_terminal env p) cs (ss, terminal_tasks st) = (ss', ts)" by (meson surj_pair)
  have m: "\<And>tid. tid \<in> set cs \<Longrightarrow> \<exists>s. map_of ss tid = Some s \<and> closed_message_sent s"
    unfolding cs_def ss_def by (rule ended_polled [OF d])
  from close_terminals [OF _ dc m f] d have c: "ss' = filter (\<lambda>(i, s). i \<notin> set cs) ss"
    "msum kids ss' + mset ts = msum kids ss + mset (terminal_tasks st)" by (auto simp: ss_def)
  have ss: "map (\<lambda>(i, s). if session_locked env i then (i, s) else (i, fst (poll_session env i s))) (ts_sessions svc) = ss"
    by (auto simp: ss_def polled_def)
  have cs: "map fst (filter (\<lambda>(i, s). \<not> session_locked env i \<and> session_ended env i s) (ts_sessions svc)) = cs"
    by (simp add: cs_def ended_ids_def)
  have "read_outputs env sid p st = ((put_service sid (svc\<lparr>ts_sessions := ss'\<rparr>) st)\<lparr>terminal_tasks := ts\<rparr>,
      concat (map (\<lambda>(i, s). if session_locked env i then [] else snd (poll_session env i s)) (ts_sessions svc))
        @ map (closed_response env ss) cs)"
    unfolding read_outputs_def Let_def assms(1) option.case ss cs f by simp
  with c kids_polled [of env "ts_sessions svc", folded ss_def] show ?thesis by auto
qed

lemma read_outputs_ok:
  assumes "term_ok st"
  shows "term_ok (fst (read_outputs env sid p st))"
proof (cases "get_service sid st")
  case None
  with assms show ?thesis by (simp add: read_outputs_def)
next
  case (Some svc)
  note ok = term_ok_lookup [OF assms Some]
  let ?ss = "filter (\<lambda>(i, s). i \<notin> set (ended_ids env (ts_sessions svc))) (polled env (ts_sessions svc))"
  have "session_ok s" if "(i, s) \<in> set ?ss" for i s
  proof -
    from that obtain s0 where s0: "(i, s0) \<in> set (ts_sessions svc)" "s = (if session_locked env i then s0 else fst (poll_session env i s0))"
      "i \<notin> set (ended_ids env (ts_sessions svc))" by (auto simp: polled_def)
    then have "session_ok s0" using ok by (auto simp: sessions_ok_def list_all_iff)
    moreover have "session_locked env i \<or> \<not> session_ended env i s0"
      using s0(1,3) by (force simp: ended_ids_def)
    ultimately show ?thesis using s0(2) poll_session_ok [of s0 env i] by (metis prod.collapse)
  qed
  moreover have "distinct (map fst ?ss)"
    using ok by (intro distinct_map_filter) (simp add: sessions_ok_def)
  ultimately have "sessions_ok ?ss" by (auto simp: sessions_ok_def list_all_iff)
  with read_outputs_spec [OF Some ok, of env p] term_ok_put [OF assms Some] show ?thesis by auto
qed

subsection \<open>Every step\<close>

lemma handle_action_ok:
  assumes "term_ok st"
  shows "term_ok (fst (handle_action env shell sid a st))"
proof (cases "get_service sid st")
  case None
  with assms show ?thesis by (simp add: handle_action_def)
next
  case (Some svc)
  let ?svc = "svc\<lparr>svc_last_activity := now env\<rparr>"
  have ok: "sessions_ok (ts_sessions ?svc)" using term_ok_lookup [OF assms Some] by simp
  note put = term_ok_put [OF assms Some]
  show ?thesis
    using Some handle_open_ok [OF ok] handle_resize_ok [OF ok] handle_data_ok [OF ok] handle_close_ok [OF ok] put [OF ok] put
    by (cases a) (simp_all add: handle_action_def case_prod_beta Let_def)
qed

lemma cleanup_keeps:
  assumes "P st" "\<And>sid st. P st \<Longrightarrow> P (remove_service sid st)"
  shows "P (cleanup_inactive_services t st)"
proof -
  have "P (fold remove_service sids st')" if "P st'" for sids st'
    using that assms(2) by (induction sids arbitrary: st') auto
  then show ?thesis using assms(1) by (simp add: cleanup_inactive_services_def)
qed

lemma reader_push_ok:
  assumes "term_ok st"
  shows "term_ok (reader_push sid tid d st)"
proof (cases "get_service sid st")
  case (Some svc)
  show ?thesis
  proof (cases "map_of (ts_sessions svc) tid")
    case s: (Some s)
    note ok = term_ok_lookup [OF assms Some]
    have "session_ok (s\<lparr>output_rx := map_option (\<lambda>q. fst (try_send CHANNEL_BUFFER_SIZE True d q)) (output_rx s)\<rparr>)"
      using sessions_ok_lookup [OF ok s] by (auto simp: session_ok_def try_send_def split: option.splits)
    from term_ok_put [OF assms Some] sessions_ok_update [OF ok this] Some s show ?thesis by (simp add: reader_push_def)
  qed (use assms Some in \<open>simp add: reader_push_def\<close>)
qed (use assms in \<open>simp add: reader_push_def\<close>)

lemma term_step_ok: "term_ok st \<Longrightarrow> term_ok (term_step op st)"
proof (cases op)
  case (SetPersistent sid p)
  assume "term_ok st"
  with SetPersistent show ?thesis
    by (auto simp: set_persistent_def intro!: term_ok_put dest: term_ok_lookup split: option.split)
qed (simp_all add: term_ok_create term_ok_remove cleanup_keeps handle_action_ok read_outputs_ok reader_push_ok
    check_zombie_terminals_def on_disconnect_def run_end_def split: option.split)

lemma term_ok_init: "term_ok term_init"
  by (simp add: term_ok_def term_init_def)

lemma reachable_ok: "term_ok (fold term_step ops term_init)"
  using term_step_ok by (induction ops rule: rev_induct) (auto simp: term_ok_init)

section \<open>Lemmas: child processes\<close>

definition svc_kids :: "persistent_service \<Rightarrow> nat multiset" where
  "svc_kids svc = msum kids (ts_sessions svc)"

definition term_kids :: "term_state \<Rightarrow> nat multiset" where
  "term_kids st = msum svc_kids (services st) + mset (terminal_tasks st)"

lemma put_service_kids:
  assumes "get_service sid st = Some svc0" "svc_kids svc + mset ts = svc_kids svc0 + mset (terminal_tasks st) + d"
  shows "term_kids ((put_service sid svc st)\<lparr>terminal_tasks := ts\<rparr>) = term_kids st + d"
proof -
  have "msum svc_kids (AList.update sid svc (services st)) + svc_kids svc0 = msum svc_kids (services st) + svc_kids svc"
    using assms(1) by (intro msum_update_old) (simp add: get_service_def)
  then have "(msum svc_kids (AList.update sid svc (services st)) + mset ts) + svc_kids svc0
      = (msum svc_kids (services st) + mset (terminal_tasks st) + d) + svc_kids svc0"
    using assms(2) by (metis (no_types, lifting) add.assoc add.commute)
  then show ?thesis by (simp add: term_kids_def put_service_def)
qed

lemma put_service_kids_same:
  assumes "get_service sid st = Some svc0" "svc_kids svc = svc_kids svc0 + d"
  shows "term_kids (put_service sid svc st) = term_kids st + d"
  using put_service_kids [OF assms(1), of svc "terminal_tasks st" d] assms(2) by (simp add: ac_simps put_service_def)

lemma kids_stop: "mset (snd (stop s)) = kids s"
  by (simp add: stop_def kids_def split: option.split)

lemma remove_service_kids:
  assumes "term_ok st"
  shows "term_kids (remove_service sid st) = term_kids st"
proof (cases "get_service sid st")
  case None
  then show ?thesis by (simp add: remove_service_def)
next
  case (Some svc)
  have "mset (concat (map (snd \<circ> stop \<circ> snd) ss)) = msum kids ss" for ss :: "(int \<times> terminal_session) list"
    by (induction ss) (auto simp: kids_stop)
  moreover have "msum svc_kids (AList.delete sid (services st)) + svc_kids svc = msum svc_kids (services st)"
    using assms Some by (intro msum_delete) (auto simp: term_ok_def get_service_def)
  ultimately show ?thesis using Some by (simp add: remove_service_def term_kids_def svc_kids_def ac_simps)
qed

lemma update_session_kids:
  assumes "map_of ss tid = Some s" "child s' = child s"
  shows "msum kids (AList.update tid s' ss) = msum kids ss"
  using msum_update_old [OF assms(1), of kids s'] assms(2) by (simp add: kids_def)

lemma create_kids:
  assumes "term_ok st"
  shows "term_kids (fst (get_or_create_service t sid p u st)) = term_kids st"
proof -
  have reset: "svc_kids (reset_status p svc) = svc_kids svc" for svc
  proof -
    have "msum kids (map (\<lambda>(i, s). (i, s\<lparr>ts_state := Closed\<rparr>)) ss) = msum kids ss" for ss :: "(int \<times> terminal_session) list"
      by (induction ss) (auto simp: kids_def)
    then show ?thesis by (simp add: svc_kids_def reset_status_def)
  qed
  have new: "svc_kids (service_new t sid p u) = {#}" by (simp add: svc_kids_def service_new_def)
  show ?thesis
  proof (cases "get_service sid st")
    case None
    with msum_update_new [of "services st" sid svc_kids] reset new show ?thesis
      by (auto simp: get_or_create_service_def Let_def term_kids_def put_service_def get_service_def)
  next
    case (Some svc)
    with msum_update_old [of "services st" sid svc svc_kids "reset_status p svc"] reset show ?thesis
      by (auto simp: get_or_create_service_def Let_def term_kids_def put_service_def get_service_def)
  qed
qed

lemma remap_kids:
  assumes "sessions_ok (ts_sessions svc)"
  shows "svc_kids (remap_session tid svc) = svc_kids svc"
proof (cases "map_of (ts_sessions svc) tid = None \<and> needs_session_sync svc \<and> ts_sessions svc \<noteq> []")
  case True
  show ?thesis
  proof (cases "map_of (ts_sessions svc) (lowest_id (ts_sessions svc))")
    case (Some s)
    let ?ss = "AList.delete (lowest_id (ts_sessions svc)) (ts_sessions svc)"
    have "map_of ?ss tid = None" using True by (auto simp: delete_conv)
    then have "msum kids (AList.update tid s ?ss) = msum kids ?ss + kids s" by (rule msum_update_new)
    also have "\<dots> = msum kids (ts_sessions svc)" using assms Some by (intro msum_delete) (simp_all add: sessions_ok_def)
    finally show ?thesis using True Some by (simp add: remap_session_def svc_kids_def)
  qed (use True in \<open>simp add: remap_session_def\<close>)
qed (auto simp: remap_session_def)

text \<open>The children an action starts: one, when a new terminal is opened.\<close>

definition opened_child :: "shell_start \<Rightarrow> int \<Rightarrow> persistent_service \<Rightarrow> nat multiset" where
  "opened_child shell tid svc =
     (if map_of (ts_sessions (remap_session tid svc)) tid = None \<and> pty_opened shell
      then (case spawned shell of None \<Rightarrow> {#} | Some c \<Rightarrow> {#c#}) else {#})"

lemma handle_open_kids:
  assumes "sessions_ok (ts_sessions svc)" "pipes_taken shell"
  shows "svc_kids (fst (handle_open env shell sid tid rows cols svc)) = svc_kids svc + opened_child shell tid svc"
proof (cases "map_of (ts_sessions (remap_session tid svc)) tid")
  case (Some s)
  have "child (reattach s) = child s" by (simp add: reattach_def Let_def)
  with Some remap_kids [OF assms(1), of tid] update_session_kids [OF Some] show ?thesis
    by (simp add: handle_open_def open_existing_def Let_def svc_kids_def opened_child_def)
next
  case None
  with remap_kids [OF assms(1), of tid] msum_update_new [OF None, of kids] assms(2) show ?thesis
    by (auto simp: handle_open_def open_new_def Let_def svc_kids_def opened_child_def kids_def split: option.split)
qed

lemma handle_resize_kids: "svc_kids (fst (handle_resize env tid rows cols svc)) = svc_kids svc"
  by (auto simp: handle_resize_def resize_pty_def svc_kids_def Let_def update_session_kids split: option.split)

lemma handle_data_kids: "svc_kids (handle_data env tid d svc) = svc_kids svc"
  by (auto simp: handle_data_def svc_kids_def update_session_kids split: option.split)

lemma handle_close_kids:
  assumes "sessions_ok (ts_sessions svc)" "handle_close env tid (svc, ts) = ((svc', ts'), r)"
  shows "svc_kids svc' + mset ts' + (case r of Inl _ \<Rightarrow> (case map_of (ts_sessions svc) tid of Some s \<Rightarrow> kids s | None \<Rightarrow> {#}) | Inr _ \<Rightarrow> {#})
    = svc_kids svc + mset ts"
proof (cases "map_of (ts_sessions svc) tid")
  case None
  with assms(2) show ?thesis by (auto simp: handle_close_def)
next
  case (Some s)
  have "msum kids (AList.delete tid (ts_sessions svc)) + kids s = svc_kids svc"
    using msum_delete [OF _ Some, of kids] assms(1) by (simp add: sessions_ok_def svc_kids_def)
  with assms(2) Some show ?thesis
    by (auto simp: handle_close_def Let_def svc_kids_def kids_def ac_simps split: option.splits if_splits)
qed

lemma read_outputs_kids:
  assumes "term_ok st"
  shows "term_kids (fst (read_outputs env sid p st)) = term_kids st"
proof (cases "get_service sid st")
  case None
  then show ?thesis by (simp add: read_outputs_def)
next
  case (Some svc)
  from read_outputs_spec [OF Some term_ok_lookup [OF assms Some], of env p] put_service_kids [OF Some, of _ _ "{#}"]
  show ?thesis by (auto simp: svc_kids_def)
qed

lemma open_keeps_kids:
  assumes "sessions_ok (ts_sessions svc)"
  shows "svc_kids svc \<subseteq># svc_kids (fst (handle_open env shell sid tid rows cols svc))"
proof (cases "pipes_taken shell")
  case True
  with handle_open_kids [OF assms True] show ?thesis by simp
next
  case False
  show ?thesis
  proof (cases "map_of (ts_sessions (remap_session tid svc)) tid")
    case (Some s)
    have "child (reattach s) = child s" by (simp add: reattach_def Let_def)
    with Some remap_kids [OF assms(1), of tid] update_session_kids [OF Some] show ?thesis
      by (simp add: handle_open_def open_existing_def Let_def svc_kids_def)
  next
    case None
    with False remap_kids [OF assms(1), of tid] show ?thesis by (simp add: handle_open_def open_new_def Let_def split: option.split)
  qed
qed

lemma put_service_lost:
  assumes "get_service sid st = Some svc0" "svc_kids svc + mset ts + lost = svc_kids svc0 + mset (terminal_tasks st)"
  shows "term_kids ((put_service sid svc st)\<lparr>terminal_tasks := ts\<rparr>) + lost = term_kids st"
proof -
  have "msum svc_kids (AList.update sid svc (services st)) + svc_kids svc0 = msum svc_kids (services st) + svc_kids svc"
    using msum_update_old [of "services st" sid svc0 svc_kids svc] assms(1) by (simp add: get_service_def)
  from arg_cong [OF this, of "\<lambda>x. x + (mset ts + lost)"]
  have "(msum svc_kids (AList.update sid svc (services st)) + mset ts + lost) + svc_kids svc0 = msum svc_kids (services st) + (svc_kids svc + mset ts + lost)"
    by (simp only: ac_simps)
  then have "(msum svc_kids (AList.update sid svc (services st)) + mset ts + lost) + svc_kids svc0 = (msum svc_kids (services st) + mset (terminal_tasks st)) + svc_kids svc0"
    unfolding assms(2) by (simp only: ac_simps)
  then show ?thesis by (simp add: term_kids_def put_service_def)
qed

text \<open>An action keeps every child, except the one that a closing could not kill.\<close>

lemma action_keeps_child:
  assumes "term_ok st" "c \<in># term_kids st" "\<And>tid. a = CloseTerminal tid \<Longrightarrow> kill_ok env c"
  shows "c \<in># term_kids (fst (handle_action env shell sid a st))"
proof (cases "get_service sid st")
  case None
  with assms(2) show ?thesis by (simp add: handle_action_def)
next
  case (Some svc)
  let ?svc = "svc\<lparr>svc_last_activity := now env\<rparr>"
  have ok: "sessions_ok (ts_sessions ?svc)" using term_ok_lookup [OF assms(1) Some] by simp
  have same: "svc_kids ?svc = svc_kids svc" by (simp add: svc_kids_def)
  have put: "c \<in># term_kids (put_service sid svc' st)" if "svc_kids svc \<subseteq># svc_kids svc'" for svc'
  proof -
    from that obtain d where "svc_kids svc' = svc_kids svc + d" by (metis mset_subset_eq_exists_conv)
    from put_service_kids_same [OF Some this] assms(2) show ?thesis by simp
  qed
  show ?thesis
  proof (cases a)
    case (OpenTerminal tid rows cols)
    with put open_keeps_kids [OF ok] same Some show ?thesis by (simp add: handle_action_def Let_def case_prod_beta)
  next
    case (CloseTerminal tid)
    obtain svc' ts' r' where h: "handle_close env tid (?svc, terminal_tasks st) = ((svc', ts'), r')" by (metis prod.collapse)
    let ?lost = "case r' of Inl _ \<Rightarrow> (case map_of (ts_sessions ?svc) tid of Some s \<Rightarrow> kids s | None \<Rightarrow> {#}) | Inr _ \<Rightarrow> {#}"
    have "term_kids ((put_service sid svc' st)\<lparr>terminal_tasks := ts'\<rparr>) + ?lost = term_kids st"
      by (rule put_service_lost [OF Some]) (use handle_close_kids [OF ok h] same in simp)
    moreover have "c \<notin># ?lost"
      using h assms(3) [OF CloseTerminal] by (auto simp: handle_close_def kids_def Let_def split: option.splits if_splits sum.splits)
    ultimately have "c \<in># term_kids ((put_service sid svc' st)\<lparr>terminal_tasks := ts'\<rparr>)" using assms(2) by (metis union_iff)
    with CloseTerminal h Some show ?thesis by (simp add: handle_action_def)
  qed (use put same handle_resize_kids handle_data_kids Some in \<open>simp_all add: handle_action_def Let_def case_prod_beta\<close>)
qed

lemma reader_push_kids: "term_kids (reader_push sid tid d st) = term_kids st"
proof -
  have "term_kids (put_service sid (svc\<lparr>ts_sessions := AList.update tid (s\<lparr>output_rx := q\<rparr>) (ts_sessions svc)\<rparr>) st) = term_kids st"
    if "get_service sid st = Some svc" "map_of (ts_sessions svc) tid = Some s" for svc s q
    using put_service_kids_same [OF that(1), of _ "{#}"] update_session_kids [OF that(2)] by (simp add: svc_kids_def)
  then show ?thesis by (simp add: reader_push_def split: option.split)
qed

lemma cleanup_kids: "term_ok st \<Longrightarrow> term_kids (cleanup_inactive_services t st) = term_kids st"
  using cleanup_keeps [of "\<lambda>x. term_ok x \<and> term_kids x = term_kids st" st t] term_ok_remove remove_service_kids by auto

lemma set_persistent_kids: "term_kids (fst (set_persistent sid p st)) = term_kids st"
  using put_service_kids_same [of sid st _ _ "{#}"] by (auto simp: set_persistent_def svc_kids_def split: option.split)

lemma check_zombies_running: "c \<in> set cs \<Longrightarrow> w c = Running \<Longrightarrow> c \<in> set (check_zombies w cs)"
  by (induction cs) (auto split: wait_result.split)

section \<open>Properties\<close>

text \<open>
  C4. Whatever services are created, used, polled and removed, at most \<open>MAX_SERVICES\<close> are kept, each
  under one name with each terminal under one number; every session's replay buffer keeps its
  invariant, its channel its bound and the resize attempts theirs; and no session whose end was
  reported stays in a service.
\<close>

theorem terminal_registry_invariant:
  "term_ok (fold term_step ops term_init)"
  by (rule reachable_ok)

text \<open>
  C11. Which steps may lose a child process: in every reachable state, a child that a session or the
  reaper owns is still owned by one of them after any step, except when the step is the closing of a
  terminal and killing that very child fails, or a round of the reaper whose wait for it does not
  report that it is running, that is, it has exited or the wait failed. The child of a terminal that
  could not be opened for want of its pipes was never owned and is not covered.
\<close>

theorem children_are_reaped:
  assumes "st = fold term_step ops term_init" "c \<in># term_kids st"
    and "\<And>env shell sid tid. op = Action env shell sid (CloseTerminal tid) \<Longrightarrow> kill_ok env c"
    and "\<And>env. op = Reap env \<Longrightarrow> try_wait env c = Running"
  shows "c \<in># term_kids (term_step op st)"
proof -
  have ok: "term_ok st" unfolding assms(1) by (rule reachable_ok)
  show ?thesis
  proof (cases op)
    case (Reap env)
    with assms(2) assms(4) [OF Reap] show ?thesis
      by (auto simp: term_kids_def check_zombie_terminals_def check_zombies_running)
  next
    case (Action env shell sid a)
    with action_keeps_child [OF ok assms(2), of a env shell sid] assms(3) show ?thesis by auto
  qed (use assms(2) ok in \<open>auto simp: create_kids remove_service_kids cleanup_kids set_persistent_kids read_outputs_kids
        reader_push_kids on_disconnect_def run_end_def split: option.split\<close>)
qed

text \<open>
  C37. Closing a terminal whose child cannot be killed removes the session and drops the child: the
  reaper never learns of it.
\<close>

theorem failed_kill_loses_child:
  assumes "term_ok st" "get_service sid st = Some svc" "map_of (ts_sessions svc) tid = Some s" "child s = Some c" "\<not> kill_ok env c"
  shows "term_kids (fst (handle_action env shell sid (CloseTerminal tid) st)) + {#c#} = term_kids st
     \<and> snd (handle_action env shell sid (CloseTerminal tid) st) = Inl ''kill failed''"
proof -
  let ?svc = "svc\<lparr>svc_last_activity := now env\<rparr>"
  have ok: "sessions_ok (ts_sessions ?svc)" using term_ok_lookup [OF assms(1,2)] by simp
  have c: "handle_close env tid (?svc, terminal_tasks st)
      = ((?svc\<lparr>ts_sessions := AList.delete tid (ts_sessions svc)\<rparr>, terminal_tasks st), Inl ''kill failed'')"
    using assms(3-5) by (simp add: handle_close_def)
  define new where "new = ?svc\<lparr>ts_sessions := AList.delete tid (ts_sessions svc)\<rparr>"
  have kept: "svc_kids new + {#c#} = svc_kids svc"
    unfolding new_def using handle_close_kids [OF ok c] assms(3,4) by (simp add: kids_def svc_kids_def)
  have "term_kids (put_service sid new st) + svc_kids svc = term_kids st + svc_kids new"
    using msum_update_old [of "services st" sid svc svc_kids new] assms(2)
    by (simp add: term_kids_def put_service_def get_service_def ac_simps)
  then have "term_kids (put_service sid new st) + {#c#} + svc_kids new = term_kids st + svc_kids new"
    unfolding kept [symmetric] by (simp add: ac_simps)
  then have "term_kids (put_service sid new st) + {#c#} = term_kids st" by simp
  with c [folded new_def] assms(2) show ?thesis by (simp add: handle_action_def put_service_def)
qed





fun phase_rank :: "sigwinch_phase \<Rightarrow> nat" where
  "phase_rank Idle = 0"
| "phase_rank (Restore n) = n + 1"
| "phase_rank (TempResize n) = n + 6"

lemma phase_rank_poll:
  "phase_rank (case snd (take_attempt p) of None \<Rightarrow> fst (take_attempt p) | Some a \<Rightarrow> after_resize a ok (fst (take_attempt p)))
     \<le> phase_rank p - 1"
  by (cases p) (auto simp: MAX_SIGWINCH_PHASE_ATTEMPTS_def)

fun poll_times :: "term_env list \<Rightarrow> int \<Rightarrow> terminal_session \<Rightarrow> terminal_session" where
  "poll_times [] tid s = s"
| "poll_times (env # envs) tid s = poll_times envs tid (fst (poll_session env tid s))"

lemma poll_times_rank:
  "ts_state s = Active p phase \<Longrightarrow> \<exists>p' phase'. ts_state (poll_times envs tid s) = Active p' phase' \<and> phase_rank phase' \<le> phase_rank phase - length envs"
proof (induction envs arbitrary: s p phase)
  case (Cons env envs)
  obtain s' rs where s': "poll_session env tid s = (s', rs)" by (meson surj_pair)
  from poll_session_state(2) [OF s' Cons.prems] obtain ok where
    "ts_state s' = Active None (case snd (take_attempt phase) of None \<Rightarrow> fst (take_attempt phase)
       | Some a \<Rightarrow> after_resize a ok (fst (take_attempt phase)))" by blast
  from Cons.IH [OF this] phase_rank_poll [of phase ok] s' show ?case by fastforce
qed simp

lemma reattach_phase: "\<exists>p. ts_state (reattach s) = Active p (TempResize MAX_SIGWINCH_PHASE_ATTEMPTS)"
  by (simp add: reattach_def Let_def)

lemma reattach_size [simp]: "pty_pair (reattach s) = pty_pair s" "ts_rows (reattach s) = ts_rows s" "ts_cols (reattach s) = ts_cols s"
  by (simp_all add: reattach_def Let_def)

lemma sigwinch_rows_temp:
  "0 < rows \<Longrightarrow> rows \<le> 65535 \<Longrightarrow> 0 < sigwinch_rows DoTempResize rows \<and> sigwinch_rows DoTempResize rows \<le> 65535
     \<and> \<bar>int (sigwinch_rows DoTempResize rows) - int rows\<bar> = 1"
  by (auto simp: sigwinch_rows_def)

lemma poll_resize:
  assumes "ts_state s = Active p phase" "take_attempt phase = (phase', Some a)" "pty_pair s \<noteq> None" "0 < ts_rows s" "0 < ts_cols s"
    "resize_ok env tid (sigwinch_rows a (ts_rows s)) (ts_cols s)" "poll_session env tid s = (s', rs)"
  shows "pty_pair s' = Some (sigwinch_rows a (ts_rows s), ts_cols s)" "ts_state s' = Active None (after_resize a True phase')"
    "ts_rows s' = ts_rows s" "ts_cols s' = ts_cols s"
  using assms by (auto simp: poll_session_def Let_def do_sigwinch_resize_def split: option.splits if_splits)

text \<open>
  C26. The two-phase resize after a reconnection settles: however the resizes go, after nine polls no
  attempt is left. When they succeed, the first poll gives the terminal a height that differs by one
  row and is not zero, and the second restores the size of the session.
\<close>

theorem sigwinch_settles:
  assumes "length envs \<ge> 9"
    and "pty_pair s \<noteq> None" "0 < ts_rows s" "ts_rows s \<le> 65535" "0 < ts_cols s" "\<And>r c. resize_ok env tid r c"
    and "poll_session env tid (reattach s) = (s1, rs1)" "poll_session env tid s1 = (s2, rs2)"
  shows "(\<exists>p. ts_state (poll_times envs tid (reattach s)) = Active p Idle)
     \<and> (\<exists>r. pty_pair s1 = Some (r, ts_cols s) \<and> 0 < r \<and> r \<le> 65535 \<and> \<bar>int r - int (ts_rows s)\<bar> = 1)
     \<and> pty_pair s2 = Some (ts_rows s, ts_cols s) \<and> ts_state s2 = Active None Idle"
proof -
  obtain p where p: "ts_state (reattach s) = Active p (TempResize 3)"
    using reattach_phase [of s] by (auto simp: MAX_SIGWINCH_PHASE_ATTEMPTS_def)
  from poll_times_rank [OF p, of envs tid] assms(1) obtain p' phase where
    "ts_state (poll_times envs tid (reattach s)) = Active p' phase" "phase_rank phase = 0" by auto
  then have settled: "ts_state (poll_times envs tid (reattach s)) = Active p' Idle" by (cases phase) auto
  have "take_attempt (TempResize 3) = (TempResize 2, Some DoTempResize)" by simp
  from poll_resize [OF p this, of env tid s1 rs1] assms(2-7)
  have one: "pty_pair s1 = Some (sigwinch_rows DoTempResize (ts_rows s), ts_cols s)" "ts_state s1 = Active None (Restore 3)"
    "ts_rows s1 = ts_rows s" "ts_cols s1 = ts_cols s" by (auto simp: MAX_SIGWINCH_PHASE_ATTEMPTS_def)
  have "take_attempt (Restore 3) = (Restore 2, Some DoRestore)" by simp
  from poll_resize [OF one(2) this, of env tid s2 rs2] assms(3,5,6,8) one
  have two: "pty_pair s2 = Some (ts_rows s, ts_cols s)" "ts_state s2 = Active None Idle" by (auto simp: sigwinch_rows_def)
  from settled one(1) two sigwinch_rows_temp [OF assms(3,4)] show ?thesis by auto
qed

lemma get_service_remove: "get_service k (remove_service sid st) = (if k = sid then None else get_service k st)"
  by (auto simp: remove_service_def get_service_def delete_conv split: option.split)

lemma get_service_remove_all: "get_service k (fold remove_service sids st) = (if k \<in> set sids then None else get_service k st)"
  by (induction sids arbitrary: st) (auto simp: get_service_remove)

text \<open>
  The cleanup removes exactly the services that are idle: those not kept for reconnection after
  an hour, the empty ones that are kept after two.
\<close>

theorem cleanup_removes_idle:
  "get_service sid (cleanup_inactive_services t (fold term_step ops term_init)) =
     (case get_service sid (fold term_step ops term_init) of
        Some svc \<Rightarrow>
          if (if is_persistent svc then ts_sessions svc = [] \<and> t - svc_last_activity svc > 2 * SERVICE_IDLE_TIMEOUT
              else t - svc_last_activity svc > SERVICE_IDLE_TIMEOUT) then None else Some svc
      | None \<Rightarrow> None)"
proof -
  let ?st = "fold term_step ops term_init"
  have "term_ok ?st" by (rule reachable_ok)
  then have "sid \<in> set (map fst (filter (\<lambda>(i, svc). service_expired t svc) (services ?st))) \<longleftrightarrow>
      (\<exists>svc. get_service sid ?st = Some svc \<and> service_expired t svc)"
    by (force simp: term_ok_def get_service_def dest: map_of_in_set)
  then show ?thesis
    by (auto simp: cleanup_inactive_services_def get_service_remove_all service_expired_def split: option.split)
qed

section \<open>Examples\<close>

definition sample_env :: term_env where
  "sample_env = \<lparr>try_wait = (\<lambda>c. Running), kill_ok = (\<lambda>c. c \<noteq> 9), reader_finished = (\<lambda>i. False), session_locked = (\<lambda>i. False),
     resize_ok = (\<lambda>i r c. True), shrink = rev, now = 5\<rparr>"

definition sample_shell :: "nat \<Rightarrow> shell_start" where
  "sample_shell c = \<lparr>pty_opened = True, spawned = Some c, pipes_taken = True\<rparr>"

definition sample_ops :: "term_op list" where
  "sample_ops = [CreateService 1 ''t'' True False, Action sample_env (sample_shell 9) ''t'' (OpenTerminal 1 24 80)]"

lemma sample_state:
  "fold term_step sample_ops term_init =
     \<lparr>services = [(''t'', (service_new 1 ''t'' True False)
        \<lparr>svc_last_activity := 5,
         ts_sessions := [(1, (terminal_session_new 5 1 24 80)\<lparr>pid := 9, pty_pair := Some (24, 80), child := Some 9, input_tx := Some [],
           output_rx := Some [], reader_thread := True, writer_thread := True, ts_state := Active None Idle\<rparr>)]\<rparr>)],
      terminal_tasks = [], cleanup_task = True\<rparr>"
  by (simp add: sample_ops_def term_init_def get_or_create_service_def get_service_def put_service_def reset_status_def service_new_def
      handle_action_def handle_open_def remap_session_def open_new_def sample_shell_def sample_env_def as_u16_def MAX_SERVICES_def Let_def)

theorem children_are_reaped_witness:
  "9 \<in># term_kids (term_step (Disconnect ''t'' False) (fold term_step sample_ops term_init))"
  by (rule children_are_reaped [OF refl]) (simp_all add: sample_state term_kids_def svc_kids_def kids_def)

theorem failed_kill_loses_child_witness:
  "snd (handle_action sample_env (sample_shell 0) ''t'' (CloseTerminal 1) (fold term_step sample_ops term_init)) = Inl ''kill failed''"
proof -
  have "get_service ''t'' (fold term_step sample_ops term_init) \<noteq> None" by (simp add: sample_state get_service_def)
  then obtain svc where svc: "get_service ''t'' (fold term_step sample_ops term_init) = Some svc" by blast
  then have s: "map_of (ts_sessions svc) 1 = Some ((terminal_session_new 5 1 24 80)\<lparr>pid := 9, pty_pair := Some (24, 80), child := Some 9,
      input_tx := Some [], output_rx := Some [], reader_thread := True, writer_thread := True, ts_state := Active None Idle\<rparr>)"
    by (auto simp: sample_state get_service_def)
  from failed_kill_loses_child [OF reachable_ok svc s, of 9 sample_env "sample_shell 0"] show ?thesis by (simp add: sample_env_def)
qed

definition sample_session :: terminal_session where
  "sample_session = (terminal_session_new 5 1 24 80)\<lparr>pty_pair := Some (24, 80), output_rx := Some [[65], [66]]\<rparr>"


theorem sigwinch_settles_witness:
  "ts_state (poll_times (replicate 9 sample_env) 1 (reattach sample_session)) \<noteq> Closed
   \<and> pty_pair (fst (poll_session sample_env 1 (fst (poll_session sample_env 1 (reattach sample_session))))) = Some (24, 80)"
proof -
  obtain s1 rs1 where 1: "poll_session sample_env 1 (reattach sample_session) = (s1, rs1)" by (meson surj_pair)
  obtain s2 rs2 where 2: "poll_session sample_env 1 s1 = (s2, rs2)" by (meson surj_pair)
  have "ts_rows sample_session = 24" "ts_cols sample_session = 80" "pty_pair sample_session \<noteq> None"
    by (simp_all add: sample_session_def terminal_session_new_def)
  with sigwinch_settles [of "replicate 9 sample_env" sample_session sample_env 1 s1 rs1 s2 rs2] 1 2 show ?thesis
    by (auto simp: sample_env_def)
qed

end
