(* ===== verification/PortableArchive.thy ===== *)
theory PortableArchive
  imports Utf8
begin

text \<open>
  The archive of the portable launcher: the reader of \<open>libs/portable/src/bin_reader.rs\<close> and the
  writer of \<open>libs/portable/generate.py\<close>. The reader accepts exactly the writer's output, and every
  path it accepts stays below the extraction directory.
\<close>

section \<open>Paths\<close>

definition slash :: byte where "slash = 47"
definition backslash :: byte where "backslash = 92"
definition colon :: byte where "colon = 58"
definition dot :: bytes where "dot = [46]"
definition dotdot :: bytes where "dotdot = [46, 46]"

text \<open>
  A \<open>PathBuf\<close> is the list of its components, on which its equality and hash are defined;
  \<open>components\<close> is the parse of the standard library for \<open>/\<close>-separated paths.
\<close>

datatype component = RootDir | CurDir | ParentDir | Normal bytes

type_synonym pathbuf = "component list"

definition component_of :: "bytes \<Rightarrow> component" where
  "component_of p = (if p = dot then CurDir else if p = dotdot then ParentDir else Normal p)"

definition has_root :: "bytes \<Rightarrow> bool" where
  "has_root v \<longleftrightarrow> v \<noteq> [] \<and> hd v = slash"

definition components :: "bytes \<Rightarrow> component list" where
  "components v =
     (let pieces = filter (\<lambda>p. p \<noteq> []) (split_on (\<lambda>b. b = slash) v)
      in if has_root v then RootDir # map component_of (filter (\<lambda>p. p \<noteq> dot) pieces)
         else (case pieces of [] \<Rightarrow> [] | p # ps \<Rightarrow> map component_of (p # filter (\<lambda>p. p \<noteq> dot) ps)))"

fun is_normal :: "component \<Rightarrow> bool" where
  "is_normal (Normal _) = True"
| "is_normal _ = False"

section \<open>The reader\<close>

definition ARCHIVE_MAGIC :: bytes where
  "ARCHIVE_MAGIC = [0x43, 0x41, 0x4D, 0x45, 0x4C, 0x50, 0x30, 0x31]"
definition DIGEST_LENGTH :: nat where "DIGEST_LENGTH = 32"
definition MAX_FILE_COUNT :: nat where "MAX_FILE_COUNT = 100000"
definition MAX_PATH_LENGTH :: nat where "MAX_PATH_LENGTH = 32 * 1024"
definition MAX_FILE_LENGTH :: nat where "MAX_FILE_LENGTH = 1024 * 1024 * 1024"

text \<open>The errors of the launcher: one \<open>InvalidData\<close> for each message, and the kinds it inspects.\<close>

datatype io_error =
    OffsetOverflow | ArchiveTruncated | InvalidLength | NotUtf8 | NotNormalized | NotRelative
  | BadMarker | BadFileCount | TooLarge | DuplicatePath | TrailingData | ExecutableMissing
  | SizeMismatch | ChecksumMismatch | DecodeError | RootUnsafe | DirectoryUnsafe | PathEscaped
  | TargetUnsafe | NoFileName | NoTemporary | TargetChanged | PackageMismatch | ExecutableUnsafe
  | BadMetadata
  | NotFound | AlreadyExists | PermissionDenied | NotADirectory | OtherError

record binary_data =
  compressed :: bytes
  sha256_digest :: bytes
  uncompressed_length :: nat
  bd_path :: pathbuf

record binary_reader =
  br_files :: "binary_data list"
  br_exe :: pathbuf

text \<open>The cursor is returned with the value; \<open>usize\<close> has 64 bits, so that its \<open>try_from\<close> succeed.\<close>

definition take_bytes :: "bytes \<Rightarrow> nat \<Rightarrow> nat \<Rightarrow> (io_error, bytes \<times> nat) result" where
  "take_bytes data cursor n =
     (if cursor + n \<ge> 18446744073709551616 then Inl OffsetOverflow
      else if cursor + n > length data then Inl ArchiveTruncated
      else Inr (take n (drop cursor data), cursor + n))"

definition read_u32 :: "bytes \<Rightarrow> nat \<Rightarrow> (io_error, nat \<times> nat) result" where
  "read_u32 data cursor =
     bind_result (take_bytes data cursor 4) (\<lambda>(b, cursor). Inr (be_value b, cursor))"

definition read_u64 :: "bytes \<Rightarrow> nat \<Rightarrow> (io_error, nat \<times> nat) result" where
  "read_u64 data cursor =
     bind_result (take_bytes data cursor 8) (\<lambda>(b, cursor). Inr (be_value b, cursor))"

definition parse_archive_path :: "bytes \<Rightarrow> (io_error, pathbuf) result" where
  "parse_archive_path raw =
     (if raw = [] \<or> length raw > MAX_PATH_LENGTH then Inl InvalidLength
      else if \<not> utf8_valid raw then Inl NotUtf8
      else if backslash \<in> set raw \<or> colon \<in> set raw \<or> 0 \<in> set raw
              \<or> list_ex (\<lambda>c. c = [] \<or> c = dot \<or> c = dotdot) (split_on (\<lambda>b. b = slash) raw)
      then Inl NotNormalized
      else
        let path = components raw
        in if has_root raw \<or> \<not> list_all is_normal path then Inl NotRelative else Inr path)"

definition read_file ::
  "bytes \<Rightarrow> pathbuf set \<Rightarrow> nat \<Rightarrow> (io_error, binary_data \<times> nat) result" where
  "read_file data paths cursor =
     bind_result (read_u32 data cursor) (\<lambda>(path_length, cursor).
     bind_result (read_u64 data cursor) (\<lambda>(compressed_length, cursor).
     bind_result (read_u64 data cursor) (\<lambda>(uncompressed_len, cursor).
       if compressed_length > MAX_FILE_LENGTH \<or> uncompressed_len > MAX_FILE_LENGTH then Inl TooLarge
       else
     bind_result (take_bytes data cursor DIGEST_LENGTH) (\<lambda>(digest, cursor).
     bind_result (take_bytes data cursor path_length) (\<lambda>(raw, cursor).
     bind_result (parse_archive_path raw) (\<lambda>path.
       if path \<in> paths then Inl DuplicatePath
       else
     bind_result (take_bytes data cursor compressed_length) (\<lambda>(comp, cursor).
       Inr (\<lparr>compressed = comp, sha256_digest = digest, uncompressed_length = uncompressed_len,
             bd_path = path\<rparr>, cursor))))))))"

fun read_files ::
  "bytes \<Rightarrow> nat \<Rightarrow> pathbuf set \<Rightarrow> nat \<Rightarrow> (io_error, binary_data list \<times> pathbuf set \<times> nat) result" where
  "read_files data 0 paths cursor = Inr ([], paths, cursor)"
| "read_files data (Suc n) paths cursor =
     bind_result (read_file data paths cursor) (\<lambda>(f, cursor).
     bind_result (read_files data n (insert (bd_path f) paths) cursor) (\<lambda>(fs, paths, cursor).
       Inr (f # fs, paths, cursor)))"

definition read :: "bytes \<Rightarrow> (io_error, binary_reader) result" where
  "read data =
     bind_result (take_bytes data 0 (length ARCHIVE_MAGIC)) (\<lambda>(magic, cursor).
       if magic \<noteq> ARCHIVE_MAGIC then Inl BadMarker
       else
     bind_result (read_u32 data cursor) (\<lambda>(file_count, cursor).
       if file_count = 0 \<or> file_count > MAX_FILE_COUNT then Inl BadFileCount
       else
     bind_result (read_files data file_count {} cursor) (\<lambda>(fs, paths, cursor).
     bind_result (read_u32 data cursor) (\<lambda>(executable_length, cursor).
     bind_result (take_bytes data cursor executable_length) (\<lambda>(raw, cursor).
     bind_result (parse_archive_path raw) (\<lambda>exe.
       if cursor \<noteq> length data then Inl TrailingData
       else if exe \<notin> paths then Inl ExecutableMissing
       else Inr \<lparr>br_files = fs, br_exe = exe\<rparr>))))))"

text \<open>
  The embedded archive is read only when its digest, printed in hexadecimal, is the one in the
  package metadata; \<open>sha256\<close> stands for the hash library.
\<close>

definition hex_digit :: "nat \<Rightarrow> byte" where
  "hex_digit d = of_nat (if d < 10 then 48 + d else 87 + d)"

definition lower_hex :: "bytes \<Rightarrow> bytes" where
  "lower_hex bs = concat (map (\<lambda>b. [hex_digit (unat b div 16), hex_digit (unat b mod 16)]) bs)"

definition embedded :: "(bytes \<Rightarrow> bytes) \<Rightarrow> bytes \<Rightarrow> bytes \<Rightarrow> (io_error, binary_reader) result" where
  "embedded sha256 bin_data expected_sha256 =
     (if lower_hex (sha256 bin_data) \<noteq> expected_sha256 then Inl PackageMismatch else read bin_data)"

section \<open>The writer\<close>

record package_entry =
  pe_path :: bytes
  compressed_data :: bytes
  uncompressed_size :: int
  pe_digest :: bytes

datatype value_error =
    NotPortablePath | UIntTooLarge | InvalidFileCount | DuplicatedPath | InvalidEntry | NotIncluded

definition as_uint :: "nat \<Rightarrow> nat \<Rightarrow> (value_error, bytes) result" where
  "as_uint v len = (if v < 256 ^ len then Inr (be_bytes len v) else Inl UIntTooLarge)"

text \<open>A path is the UTF-8 encoding of the Python string; \<open>encode\<close> raises when there is none.\<close>

definition encode_archive_path :: "bytes \<Rightarrow> (value_error, bytes) result" where
  "encode_archive_path path =
     (if \<not> utf8_valid path \<or> path = [] \<or> length path > MAX_PATH_LENGTH
         \<or> backslash \<in> set path \<or> colon \<in> set path \<or> 0 \<in> set path
         \<or> list_ex (\<lambda>c. c \<in> {[], dot, dotdot}) (split_on (\<lambda>b. b = slash) path)
      then Inl NotPortablePath else Inr path)"

fun check_entries :: "package_entry list \<Rightarrow> bytes set \<Rightarrow> (value_error, bytes set) result" where
  "check_entries [] paths = Inr paths"
| "check_entries (e # es) paths =
     bind_result (encode_archive_path (pe_path e)) (\<lambda>_.
       if pe_path e \<in> paths then Inl DuplicatedPath
       else if uncompressed_size e < 0 \<or> uncompressed_size e > int MAX_FILE_LENGTH
               \<or> length (compressed_data e) > MAX_FILE_LENGTH \<or> length (pe_digest e) \<noteq> 32
       then Inl InvalidEntry
       else check_entries es (insert (pe_path e) paths))"

fun write_entries :: "package_entry list \<Rightarrow> (value_error, bytes) result" where
  "write_entries [] = Inr []"
| "write_entries (e # es) =
     bind_result (as_uint (length (pe_path e)) 4) (\<lambda>a.
     bind_result (as_uint (length (compressed_data e)) 8) (\<lambda>b.
     bind_result (as_uint (nat (uncompressed_size e)) 8) (\<lambda>c.
     bind_result (write_entries es) (\<lambda>r.
       Inr (a @ b @ c @ pe_digest e @ pe_path e @ compressed_data e @ r)))))"

definition write_package :: "package_entry list \<Rightarrow> bytes \<Rightarrow> (value_error, bytes) result" where
  "write_package entries executable =
     bind_result (encode_archive_path executable) (\<lambda>executable_bytes.
       if entries = [] \<or> length entries > MAX_FILE_COUNT then Inl InvalidFileCount
       else
     bind_result (check_entries entries {}) (\<lambda>paths.
       if executable \<notin> paths then Inl NotIncluded
       else
     bind_result (as_uint (length entries) 4) (\<lambda>n.
     bind_result (write_entries entries) (\<lambda>body.
     bind_result (as_uint (length executable_bytes) 4) (\<lambda>l.
       Inr (ARCHIVE_MAGIC @ n @ body @ l @ executable_bytes))))))"

section \<open>Lemmas: paths\<close>

definition path_ok :: "bytes \<Rightarrow> bool" where
  "path_ok raw \<longleftrightarrow> raw \<noteq> [] \<and> length raw \<le> MAX_PATH_LENGTH \<and> utf8_valid raw
     \<and> backslash \<notin> set raw \<and> colon \<notin> set raw \<and> 0 \<notin> set raw
     \<and> list_all (\<lambda>c. c \<noteq> [] \<and> c \<noteq> dot \<and> c \<noteq> dotdot) (split_on (\<lambda>b. b = slash) raw)"

lemma path_ok_components:
  assumes "path_ok raw"
  shows "components raw = map Normal (split_on (\<lambda>b. b = slash) raw)" "\<not> has_root raw"
proof -
  have all: "list_all (\<lambda>c. c \<noteq> [] \<and> c \<noteq> dot \<and> c \<noteq> dotdot) (split_on (\<lambda>b. b = slash) raw)"
    using assms by (simp add: path_ok_def)
  show root: "\<not> has_root raw"
    using all by (cases raw) (auto simp: has_root_def)
  have keep: "filter P ps = ps" if "list_all P ps" for P and ps :: "bytes list"
    using that by (simp add: list_all_iff)
  have "filter (\<lambda>p. p \<noteq> []) (split_on (\<lambda>b. b = slash) raw) = split_on (\<lambda>b. b = slash) raw"
    using all by (intro keep) (auto simp: list_all_iff)
  with root all keep [of "\<lambda>p. p \<noteq> dot" "tl (split_on (\<lambda>b. b = slash) raw)"]
  show "components raw = map Normal (split_on (\<lambda>b. b = slash) raw)"
    by (cases "split_on (\<lambda>b. b = slash) raw") (auto simp: components_def component_of_def list_all_iff)
qed

lemma parse_archive_path_iff: "parse_archive_path raw = Inr p \<longleftrightarrow> path_ok raw \<and> p = components raw"
proof -
  have "list_all is_normal (components raw) \<and> \<not> has_root raw" if "path_ok raw"
    using path_ok_components [OF that] by (simp add: list_all_iff)
  then show ?thesis
    by (auto simp: parse_archive_path_def path_ok_def list_ex_iff list_all_iff Let_def split: if_splits)
qed

lemma encode_archive_path_iff: "encode_archive_path raw = Inr x \<longleftrightarrow> path_ok raw \<and> x = raw"
  by (auto simp: encode_archive_path_def path_ok_def list_ex_iff list_all_iff split: if_splits)

text \<open>The string of a path of normal components.\<close>

fun component_name :: "component \<Rightarrow> bytes" where
  "component_name (Normal n) = n"
| "component_name _ = []"

definition path_string :: "pathbuf \<Rightarrow> bytes" where
  "path_string p = join_with slash (map component_name p)"

lemma path_string_components: "path_ok raw \<Longrightarrow> path_string (components raw) = raw"
  by (simp add: path_ok_components path_string_def comp_def join_split_on)

lemma components_eq_iff: "path_ok a \<Longrightarrow> path_ok b \<Longrightarrow> components a = components b \<longleftrightarrow> a = b"
  by (metis path_string_components)

section \<open>Lemmas: the cursor\<close>

text \<open>\<open>xs\<close> stands in the data between two cursor positions.\<close>

definition sits :: "bytes \<Rightarrow> nat \<Rightarrow> bytes \<Rightarrow> nat \<Rightarrow> bool" where
  "sits data c xs c' \<longleftrightarrow> c' = c + length xs \<and> c' \<le> length data \<and> take (length xs) (drop c data) = xs"

lemma sits_append: "sits data c (xs @ ys) c' \<longleftrightarrow> (\<exists>m. sits data c xs m \<and> sits data m ys c')"
proof -
  have "take (length xs + length ys) (drop c data) = xs @ ys \<longleftrightarrow>
      take (length xs) (drop c data) = xs \<and> take (length ys) (drop (c + length xs) data) = ys"
    if "c + length xs + length ys \<le> length data"
    using that by (auto simp: take_add add.commute append_eq_append_conv)
  then show ?thesis by (auto simp: sits_def)
qed

lemma sits_Nil [simp]: "sits data c [] c' \<longleftrightarrow> c' = c \<and> c \<le> length data"
  by (auto simp: sits_def)

lemma sits_all: "sits data 0 xs (length data) \<longleftrightarrow> data = xs"
  by (auto simp: sits_def)

lemma take_bytes_iff:
  "length data < 18446744073709551616 \<Longrightarrow> take_bytes data c n = Inr (b, c') \<longleftrightarrow> length b = n \<and> sits data c b c'"
  by (auto simp: take_bytes_def sits_def)

lemma be_value_iff: "length b = n \<Longrightarrow> be_value b = v \<longleftrightarrow> v < 256 ^ n \<and> b = be_bytes n v"
  using be_value_bound [of b] be_bytes_be_value [of b] be_value_be_bytes [of v n] by auto

lemma read_uint_iff:
  assumes "length data < 18446744073709551616"
  shows "read_u32 data c = Inr (v, c') \<longleftrightarrow> v < 256 ^ 4 \<and> sits data c (be_bytes 4 v) c'"
    and "read_u64 data c = Inr (v, c') \<longleftrightarrow> v < 256 ^ 8 \<and> sits data c (be_bytes 8 v) c'"
proof -
  have *: "bind_result (take_bytes data c n) (\<lambda>(b, cursor). Inr (be_value b, cursor)) = Inr (v, c') \<longleftrightarrow>
      v < 256 ^ n \<and> sits data c (be_bytes n v) c'" for n
  proof -
    have "bind_result (take_bytes data c n) (\<lambda>(b, cursor). Inr (be_value b, cursor)) = Inr (v, c') \<longleftrightarrow>
        (\<exists>b. length b = n \<and> sits data c b c' \<and> be_value b = v)"
      by (auto simp: bind_result_Inr_iff take_bytes_iff [OF assms])
    also have "\<dots> \<longleftrightarrow> v < 256 ^ n \<and> sits data c (be_bytes n v) c'"
      using be_value_iff [of _ n v] by (metis length_be_bytes)
    finally show ?thesis .
  qed
  show "read_u32 data c = Inr (v, c') \<longleftrightarrow> v < 256 ^ 4 \<and> sits data c (be_bytes 4 v) c'"
    unfolding read_u32_def by (rule *)
  show "read_u64 data c = Inr (v, c') \<longleftrightarrow> v < 256 ^ 8 \<and> sits data c (be_bytes 8 v) c'"
    unfolding read_u64_def by (rule *)
qed

section \<open>Lemmas: reader and writer\<close>

definition entry_ok :: "package_entry \<Rightarrow> bool" where
  "entry_ok e \<longleftrightarrow> path_ok (pe_path e) \<and> 0 \<le> uncompressed_size e \<and> uncompressed_size e \<le> int MAX_FILE_LENGTH
     \<and> length (compressed_data e) \<le> MAX_FILE_LENGTH \<and> length (pe_digest e) = 32"

definition entry_bytes :: "package_entry \<Rightarrow> bytes" where
  "entry_bytes e = be_bytes 4 (length (pe_path e)) @ be_bytes 8 (length (compressed_data e))
     @ be_bytes 8 (nat (uncompressed_size e)) @ pe_digest e @ pe_path e @ compressed_data e"

definition file_of :: "package_entry \<Rightarrow> binary_data" where
  "file_of e = \<lparr>compressed = compressed_data e, sha256_digest = pe_digest e,
     uncompressed_length = nat (uncompressed_size e), bd_path = components (pe_path e)\<rparr>"

lemma bd_path_file_of [simp]: "bd_path (file_of e) = components (pe_path e)"
  by (simp add: file_of_def)

lemma entry_ok_sizes:
  assumes "entry_ok e"
  shows "length (pe_path e) < 256 ^ 4" "length (compressed_data e) < 256 ^ 8" "nat (uncompressed_size e) < 256 ^ 8"
  using assms by (auto simp: entry_ok_def path_ok_def MAX_FILE_LENGTH_def MAX_PATH_LENGTH_def)

lemma read_file_iff:
  assumes "length data < 18446744073709551616"
  shows "read_file data paths c = Inr (f, c') \<longleftrightarrow>
    (\<exists>e. entry_ok e \<and> f = file_of e \<and> components (pe_path e) \<notin> paths \<and> sits data c (entry_bytes e) c')"
    (is "?lhs \<longleftrightarrow> ?rhs")
proof
  assume ?lhs
  then obtain pl cl ul dig raw comp c1 c2 c3 c4 c5 where
    r: "read_u32 data c = Inr (pl, c1)" "read_u64 data c1 = Inr (cl, c2)" "read_u64 data c2 = Inr (ul, c3)"
      "take_bytes data c3 DIGEST_LENGTH = Inr (dig, c4)" "take_bytes data c4 pl = Inr (raw, c5)"
      "take_bytes data c5 cl = Inr (comp, c')" "parse_archive_path raw = Inr (components raw)"
    and ok: "cl \<le> MAX_FILE_LENGTH" "ul \<le> MAX_FILE_LENGTH" "path_ok raw" "components raw \<notin> paths"
    and f: "f = \<lparr>compressed = comp, sha256_digest = dig, uncompressed_length = ul, bd_path = components raw\<rparr>"
    by (auto simp: read_file_def bind_result_Inr_iff parse_archive_path_iff split: if_splits)
  let ?e = "\<lparr>pe_path = raw, compressed_data = comp, uncompressed_size = int ul, pe_digest = dig\<rparr>"
  have "entry_ok ?e" "f = file_of ?e"
    using r(4,6) ok f by (auto simp: entry_ok_def file_of_def take_bytes_iff [OF assms] DIGEST_LENGTH_def)
  moreover have "sits data c (be_bytes 4 (length raw)) c1" "sits data c1 (be_bytes 8 (length comp)) c2"
    "sits data c2 (be_bytes 8 ul) c3" "sits data c3 dig c4" "sits data c4 raw c5" "sits data c5 comp c'"
    using r by (auto simp: take_bytes_iff [OF assms] read_uint_iff [OF assms])
  then have "sits data c (entry_bytes ?e) c'"
    unfolding entry_bytes_def sits_append package_entry.select_convs nat_int by blast
  ultimately show ?rhs using ok(4) by fastforce
next
  assume ?rhs
  then obtain e where e: "entry_ok e" "f = file_of e" "components (pe_path e) \<notin> paths" "sits data c (entry_bytes e) c'"
    by blast
  from e(4) obtain c1 c2 c3 c4 c5 where s: "sits data c (be_bytes 4 (length (pe_path e))) c1"
    "sits data c1 (be_bytes 8 (length (compressed_data e))) c2" "sits data c2 (be_bytes 8 (nat (uncompressed_size e))) c3"
    "sits data c3 (pe_digest e) c4" "sits data c4 (pe_path e) c5" "sits data c5 (compressed_data e) c'"
    by (auto simp: entry_bytes_def sits_append)
  note z = entry_ok_sizes [OF e(1)]
  have "read_u32 data c = Inr (length (pe_path e), c1)" "read_u64 data c1 = Inr (length (compressed_data e), c2)"
    "read_u64 data c2 = Inr (nat (uncompressed_size e), c3)" "take_bytes data c3 DIGEST_LENGTH = Inr (pe_digest e, c4)"
    "take_bytes data c4 (length (pe_path e)) = Inr (pe_path e, c5)"
    "take_bytes data c5 (length (compressed_data e)) = Inr (compressed_data e, c')"
    "parse_archive_path (pe_path e) = Inr (components (pe_path e))"
    using s z e(1) by (simp_all only: read_uint_iff [OF assms] take_bytes_iff [OF assms] parse_archive_path_iff
        entry_ok_def DIGEST_LENGTH_def simp_thms)
  moreover have "\<not> length (compressed_data e) > MAX_FILE_LENGTH" "\<not> nat (uncompressed_size e) > MAX_FILE_LENGTH"
    using e(1) unfolding entry_ok_def by linarith+
  ultimately show ?lhs using e(2,3) by (simp add: read_file_def file_of_def)
qed

text \<open>The entries behind a run of the loop, and the paths known after it.\<close>

definition files_read :: "nat \<Rightarrow> pathbuf set \<Rightarrow> package_entry list \<Rightarrow> pathbuf set \<Rightarrow> bool" where
  "files_read n paths es paths' \<longleftrightarrow> length es = n \<and> list_all entry_ok es
     \<and> distinct (map (components \<circ> pe_path) es) \<and> set (map (components \<circ> pe_path) es) \<inter> paths = {}
     \<and> paths' = set (map (components \<circ> pe_path) es) \<union> paths"

lemma files_read_Cons:
  "files_read (Suc n) paths (e # es) paths' \<longleftrightarrow>
     entry_ok e \<and> components (pe_path e) \<notin> paths \<and> files_read n (insert (components (pe_path e)) paths) es paths'"
  by (auto simp: files_read_def)

lemma read_files_iff:
  assumes "length data < 18446744073709551616" "c \<le> length data"
  shows "read_files data n paths c = Inr (fs, paths', c') \<longleftrightarrow>
    (\<exists>es. files_read n paths es paths' \<and> fs = map file_of es \<and> sits data c (concat (map entry_bytes es)) c')"
  using assms(2)
proof (induction n arbitrary: paths c fs)
  case 0
  then show ?case by (auto simp: files_read_def)
next
  case (Suc n)
  have sub: "m \<le> length data" if "sits data c (entry_bytes e) m" for e m using that by (simp add: sits_def)
  have "read_files data (Suc n) paths c = Inr (fs, paths', c') \<longleftrightarrow>
      (\<exists>f m gs. read_file data paths c = Inr (f, m) \<and> fs = f # gs
         \<and> read_files data n (insert (bd_path f) paths) m = Inr (gs, paths', c'))"
    by (auto simp: bind_result_Inr_iff)
  also have "\<dots> \<longleftrightarrow> (\<exists>e m gs. entry_ok e \<and> components (pe_path e) \<notin> paths \<and> sits data c (entry_bytes e) m \<and> fs = file_of e # gs
         \<and> read_files data n (insert (components (pe_path e)) paths) m = Inr (gs, paths', c'))"
    unfolding read_file_iff [OF assms(1)] by (metis bd_path_file_of)
  also have "\<dots> \<longleftrightarrow> (\<exists>e m es. entry_ok e \<and> components (pe_path e) \<notin> paths \<and> sits data c (entry_bytes e) m
       \<and> fs = file_of e # map file_of es \<and> files_read n (insert (components (pe_path e)) paths) es paths'
       \<and> sits data m (concat (map entry_bytes es)) c')"
    using Suc.IH [OF sub] by blast
  also have "\<dots> \<longleftrightarrow> (\<exists>e es. files_read (Suc n) paths (e # es) paths' \<and> fs = map file_of (e # es)
       \<and> sits data c (concat (map entry_bytes (e # es))) c')"
    unfolding files_read_Cons sits_append list.map concat.simps by blast
  also have "\<dots> \<longleftrightarrow> (\<exists>es. files_read (Suc n) paths es paths' \<and> fs = map file_of es
       \<and> sits data c (concat (map entry_bytes es)) c')"
  proof -
    have "\<exists>e ds. es = e # ds" if "files_read (Suc n) paths es paths'" for es
      using that by (cases es) (auto simp: files_read_def)
    then show ?thesis by blast
  qed
  finally show ?case .
qed

lemma check_entries_iff:
  "check_entries es paths = Inr paths' \<longleftrightarrow>
     list_all entry_ok es \<and> distinct (map pe_path es) \<and> set (map pe_path es) \<inter> paths = {} \<and> paths' = set (map pe_path es) \<union> paths"
  by (induction es arbitrary: paths)
    (auto simp: bind_result_Inr_iff encode_archive_path_iff entry_ok_def split: if_splits)

lemma write_entries_ok: "list_all entry_ok es \<Longrightarrow> write_entries es = Inr (concat (map entry_bytes es))"
proof (induction es)
  case (Cons e es)
  then show ?case using entry_ok_sizes [of e] by (simp add: as_uint_def entry_bytes_def)
qed simp

definition archive_ok :: "package_entry list \<Rightarrow> bytes \<Rightarrow> bool" where
  "archive_ok es x \<longleftrightarrow> path_ok x \<and> es \<noteq> [] \<and> length es \<le> MAX_FILE_COUNT \<and> list_all entry_ok es
     \<and> distinct (map pe_path es) \<and> x \<in> set (map pe_path es)"

definition archive_bytes :: "package_entry list \<Rightarrow> bytes \<Rightarrow> bytes" where
  "archive_bytes es x =
     ARCHIVE_MAGIC @ be_bytes 4 (length es) @ concat (map entry_bytes es) @ be_bytes 4 (length x) @ x"

definition reader_of :: "package_entry list \<Rightarrow> bytes \<Rightarrow> binary_reader" where
  "reader_of es x = \<lparr>br_files = map file_of es, br_exe = components x\<rparr>"

lemma path_length_fits: "path_ok x \<Longrightarrow> length x < 256 ^ 4"
  by (simp add: path_ok_def MAX_PATH_LENGTH_def)

lemma write_package_iff:
  "write_package es x = Inr data \<longleftrightarrow> archive_ok es x \<and> data = archive_bytes es x"
proof -
  have "length es < 256 ^ 4" if "length es \<le> MAX_FILE_COUNT" using that by (simp add: MAX_FILE_COUNT_def)
  then show ?thesis
    using write_entries_ok [of es] path_length_fits [of x]
    by (auto simp: write_package_def bind_result_Inr_iff encode_archive_path_iff check_entries_iff
        archive_ok_def archive_bytes_def as_uint_def split: if_splits)
qed

lemma distinct_paths:
  assumes "list_all entry_ok es" "path_ok x"
  shows "distinct (map (components \<circ> pe_path) es) \<longleftrightarrow> distinct (map pe_path es)"
    and "components x \<in> set (map (components \<circ> pe_path) es) \<longleftrightarrow> x \<in> set (map pe_path es)"
proof -
  have ok: "path_ok y" if "y \<in> set (map pe_path es)" for y using that assms(1) by (auto simp: list_all_iff entry_ok_def)
  then have "inj_on components (set (map pe_path es))" by (auto simp: inj_on_def components_eq_iff)
  then show "distinct (map (components \<circ> pe_path) es) \<longleftrightarrow> distinct (map pe_path es)"
    by (metis distinct_map list.map_comp)
  show "components x \<in> set (map (components \<circ> pe_path) es) \<longleftrightarrow> x \<in> set (map pe_path es)"
    using ok components_eq_iff [OF assms(2)] by fastforce
qed

lemma read_parts:
  assumes "length data < 18446744073709551616"
  shows "read data = Inr r \<longleftrightarrow>
    (\<exists>n fs paths c1 c2 c3 c4 x. sits data 0 ARCHIVE_MAGIC c1 \<and> sits data c1 (be_bytes 4 n) c2 \<and> n < 256 ^ 4
       \<and> n \<noteq> 0 \<and> n \<le> MAX_FILE_COUNT \<and> read_files data n {} c2 = Inr (fs, paths, c3)
       \<and> sits data c3 (be_bytes 4 (length x)) c4 \<and> sits data c4 x (length data) \<and> path_ok x
       \<and> components x \<in> paths \<and> r = \<lparr>br_files = fs, br_exe = components x\<rparr>)"
  (is "_ \<longleftrightarrow> ?rhs")
proof
  assume "read data = Inr r"
  then show ?rhs
    by (fastforce simp: read_def bind_result_Inr_iff take_bytes_iff [OF assms] read_uint_iff [OF assms]
        parse_archive_path_iff split: if_splits)
next
  assume ?rhs
  then obtain n fs paths c1 c2 c3 c4 x where
    *: "sits data 0 ARCHIVE_MAGIC c1" "sits data c1 (be_bytes 4 n) c2" "n < 256 ^ 4" "n \<noteq> 0" "n \<le> MAX_FILE_COUNT"
      "read_files data n {} c2 = Inr (fs, paths, c3)" "sits data c3 (be_bytes 4 (length x)) c4"
      "sits data c4 x (length data)" "path_ok x" "components x \<in> paths" "r = \<lparr>br_files = fs, br_exe = components x\<rparr>"
    by blast
  then have "take_bytes data 0 (length ARCHIVE_MAGIC) = Inr (ARCHIVE_MAGIC, c1)" "read_u32 data c1 = Inr (n, c2)"
    "read_u32 data c3 = Inr (length x, c4)" "take_bytes data c4 (length x) = Inr (x, length data)"
    "parse_archive_path x = Inr (components x)"
    using path_length_fits [of x]
    by (simp_all only: take_bytes_iff [OF assms] read_uint_iff [OF assms] parse_archive_path_iff simp_thms)
  with * show "read data = Inr r" by (simp add: read_def)
qed

lemma read_iff:
  assumes "length data < 18446744073709551616"
  shows "read data = Inr r \<longleftrightarrow> (\<exists>es x. archive_ok es x \<and> data = archive_bytes es x \<and> r = reader_of es x)"
proof
  assume "read data = Inr r"
  then obtain n fs paths c1 c2 c3 c4 x where
    *: "sits data 0 ARCHIVE_MAGIC c1" "sits data c1 (be_bytes 4 n) c2" "n \<noteq> 0" "n \<le> MAX_FILE_COUNT"
      "read_files data n {} c2 = Inr (fs, paths, c3)" "sits data c3 (be_bytes 4 (length x)) c4"
      "sits data c4 x (length data)" "path_ok x" "components x \<in> paths" "r = \<lparr>br_files = fs, br_exe = components x\<rparr>"
    unfolding read_parts [OF assms] by blast
  have "c2 \<le> length data" using *(2) by (simp add: sits_def)
  with *(5) obtain es where es: "files_read n {} es paths" "fs = map file_of es" "sits data c2 (concat (map entry_bytes es)) c3"
    using read_files_iff [OF assms] by blast
  then have "sits data 0 (archive_bytes es x) (length data)"
    using *(1,2,6,7) unfolding archive_bytes_def sits_append files_read_def by blast
  moreover have "archive_ok es x"
    using es(1) * distinct_paths [of es x] by (auto simp: archive_ok_def files_read_def)
  ultimately show "\<exists>es x. archive_ok es x \<and> data = archive_bytes es x \<and> r = reader_of es x"
    using es(2) *(10) unfolding sits_all reader_of_def by blast
next
  assume "\<exists>es x. archive_ok es x \<and> data = archive_bytes es x \<and> r = reader_of es x"
  then obtain es x where ok: "archive_ok es x" and d: "sits data 0 (archive_bytes es x) (length data)" and r: "r = reader_of es x"
    unfolding sits_all by blast
  from d obtain c1 c2 c3 c4 where s: "sits data 0 ARCHIVE_MAGIC c1" "sits data c1 (be_bytes 4 (length es)) c2"
    "sits data c2 (concat (map entry_bytes es)) c3" "sits data c3 (be_bytes 4 (length x)) c4" "sits data c4 x (length data)"
    unfolding archive_bytes_def sits_append by blast
  let ?paths = "set (map (components \<circ> pe_path) es)"
  have fr: "files_read (length es) {} es ?paths" and "components x \<in> ?paths"
    using ok distinct_paths [of es x] by (auto simp: archive_ok_def files_read_def)
  moreover have "read_files data (length es) {} c2 = Inr (map file_of es, ?paths, c3)"
    using read_files_iff [OF assms, of c2] s(2,3) fr by (auto simp: sits_def)
  moreover have "length es < 256 ^ 4" "length es \<noteq> 0" "length es \<le> MAX_FILE_COUNT" "path_ok x"
    using ok by (auto simp: archive_ok_def MAX_FILE_COUNT_def)
  ultimately show "read data = Inr r"
    unfolding read_parts [OF assms] r reader_of_def using s(1,2,4,5) by blast
qed

text \<open>A small archive with one file, for the examples.\<close>

definition sample_entry :: package_entry where
  "sample_entry = \<lparr>pe_path = [98, 47, 97], compressed_data = [1, 2, 3], uncompressed_size = 7, pe_digest = replicate 32 5\<rparr>"

lemma sample_archive:
  shows "archive_ok [sample_entry] [98, 47, 97]"
    and "length (archive_bytes [sample_entry] [98, 47, 97]) < 18446744073709551616"
proof -
  have "utf8_valid [98, 47, 97]" by code_simp
  then have "path_ok [98, 47, 97]"
    by (simp add: path_ok_def MAX_PATH_LENGTH_def backslash_def colon_def slash_def dot_def dotdot_def)
  then show "archive_ok [sample_entry] [98, 47, 97]"
    by (simp add: archive_ok_def entry_ok_def sample_entry_def MAX_FILE_COUNT_def MAX_FILE_LENGTH_def)
  show "length (archive_bytes [sample_entry] [98, 47, 97]) < 18446744073709551616"
    by (simp add: archive_bytes_def entry_bytes_def sample_entry_def ARCHIVE_MAGIC_def)
qed

text \<open>
  C6. The launcher's reader accepts exactly the archives the packaging script writes, and returns
  the files and the executable that were packed: nothing truncated, extended or re-encoded is
  accepted.
\<close>

theorem reader_accepts_exactly_packages:
  assumes "length data < 18446744073709551616"
  shows "read data = Inr r \<longleftrightarrow> (\<exists>es x. write_package es x = Inr data \<and> r = reader_of es x)"
  unfolding read_iff [OF assms] write_package_iff by blast

theorem reader_accepts_exactly_packages_witness:
  "\<exists>data. write_package [sample_entry] [98, 47, 97] = Inr data \<and> read data = Inr (reader_of [sample_entry] [98, 47, 97])"
proof -
  have "write_package [sample_entry] [98, 47, 97] = Inr (archive_bytes [sample_entry] [98, 47, 97])"
    using sample_archive(1) by (simp add: write_package_iff)
  with reader_accepts_exactly_packages [OF sample_archive(2)] show ?thesis by blast
qed

definition plain_name :: "component \<Rightarrow> bool" where
  "plain_name c \<longleftrightarrow> (\<exists>n. c = Normal n \<and> n \<notin> {[], dot, dotdot} \<and> {slash, backslash, colon, 0} \<inter> set n = {})"

lemma path_ok_plain:
  assumes "path_ok raw"
  shows "components raw \<noteq> [] \<and> list_all plain_name (components raw)"
proof -
  have "set l \<subseteq> set raw" if "l \<in> set (split_on (\<lambda>b. b = slash) raw)" for l
  proof -
    have "set l \<subseteq> set (join_with slash ls)" if "l \<in> set ls" for ls
      using that by (induction slash ls rule: join_with.induct) auto
    from this [OF that] show ?thesis by (simp add: join_split_on)
  qed
  with assms split_on_no_sep [of _ "\<lambda>b. b = slash" raw] show ?thesis
    by (fastforce simp: path_ok_components list_all_iff path_ok_def plain_name_def)
qed

lemma read_safe:
  assumes "length data < 18446744073709551616" "read data = Inr r"
  shows "br_files r \<noteq> [] \<and> length (br_files r) \<le> MAX_FILE_COUNT \<and> distinct (map bd_path (br_files r))
     \<and> br_exe r \<in> set (map bd_path (br_files r))
     \<and> list_all (\<lambda>f. bd_path f \<noteq> [] \<and> list_all plain_name (bd_path f) \<and> length (sha256_digest f) = DIGEST_LENGTH
          \<and> length (compressed f) \<le> MAX_FILE_LENGTH \<and> uncompressed_length f \<le> MAX_FILE_LENGTH) (br_files r)"
proof -
  from assms obtain es x where *: "archive_ok es x" "r = reader_of es x" unfolding read_iff [OF assms(1)] by blast
  have eq: "map bd_path (map file_of es) = map (components \<circ> pe_path) es" by simp
  have "list_all entry_ok es" "path_ok x" using *(1) by (auto simp: archive_ok_def)
  note d = distinct_paths [OF this]
  have each: "bd_path f \<noteq> [] \<and> list_all plain_name (bd_path f) \<and> length (sha256_digest f) = DIGEST_LENGTH
          \<and> length (compressed f) \<le> MAX_FILE_LENGTH \<and> uncompressed_length f \<le> MAX_FILE_LENGTH"
    if "entry_ok e" "f = file_of e" for e f
    using that path_ok_plain [of "pe_path e"] by (auto simp: entry_ok_def file_of_def DIGEST_LENGTH_def)
  then have "list_all (\<lambda>f. bd_path f \<noteq> [] \<and> list_all plain_name (bd_path f) \<and> length (sha256_digest f) = DIGEST_LENGTH
          \<and> length (compressed f) \<le> MAX_FILE_LENGTH \<and> uncompressed_length f \<le> MAX_FILE_LENGTH) (br_files r)"
    using *(1) by (auto simp: *(2) reader_of_def archive_ok_def list_all_iff)
  with *(1) d show ?thesis by (simp add: *(2) reader_of_def archive_ok_def eq del: map_map)
qed

text \<open>
  C27. What the reader returns can be extracted safely: between one and a hundred thousand files with
  distinct paths, each a relative path of plain names (not empty, \<open>.\<close> or \<open>..\<close>, without separator,
  drive colon or NUL), with a 32 byte digest and sizes of at most one gigabyte, and the executable
  is one of them.
\<close>

theorem read_archive_is_safe:
  assumes "length data < 18446744073709551616" "read data = Inr r"
  shows "br_files r \<noteq> [] \<and> length (br_files r) \<le> MAX_FILE_COUNT \<and> distinct (map bd_path (br_files r))
     \<and> br_exe r \<in> set (map bd_path (br_files r))
     \<and> list_all (\<lambda>f. bd_path f \<noteq> [] \<and> list_all plain_name (bd_path f) \<and> length (sha256_digest f) = DIGEST_LENGTH
          \<and> length (compressed f) \<le> MAX_FILE_LENGTH \<and> uncompressed_length f \<le> MAX_FILE_LENGTH) (br_files r)"
  using read_safe [OF assms] .

theorem read_archive_is_safe_witness:
  "br_files (reader_of [sample_entry] [98, 47, 97]) \<noteq> [] \<and> distinct (map bd_path (br_files (reader_of [sample_entry] [98, 47, 97])))"
proof -
  have "read (archive_bytes [sample_entry] [98, 47, 97]) = Inr (reader_of [sample_entry] [98, 47, 97])"
    using sample_archive read_iff by blast
  from read_archive_is_safe [OF sample_archive(2) this] show ?thesis by blast
qed

end
