(* ===== verification/FileSystem.thy ===== *)
theory FileSystem
  imports PortableArchive
begin

text \<open>
  The part of \<open>std::fs\<close> that the portable launcher uses, on a file system of directories, regular
  files and symbolic links. Every call can fail for a reason of its own (permissions, a full disk):
  the environment \<open>os\<close> decides, and the theorems hold for each. Links are resolved as the kernel
  does it, at most forty in one path (the limit of Linux; Windows allows sixty-three). A path is the
  list of its components from the root, the drive of a Windows path being the first.
\<close>

section \<open>Nodes and path resolution\<close>

type_synonym path = "bytes list"

datatype node = Dir | RegFile bytes | Symlink path

type_synonym fs = "path \<rightharpoonup> node"

definition MAX_LINKS :: nat where "MAX_LINKS = 40"

text \<open>
  The canonical place of a path: directories on the way are entered, links replaced by their
  (absolute) targets, a link at the end only when \<open>follow\<close>.
\<close>

function canon :: "fs \<Rightarrow> bool \<Rightarrow> nat \<Rightarrow> path \<Rightarrow> path \<Rightarrow> (io_error, path) result" where
  "canon fs follow n d [] = Inr d"
| "canon fs follow n d (c # cs) =
     (if fs d \<noteq> Some Dir then Inl NotADirectory
      else case fs (d @ [c]) of
             None \<Rightarrow> if cs = [] then Inr (d @ [c]) else Inl NotFound
           | Some Dir \<Rightarrow> canon fs follow n (d @ [c]) cs
           | Some (RegFile _) \<Rightarrow> if cs = [] then Inr (d @ [c]) else Inl NotADirectory
           | Some (Symlink t) \<Rightarrow>
               if cs = [] \<and> \<not> follow then Inr (d @ [c])
               else if n = 0 then Inl OtherError
               else canon fs follow (n - 1) [] (t @ cs))"
  by pat_completeness auto
termination
  by (relation "inv_image (less_than <*lex*> less_than) (\<lambda>(fs, follow, n, d, cs). (n, length cs))") auto

abbreviation place :: "fs \<Rightarrow> path \<Rightarrow> (io_error, path) result" where
  "place fs p \<equiv> canon fs False MAX_LINKS [] p"

section \<open>Calls\<close>

datatype syscall = SysLstat | SysStat | SysMkdir | SysOpen | SysCreate | SysWrite | SysSync | SysRename | SysUnlink | SysRemoveTree | SysChmod

text \<open>
  \<open>fault\<close> makes a call fail; \<open>written\<close> is how much of a failing write reached the file, \<open>removed\<close> what
  a failing removal of a tree had removed.
\<close>

record os =
  fault :: "syscall \<Rightarrow> path \<Rightarrow> fs \<Rightarrow> io_error option"
  written :: "path \<Rightarrow> fs \<Rightarrow> nat"
  removed :: "path \<Rightarrow> fs \<Rightarrow> path \<Rightarrow> bool"

type_synonym 'a io = "fs \<times> (io_error, 'a) result"

definition bind_io :: "'a io \<Rightarrow> ('a \<Rightarrow> fs \<Rightarrow> 'b io) \<Rightarrow> 'b io" where
  "bind_io m f = (case m of (fs, Inl e) \<Rightarrow> (fs, Inl e) | (fs, Inr a) \<Rightarrow> f a fs)"

lemma bind_io_simps [simp]: "bind_io (fs, Inl e) f = (fs, Inl e)" "bind_io (fs, Inr a) f = f a fs"
  by (simp_all add: bind_io_def)

definition guarded :: "os \<Rightarrow> syscall \<Rightarrow> path \<Rightarrow> fs \<Rightarrow> 'a io \<Rightarrow> 'a io" where
  "guarded os c p fs r = (case fault os c p fs of Some e \<Rightarrow> (fs, Inl e) | None \<Rightarrow> r)"

definition symlink_metadata :: "os \<Rightarrow> path \<Rightarrow> fs \<Rightarrow> (io_error, node) result" where
  "symlink_metadata os p fs =
     (case fault os SysLstat p fs of
        Some e \<Rightarrow> Inl e
      | None \<Rightarrow> bind_result (place fs p) (\<lambda>q. case fs q of None \<Rightarrow> Inl NotFound | Some x \<Rightarrow> Inr x))"

definition metadata :: "os \<Rightarrow> path \<Rightarrow> fs \<Rightarrow> (io_error, node) result" where
  "metadata os p fs =
     (case fault os SysStat p fs of
        Some e \<Rightarrow> Inl e
      | None \<Rightarrow> bind_result (canon fs True MAX_LINKS [] p) (\<lambda>q. case fs q of None \<Rightarrow> Inl NotFound | Some x \<Rightarrow> Inr x))"

definition is_dir :: "os \<Rightarrow> path \<Rightarrow> fs \<Rightarrow> bool" where
  "is_dir os p fs \<longleftrightarrow> metadata os p fs = Inr Dir"

definition read_contents :: "os \<Rightarrow> path \<Rightarrow> fs \<Rightarrow> (io_error, bytes) result" where
  "read_contents os p fs =
     (case fault os SysOpen p fs of
        Some e \<Rightarrow> Inl e
      | None \<Rightarrow> bind_result (canon fs True MAX_LINKS [] p)
          (\<lambda>q. case fs q of None \<Rightarrow> Inl NotFound | Some (RegFile c) \<Rightarrow> Inr c | Some _ \<Rightarrow> Inl OtherError))"

definition create_node :: "os \<Rightarrow> syscall \<Rightarrow> node \<Rightarrow> path \<Rightarrow> fs \<Rightarrow> unit io" where
  "create_node os c x p fs = guarded os c p fs
     (case place fs p of
        Inl e \<Rightarrow> (fs, Inl e)
      | Inr q \<Rightarrow> if fs q \<noteq> None then (fs, Inl AlreadyExists) else (fs(q \<mapsto> x), Inr ()))"

definition create_dir :: "os \<Rightarrow> path \<Rightarrow> fs \<Rightarrow> unit io" where
  "create_dir os p fs = create_node os SysMkdir Dir p fs"

definition create_new :: "os \<Rightarrow> path \<Rightarrow> fs \<Rightarrow> unit io" where
  "create_new os p fs = create_node os SysCreate (RegFile []) p fs"

text \<open>\<open>DirBuilder::create\<close> with \<open>recursive\<close>; the empty path stands for a root.\<close>

function create_dir_all :: "os \<Rightarrow> path \<Rightarrow> fs \<Rightarrow> unit io" where
  "create_dir_all os p fs =
     (if p = [] then (fs, Inr ())
      else case create_dir os p fs of
             (fs', Inr _) \<Rightarrow> (fs', Inr ())
           | (fs', Inl e) \<Rightarrow>
               if e \<noteq> NotFound then (if is_dir os p fs' then (fs', Inr ()) else (fs', Inl e))
               else bind_io (create_dir_all os (butlast p) fs') (\<lambda>_ fs.
                 case create_dir os p fs of
                   (fs', Inr _) \<Rightarrow> (fs', Inr ())
                 | (fs', Inl e) \<Rightarrow> if is_dir os p fs' then (fs', Inr ()) else (fs', Inl e)))"
  by pat_completeness auto
termination by (relation "measure (\<lambda>(os, p, fs). length p)") auto

declare create_dir_all.simps [simp del]

text \<open>Writing through an open file, whose place in the tree does not change meanwhile.\<close>

definition write_all :: "os \<Rightarrow> path \<Rightarrow> bytes \<Rightarrow> fs \<Rightarrow> unit io" where
  "write_all os p content fs =
     (case place fs p of
        Inl e \<Rightarrow> (fs, Inl e)
      | Inr q \<Rightarrow>
          case fault os SysWrite p fs of
            Some e \<Rightarrow> (fs(q \<mapsto> RegFile (take (written os p fs) content)), Inl e)
          | None \<Rightarrow> (fs(q \<mapsto> RegFile content), Inr ()))"

definition sync_all :: "os \<Rightarrow> path \<Rightarrow> fs \<Rightarrow> unit io" where
  "sync_all os p fs = guarded os SysSync p fs (fs, Inr ())"

definition rename :: "os \<Rightarrow> path \<Rightarrow> path \<Rightarrow> fs \<Rightarrow> unit io" where
  "rename os p p' fs = guarded os SysRename p fs
     (case (place fs p, place fs p') of
        (Inl e, _) \<Rightarrow> (fs, Inl e)
      | (_, Inl e) \<Rightarrow> (fs, Inl e)
      | (Inr q, Inr q') \<Rightarrow>
          case fs q of
            Some (RegFile c) \<Rightarrow>
              if fs q' = Some Dir then (fs, Inl OtherError) else (fs(q := None, q' := Some (RegFile c)), Inr ())
          | None \<Rightarrow> (fs, Inl NotFound)
          | _ \<Rightarrow> (fs, Inl OtherError))"

definition remove_file :: "os \<Rightarrow> path \<Rightarrow> fs \<Rightarrow> unit io" where
  "remove_file os p fs = guarded os SysUnlink p fs
     (case place fs p of
        Inl e \<Rightarrow> (fs, Inl e)
      | Inr q \<Rightarrow>
          case fs q of
            None \<Rightarrow> (fs, Inl NotFound)
          | Some Dir \<Rightarrow> (fs, Inl OtherError)
          | _ \<Rightarrow> (fs(q := None), Inr ()))"

text \<open>\<open>remove_dir_all\<close> does not follow links; when it fails, some of the tree may be gone.\<close>

definition below :: "path \<Rightarrow> path \<Rightarrow> bool" where
  "below P q \<longleftrightarrow> take (length P) q = P"

definition remove_dir_all :: "os \<Rightarrow> path \<Rightarrow> fs \<Rightarrow> unit io" where
  "remove_dir_all os p fs =
     (case place fs p of
        Inl e \<Rightarrow> (fs, Inl e)
      | Inr q \<Rightarrow>
          if fs q \<noteq> Some Dir then (fs, Inl NotADirectory)
          else case fault os SysRemoveTree p fs of
            Some e \<Rightarrow> (\<lambda>r. if below q r \<and> removed os p fs r then None else fs r, Inl e)
          | None \<Rightarrow> (\<lambda>r. if below q r then None else fs r, Inr ()))"

text \<open>\<open>fs::write\<close> creates or truncates, following a link at the end of the path.\<close>

definition write_contents :: "os \<Rightarrow> path \<Rightarrow> bytes \<Rightarrow> fs \<Rightarrow> unit io" where
  "write_contents os p content fs = guarded os SysOpen p fs
     (case canon fs True MAX_LINKS [] p of
        Inl e \<Rightarrow> (fs, Inl e)
      | Inr q \<Rightarrow>
          if fs q = Some Dir then (fs, Inl OtherError)
          else case fault os SysWrite p fs of
            Some e \<Rightarrow> (fs(q \<mapsto> RegFile (take (written os p fs) content)), Inl e)
          | None \<Rightarrow> (fs(q \<mapsto> RegFile content), Inr ()))"

text \<open>\<open>fs::copy\<close> reads the source to its end before the target is complete.\<close>

definition copy_file :: "os \<Rightarrow> path \<Rightarrow> path \<Rightarrow> fs \<Rightarrow> unit io" where
  "copy_file os src tgt fs =
     (case read_contents os src fs of Inl e \<Rightarrow> (fs, Inl e) | Inr c \<Rightarrow> write_contents os tgt c fs)"

section \<open>Lemmas: resolution\<close>

definition dirs :: "path \<Rightarrow> path \<Rightarrow> fs \<Rightarrow> bool" where
  "dirs P ns fs \<longleftrightarrow> (\<forall>k\<le>length ns. fs (P @ take k ns) = Some Dir)"

lemma dirs_Nil [simp]: "dirs P [] fs \<longleftrightarrow> fs P = Some Dir"
  by (simp add: dirs_def)

lemma dirs_root: "dirs P ns fs \<Longrightarrow> fs P = Some Dir"
  by (auto simp: dirs_def dest: spec [of _ 0])

lemma dirs_snoc [simp]: "dirs P (ns @ [n]) fs \<longleftrightarrow> dirs P ns fs \<and> fs (P @ ns @ [n]) = Some Dir"
  by (auto simp: dirs_def le_Suc_eq)

lemma dirs_Cons: "dirs P (c # cs) fs \<longleftrightarrow> fs P = Some Dir \<and> dirs (P @ [c]) cs fs"
proof -
  have "(\<forall>k\<le>Suc (length cs). Q k) \<longleftrightarrow> Q 0 \<and> (\<forall>k\<le>length cs. Q (Suc k))" for Q :: "nat \<Rightarrow> bool"
    by (metis Suc_le_mono not0_implies_Suc zero_le)
  then show ?thesis by (simp add: dirs_def)
qed

lemma canon_down: "dirs P ns fs \<Longrightarrow> canon fs False n P (ns @ [m]) = Inr (P @ ns @ [m])"
proof (induction ns arbitrary: P)
  case Nil
  then show ?case by (auto split: option.split node.split)
next
  case (Cons c cs)
  then have d: "fs P = Some Dir" "dirs (P @ [c]) cs fs" by (simp_all add: dirs_Cons)
  with Cons.IH [of "P @ [c]"] dirs_root [OF d(2)] show ?case by simp
qed

lemma canon_extend:
  "canon fs follow n d xs = Inr P \<Longrightarrow> follow = False \<Longrightarrow> dirs P ns fs \<Longrightarrow> canon fs False n d (xs @ ns @ [m]) = Inr (P @ ns @ [m])"
proof (induction fs follow n d xs rule: canon.induct)
  case (1 fs follow n d)
  then show ?case by (simp add: canon_down)
next
  case (2 fs follow n d c cs)
  with dirs_root [OF "2.prems"(3)] show ?case
    by (auto split: option.splits node.splits if_splits)
qed

lemma canon_follow:
  "canon fs follow n d xs = Inr q \<Longrightarrow> (\<And>t. fs q \<noteq> Some (Symlink t)) \<Longrightarrow> canon fs True n d xs = Inr q"
proof (induction fs follow n d xs rule: canon.induct)
  case (2 fs follow n d c cs)
  then show ?case by (auto split: option.splits node.splits if_splits)
qed simp

text \<open>Directories and links decide the place of a node that stays.\<close>

lemma canon_keep_node:
  assumes "\<And>q. fs q = Some Dir \<Longrightarrow> fs' q = Some Dir" "\<And>q t. fs q = Some (Symlink t) \<Longrightarrow> fs' q = Some (Symlink t)"
    and "fs' P = fs P" "fs P = Some x"
  shows "canon fs follow n d xs = Inr P \<Longrightarrow> canon fs' follow n d xs = Inr P"
  using assms
proof (induction fs follow n d xs rule: canon.induct)
  case (2 fs follow n d c cs)
  have dir: "fs' q = Some Dir" if "fs q = Some Dir" for q using that 2(4) by blast
  have link: "fs' q = Some (Symlink t)" if "fs q = Some (Symlink t)" for q t using that 2(5) by blast
  have end_node: "fs' P = Some x" "fs P = Some x" using 2(6,7) by simp_all
  from 2 show ?case
    by (auto simp: dir link end_node split: option.splits node.splits if_splits)
qed simp

lemma canon_keep:
  assumes "\<And>q. fs q = Some Dir \<Longrightarrow> fs' q = Some Dir" "\<And>q t. fs q = Some (Symlink t) \<Longrightarrow> fs' q = Some (Symlink t)"
  shows "canon fs follow n d xs = Inr P \<Longrightarrow> fs P = Some Dir \<Longrightarrow> canon fs' follow n d xs = Inr P"
  using canon_keep_node [OF assms] assms(1) by simp

section \<open>Lemmas: what may change\<close>

text \<open>
  Work below \<open>P\<close> towards the target \<open>T\<close>: a node may change when it did not exist, or when it is the
  target and a regular file.
\<close>

definition may_change :: "path \<Rightarrow> path \<Rightarrow> fs \<Rightarrow> path \<Rightarrow> bool" where
  "may_change P T fs q \<longleftrightarrow> below P q \<and> q \<noteq> P \<and> (fs q = None \<or> q = T \<and> (\<exists>c. fs T = Some (RegFile c)))"

definition keeps :: "path \<Rightarrow> path \<Rightarrow> fs \<Rightarrow> fs \<Rightarrow> bool" where
  "keeps P T fs fs' \<longleftrightarrow> (\<forall>q. fs' q \<noteq> fs q \<longrightarrow> may_change P T fs q)"

lemma keeps_refl [simp]: "keeps P T fs fs"
  by (simp add: keeps_def)

lemma keeps_update: "keeps P T fs fs' \<Longrightarrow> may_change P T fs q \<Longrightarrow> keeps P T fs (fs'(q := x))"
  by (auto simp: keeps_def)

lemma keeps_free: "keeps P T fs fs' \<Longrightarrow> fs' q = None \<Longrightarrow> below P q \<Longrightarrow> q \<noteq> P \<Longrightarrow> may_change P T fs q"
  by (metis keeps_def may_change_def)

lemma keeps_solid:
  assumes "keeps P T fs fs'"
  shows "fs q = Some Dir \<Longrightarrow> fs' q = Some Dir" "fs q = Some (Symlink t) \<Longrightarrow> fs' q = Some (Symlink t)"
  using assms unfolding keeps_def may_change_def
  by (metis (no_types) node.distinct(1) option.distinct(1) option.inject,
      metis (no_types) node.distinct(5) option.distinct(1) option.inject)

lemma below_append [simp]: "below P (P @ r)"
  by (simp add: below_def)

definition working :: "path \<Rightarrow> path \<Rightarrow> path \<Rightarrow> path \<Rightarrow> fs \<Rightarrow> fs \<Rightarrow> bool" where
  "working prefix P T ns fs fs' \<longleftrightarrow> place fs prefix = Inr P \<and> fs P = Some Dir \<and> keeps P T fs fs' \<and> dirs P ns fs'"

lemma working_place: "working prefix P T ns fs fs' \<Longrightarrow> place fs' (prefix @ ns @ [m]) = Inr (P @ ns @ [m])"
proof -
  assume w: "working prefix P T ns fs fs'"
  then have "place fs' prefix = Inr P"
    using canon_keep [of fs fs'] keeps_solid [of P T fs fs'] by (auto simp: working_def)
  with w show ?thesis by (intro canon_extend [where follow = False]) (auto simp: working_def)
qed

lemma working_update:
  assumes "working prefix P T ns fs fs'" "may_change P T fs (P @ ns @ [m])"
  shows "working prefix P T ns fs (fs'(P @ ns @ [m] := x))"
proof -
  have "P @ take k ns \<noteq> P @ ns @ [m]" if "k \<le> length ns" for k
    using that by (metis append_is_Nil_conv append_take_drop_id append.assoc same_append_eq append_self_conv not_Cons_self2)
  with assms show ?thesis by (auto simp: working_def keeps_update dirs_def)
qed

lemma working_free: "working prefix P T ns fs fs' \<Longrightarrow> fs' (P @ ns @ [m]) = None \<Longrightarrow> may_change P T fs (P @ ns @ [m])"
  using keeps_free [of P T fs fs' "P @ ns @ [m]"] by (simp add: working_def)

lemma working_down:
  "working prefix P T ns fs fs' \<Longrightarrow> fs' (P @ ns @ [m]) = Some Dir \<Longrightarrow> working prefix P T (ns @ [m]) fs fs'"
  by (simp add: working_def)

subsection \<open>Calls on entries of the directory worked in\<close>

lemma working_create_node:
  assumes "working prefix P T ns fs fs1" "create_node os c x (prefix @ ns @ [m]) fs1 = (fs2, r)"
  shows "(\<exists>e. r = Inl e \<and> fs2 = fs1) \<or> (r = Inr () \<and> fs1 (P @ ns @ [m]) = None \<and> fs2 = fs1(P @ ns @ [m] \<mapsto> x))"
  using assms(2) working_place [OF assms(1), of m]
  by (auto simp: create_node_def guarded_def split: option.splits if_splits)

lemma working_read_contents:
  assumes "working prefix P T ns fs fs1" "fs1 (P @ ns @ [m]) = Some (RegFile c)" "read_contents os (prefix @ ns @ [m]) fs1 = Inr d"
  shows "d = c"
  using assms(2,3) canon_follow [OF working_place [OF assms(1), of m]]
  by (auto simp: read_contents_def split: option.splits)

lemma working_write_all:
  assumes "working prefix P T ns fs fs1" "write_all os (prefix @ ns @ [m]) c fs1 = (fs2, r)"
  shows "\<exists>d. fs2 = fs1(P @ ns @ [m] \<mapsto> RegFile d) \<and> (r = Inr () \<longrightarrow> d = c)"
  using assms(2) working_place [OF assms(1), of m]
  by (auto simp: write_all_def split: option.splits)

lemma working_remove_file:
  assumes "working prefix P T ns fs fs1" "remove_file os (prefix @ ns @ [m]) fs1 = (fs2, r)"
  shows "(\<exists>e. r = Inl e \<and> fs2 = fs1) \<or> (r = Inr () \<and> fs2 = fs1(P @ ns @ [m] := None))"
  using assms(2) working_place [OF assms(1), of m]
  by (auto simp: remove_file_def guarded_def split: option.splits node.splits)

lemma working_rename:
  assumes "working prefix P T ns fs fs1" "rename os (prefix @ ns @ [m]) (prefix @ ns @ [n]) fs1 = (fs2, r)"
  shows "(\<exists>e. r = Inl e \<and> fs2 = fs1)
     \<or> (\<exists>c. r = Inr () \<and> fs1 (P @ ns @ [m]) = Some (RegFile c)
           \<and> fs2 = fs1(P @ ns @ [m] := None, P @ ns @ [n] := Some (RegFile c)))"
  using assms(2) working_place [OF assms(1)]
  by (auto simp: rename_def guarded_def split: option.splits node.splits if_splits)

text \<open>A link or directory is reported as such, and nothing but a missing entry as not found.\<close>

definition honest :: "os \<Rightarrow> bool" where
  "honest os \<longleftrightarrow> (\<forall>c p fs. fault os c p fs \<noteq> Some NotFound)"

lemma working_lstat:
  assumes "working prefix P T ns fs fs1" "honest os"
  shows "symlink_metadata os (prefix @ ns @ [m]) fs1 = Inr x \<Longrightarrow> fs1 (P @ ns @ [m]) = Some x"
    and "symlink_metadata os (prefix @ ns @ [m]) fs1 = Inl NotFound \<Longrightarrow> fs1 (P @ ns @ [m]) = None"
  using assms(2) working_place [OF assms(1), of m]
  by (auto simp: symlink_metadata_def honest_def split: option.splits)

end
