(* ===== verification/PortableExtract.thy ===== *)
theory PortableExtract
  imports FileSystem
begin

text \<open>
  Extraction by the portable launcher: \<open>write_to_file\<close> of \<open>libs/portable/src/bin_reader.rs\<close> and
  \<open>setup\<close> of \<open>libs/portable/src/main.rs\<close>. The theorems show that extraction stays inside the
  extraction directory whatever links it finds there, and that what it leaves has been verified.
\<close>

section \<open>Writing one file\<close>

text \<open>\<open>sha256\<close> and \<open>brotli\<close> (the decoder read to its end, limited to a length) are libraries.\<close>

record codec =
  sha256 :: "bytes \<Rightarrow> bytes"
  brotli :: "bytes \<Rightarrow> nat \<Rightarrow> (io_error, bytes) result"

definition str_bytes :: "string \<Rightarrow> bytes" where
  "str_bytes s = map (\<lambda>c. of_nat (of_char c)) s"

text \<open>\<open>Path::join\<close> with a relative path; \<open>..\<close> is resolved at once.\<close>

fun push_component :: "path \<Rightarrow> component \<Rightarrow> path" where
  "push_component p RootDir = []"
| "push_component p CurDir = p"
| "push_component p ParentDir = butlast p"
| "push_component p (Normal n) = p @ [n]"

definition join_path :: "path \<Rightarrow> pathbuf \<Rightarrow> path" where
  "join_path p r = foldl push_component p r"

definition sha256_file :: "os \<Rightarrow> codec \<Rightarrow> path \<Rightarrow> fs \<Rightarrow> (io_error, bytes) result" where
  "sha256_file os lib p fs = bind_result (read_contents os p fs) (\<lambda>c. Inr (sha256 lib c))"

text \<open>The check of one directory on the way, which is created when it does not exist.\<close>

definition ensure_directory :: "os \<Rightarrow> (path \<Rightarrow> fs \<Rightarrow> unit io) \<Rightarrow> io_error \<Rightarrow> path \<Rightarrow> fs \<Rightarrow> unit io" where
  "ensure_directory os create unsafe p fs =
     (case symlink_metadata os p fs of
        Inr x \<Rightarrow> if x \<noteq> Dir then (fs, Inl unsafe) else (fs, Inr ())
      | Inl e \<Rightarrow> if e = NotFound then create p fs else (fs, Inl e))"

fun ensure_components :: "os \<Rightarrow> path \<Rightarrow> component list \<Rightarrow> fs \<Rightarrow> unit io" where
  "ensure_components os current [] fs = (fs, Inr ())"
| "ensure_components os current (c # cs) fs =
     (case c of
        Normal n \<Rightarrow>
          bind_io (ensure_directory os (create_dir os) DirectoryUnsafe (current @ [n]) fs)
            (\<lambda>_ fs. ensure_components os (current @ [n]) cs fs)
      | _ \<Rightarrow> (fs, Inl PathEscaped))"

definition ensure_safe_parent :: "os \<Rightarrow> path \<Rightarrow> pathbuf \<Rightarrow> fs \<Rightarrow> path io" where
  "ensure_safe_parent os prefix relative fs =
     bind_io (ensure_directory os (create_dir_all os) RootUnsafe prefix fs) (\<lambda>_ fs.
     bind_io (ensure_components os prefix (butlast relative) fs) (\<lambda>_ fs.
       (fs, Inr (join_path prefix relative))))"

definition decompress :: "codec \<Rightarrow> binary_data \<Rightarrow> (io_error, bytes) result" where
  "decompress lib f =
     bind_result (brotli lib (compressed f) (min (uncompressed_length f + 1) 18446744073709551615)) (\<lambda>content.
       if length content \<noteq> uncompressed_length f then Inl SizeMismatch
       else if sha256 lib content \<noteq> sha256_digest f then Inl ChecksumMismatch
       else Inr content)"

definition temporary_name :: "nat \<Rightarrow> bytes \<Rightarrow> nat \<Rightarrow> bytes" where
  "temporary_name pid name attempt =
     str_bytes ''.'' @ name @ str_bytes ''.camellia-'' @ str_bytes (show_nat pid) @ str_bytes ''-''
       @ str_bytes (show_nat attempt) @ str_bytes ''.tmp''"

text \<open>The first free temporary name among the remaining attempts.\<close>

fun open_temporary :: "os \<Rightarrow> nat \<Rightarrow> path \<Rightarrow> bytes \<Rightarrow> nat list \<Rightarrow> fs \<Rightarrow> path io" where
  "open_temporary os pid dir name [] fs = (fs, Inl NoTemporary)"
| "open_temporary os pid dir name (a # as) fs =
     (let candidate = dir @ [temporary_name pid name a]
      in case create_new os candidate fs of
           (fs', Inr _) \<Rightarrow> (fs', Inr candidate)
         | (fs', Inl e) \<Rightarrow> if e = AlreadyExists then open_temporary os pid dir name as fs' else (fs', Inl e))"

text \<open>The renaming, with the fallback of a system that does not replace an existing file.\<close>

definition place_temporary :: "os \<Rightarrow> path \<Rightarrow> path \<Rightarrow> fs \<Rightarrow> unit io" where
  "place_temporary os tmp target fs =
     (case rename os tmp target fs of
        (fs, Inr _) \<Rightarrow> (fs, Inr ())
      | (fs, Inl first_error) \<Rightarrow>
          if first_error = AlreadyExists \<or> first_error = PermissionDenied
          then (case symlink_metadata os target fs of
                  Inl _ \<Rightarrow> (fs, Inl first_error)
                | Inr (RegFile _) \<Rightarrow> bind_io (remove_file os target fs) (\<lambda>_ fs. rename os tmp target fs)
                | Inr _ \<Rightarrow> (fs, Inl TargetChanged))
          else (fs, Inl first_error))"

definition write_temporary :: "os \<Rightarrow> bytes \<Rightarrow> path \<Rightarrow> path \<Rightarrow> fs \<Rightarrow> unit io" where
  "write_temporary os content tmp target fs =
     bind_io (write_all os tmp content fs) (\<lambda>_ fs.
     bind_io (sync_all os tmp fs) (\<lambda>_ fs.
       place_temporary os tmp target fs))"

definition replace_target :: "os \<Rightarrow> codec \<Rightarrow> nat \<Rightarrow> binary_data \<Rightarrow> path \<Rightarrow> fs \<Rightarrow> unit io" where
  "replace_target os lib pid f target fs =
     (case decompress lib f of
        Inl e \<Rightarrow> (fs, Inl e)
      | Inr content \<Rightarrow>
          if target = [] then (fs, Inl NoFileName)
          else bind_io (open_temporary os pid (butlast target) (last target) [0..<100] fs) (\<lambda>tmp fs.
            case write_temporary os content tmp target fs of
              (fs, Inr _) \<Rightarrow> (fs, Inr ())
            | (fs, Inl e) \<Rightarrow> (fst (remove_file os tmp fs), Inl e)))"

definition write_to_file :: "os \<Rightarrow> codec \<Rightarrow> nat \<Rightarrow> path \<Rightarrow> binary_data \<Rightarrow> fs \<Rightarrow> unit io" where
  "write_to_file os lib pid prefix f fs =
     bind_io (ensure_safe_parent os prefix (bd_path f) fs) (\<lambda>target fs.
       case symlink_metadata os target fs of
         Inr (RegFile _) \<Rightarrow>
           (case sha256_file os lib target fs of
              Inl e \<Rightarrow> (fs, Inl e)
            | Inr d \<Rightarrow> if d = sha256_digest f then (fs, Inr ()) else replace_target os lib pid f target fs)
       | Inr _ \<Rightarrow> (fs, Inl TargetUnsafe)
       | Inl e \<Rightarrow> if e = NotFound then replace_target os lib pid f target fs else (fs, Inl e))"

section \<open>The package\<close>

definition PACKAGE_SHA256_PREFIX :: bytes where
  "PACKAGE_SHA256_PREFIX = str_bytes ''package_sha256 = '' @ [34]"

definition APP_METADATA_CONFIG :: bytes where "APP_METADATA_CONFIG = str_bytes ''meta.toml''"

text \<open>\<open>str::lines\<close>: split after line feeds, without a carriage return at the end of a line.\<close>

definition text_lines :: "bytes \<Rightarrow> bytes list" where
  "text_lines t =
     (let ls = split_on (\<lambda>b. b = 10) t;
          ls = (if last ls = [] then butlast ls else ls);
          cut = (\<lambda>l. if l \<noteq> [] \<and> last l = 13 then butlast l else l)
      in (if t \<noteq> [] \<and> last t \<noteq> 10 then map cut (butlast ls) @ [last ls] else map cut ls))"

definition strip_prefix :: "bytes \<Rightarrow> bytes \<Rightarrow> bytes option" where
  "strip_prefix p l = (if take (length p) l = p then Some (drop (length p) l) else None)"

definition strip_quote :: "bytes \<Rightarrow> bytes option" where
  "strip_quote l = (if l \<noteq> [] \<and> last l = 34 then Some (butlast l) else None)"

fun find_map :: "('a \<Rightarrow> 'b option) \<Rightarrow> 'a list \<Rightarrow> 'b option" where
  "find_map f [] = None"
| "find_map f (x # xs) = (case f x of Some y \<Rightarrow> Some y | None \<Rightarrow> find_map f xs)"

definition parse_package_sha256 :: "bytes \<Rightarrow> (io_error, bytes) result" where
  "parse_package_sha256 meta =
     (if \<not> utf8_valid meta then Inl NotUtf8
      else case find_map (\<lambda>l. Option.bind (strip_prefix PACKAGE_SHA256_PREFIX l) strip_quote) (text_lines meta) of
             None \<Rightarrow> Inl BadMetadata
           | Some v \<Rightarrow>
               if length v \<noteq> 64 \<or> \<not> list_all (\<lambda>b. (48 \<le> b \<and> b \<le> 57) \<or> (97 \<le> b \<and> b \<le> 102)) v
               then Inl BadMetadata else Inr v)"

definition is_package_current :: "os \<Rightarrow> path \<Rightarrow> bytes \<Rightarrow> fs \<Rightarrow> (io_error, bool) result" where
  "is_package_current os dir package_sha256 fs =
     (case read_contents os (dir @ [APP_METADATA_CONFIG]) fs of
        Inr meta \<Rightarrow> Inr (case parse_package_sha256 meta of Inr stored \<Rightarrow> stored = package_sha256 | Inl _ \<Rightarrow> False)
      | Inl e \<Rightarrow> if e = NotFound then Inr False else Inl e)"

definition write_meta :: "os \<Rightarrow> path \<Rightarrow> bytes \<Rightarrow> fs \<Rightarrow> unit io" where
  "write_meta os dir package_sha256 fs =
     write_contents os (dir @ [APP_METADATA_CONFIG]) (PACKAGE_SHA256_PREFIX @ package_sha256 @ [34, 10]) fs"

definition clear_directory :: "os \<Rightarrow> path \<Rightarrow> fs \<Rightarrow> unit io" where
  "clear_directory os dir fs =
     (case symlink_metadata os dir fs of
        Inr x \<Rightarrow> if x \<noteq> Dir then (fs, Inl RootUnsafe) else remove_dir_all os dir fs
      | Inl e \<Rightarrow> if e = NotFound then (fs, Inr ()) else (fs, Inl e))"

definition configure_permission :: "os \<Rightarrow> binary_reader \<Rightarrow> path \<Rightarrow> fs \<Rightarrow> unit io" where
  "configure_permission os reader prefix fs =
     (let executable = join_path prefix (br_exe reader)
      in case metadata os executable fs of
           Inl e \<Rightarrow> (fs, Inl e)
         | Inr _ \<Rightarrow> guarded os SysChmod executable fs (fs, Inr ()))"

fun write_files :: "os \<Rightarrow> codec \<Rightarrow> nat \<Rightarrow> path \<Rightarrow> binary_data list \<Rightarrow> fs \<Rightarrow> unit io" where
  "write_files os lib pid dir [] fs = (fs, Inr ())"
| "write_files os lib pid dir (f # files) fs =
     bind_io (write_to_file os lib pid dir f fs) (\<lambda>_ fs. write_files os lib pid dir files fs)"

text \<open>
  What the build for a platform adds: metadata is embedded on Windows only, where the launcher also
  prepares a copy of the system's \<open>RuntimeBroker.exe\<close>; its failure is only reported.
\<close>

datatype platform = OnWindows | OnLinux | OnOther

fun APP_METADATA :: "platform \<Rightarrow> bytes \<Rightarrow> bytes" where
  "APP_METADATA OnWindows app_toml = app_toml"
| "APP_METADATA _ app_toml = []"

definition RUNTIME_BROKER_EXE :: path where
  "RUNTIME_BROKER_EXE = map str_bytes [''C:'', ''Windows'', ''System32'', ''RuntimeBroker.exe'']"

definition WIN_TOPMOST_INJECTED_PROCESS_EXE :: bytes where
  "WIN_TOPMOST_INJECTED_PROCESS_EXE = str_bytes ''RuntimeBroker_camellia_remote.exe''"

definition copy_runtime_broker :: "os \<Rightarrow> path \<Rightarrow> fs \<Rightarrow> unit io" where
  "copy_runtime_broker os dir fs =
     (let src = RUNTIME_BROKER_EXE; target_file = dir @ [WIN_TOPMOST_INJECTED_PROCESS_EXE]
      in case symlink_metadata os target_file fs of
           Inr (RegFile _) \<Rightarrow>
             (case (read_contents os src fs, read_contents os target_file fs) of
                (Inr src_file, Inr tgt_file) \<Rightarrow>
                  if src_file = tgt_file then (fs, Inr ()) else copy_file os src target_file fs
              | _ \<Rightarrow> copy_file os src target_file fs)
         | Inr _ \<Rightarrow> (fs, Inl TargetUnsafe)
         | Inl e \<Rightarrow> if e = NotFound then copy_file os src target_file fs else (fs, Inl e))"

fun finish_setup :: "platform \<Rightarrow> os \<Rightarrow> binary_reader \<Rightarrow> path \<Rightarrow> fs \<Rightarrow> unit io" where
  "finish_setup OnWindows os reader dir fs = (fst (copy_runtime_broker os dir fs), Inr ())"
| "finish_setup OnLinux os reader dir fs = configure_permission os reader dir fs"
| "finish_setup OnOther os reader dir fs = (fs, Inr ())"

definition check_executable :: "os \<Rightarrow> path \<Rightarrow> binary_reader \<Rightarrow> fs \<Rightarrow> path io" where
  "check_executable os dir reader fs =
     (let executable = join_path dir (br_exe reader)
      in case symlink_metadata os executable fs of
           Inl e \<Rightarrow> (fs, Inl e)
         | Inr (RegFile _) \<Rightarrow> (fs, Inr executable)
         | Inr _ \<Rightarrow> (fs, Inl ExecutableUnsafe))"

text \<open>\<open>dir\<close> is the directory given, or the one of the user's local data, which may be unknown.\<close>

definition portable_setup :: "platform \<Rightarrow> os \<Rightarrow> codec \<Rightarrow> nat \<Rightarrow> bytes \<Rightarrow> binary_reader \<Rightarrow> path option \<Rightarrow> bool \<Rightarrow> fs \<Rightarrow> path io" where
  "portable_setup platform os lib pid app_toml reader dir clear fs =
     (case parse_package_sha256 (APP_METADATA platform app_toml) of
        Inl e \<Rightarrow> (fs, Inl e)
      | Inr package_sha256 \<Rightarrow>
          case dir of
            None \<Rightarrow> (fs, Inl NotFound)
          | Some dir \<Rightarrow>
     bind_io (if clear then clear_directory os dir fs
              else case is_package_current os dir package_sha256 fs of
                     Inl e \<Rightarrow> (fs, Inl e)
                   | Inr current \<Rightarrow> if current then (fs, Inr ()) else clear_directory os dir fs) (\<lambda>_ fs.
     bind_io (create_dir_all os dir fs) (\<lambda>_ fs.
     bind_io (write_files os lib pid dir (br_files reader) fs) (\<lambda>_ fs.
     bind_io (write_meta os dir package_sha256 fs) (\<lambda>_ fs.
     bind_io (finish_setup platform os reader dir fs) (\<lambda>_ fs.
       check_executable os dir reader fs))))))"

section \<open>Lemmas\<close>

lemma ensure_directory_below:
  assumes "working prefix P T ns fs fs1" "honest os" "P @ ns @ [n] \<noteq> T"
    "ensure_directory os (create_dir os) u (prefix @ ns @ [n]) fs1 = (fs2, r)"
  shows "working prefix P T ns fs fs2 \<and> fs2 T = fs1 T \<and> (r = Inr () \<longrightarrow> working prefix P T (ns @ [n]) fs fs2)"
proof -
  note meta = working_lstat [OF assms(1,2), of n]
  show ?thesis
  proof (cases "symlink_metadata os (prefix @ ns @ [n]) fs1")
    case (Inl e)
    show ?thesis
    proof (cases "e = NotFound")
      case True
      then obtain "create_node os SysMkdir Dir (prefix @ ns @ [n]) fs1 = (fs2, r)"
        using assms(4) Inl by (simp add: ensure_directory_def create_dir_def)
      from working_create_node [OF assms(1) this] working_free [OF assms(1), of n] working_update [OF assms(1)] assms(1,3)
      show ?thesis by (auto intro!: working_down)
    next
      case False
      with assms Inl show ?thesis by (auto simp: ensure_directory_def)
    qed
  next
    case (Inr x)
    with assms meta(1) [of x] show ?thesis by (auto simp: ensure_directory_def intro: working_down split: if_splits)
  qed
qed

lemma ensure_components_below:
  "working prefix P T ns fs fs1 \<Longrightarrow> honest os \<Longrightarrow> length P + length ns + length ms < length T
    \<Longrightarrow> ensure_components os (prefix @ ns) (map Normal ms) fs1 = (fs2, r)
    \<Longrightarrow> keeps P T fs fs2 \<and> fs2 T = fs1 T \<and> (r = Inr () \<longrightarrow> working prefix P T (ns @ ms) fs fs2)"
proof (induction ms arbitrary: ns fs1)
  case Nil
  then show ?case by (auto simp: working_def)
next
  case (Cons m ms)
  obtain fs3 r3 where d: "ensure_directory os (create_dir os) DirectoryUnsafe (prefix @ ns @ [m]) fs1 = (fs3, r3)"
    by (meson surj_pair)
  have "P @ ns @ [m] \<noteq> T" using Cons.prems(3) by auto
  note w = ensure_directory_below [OF Cons.prems(1,2) this d]
  show ?case
  proof (cases r3)
    case (Inl e)
    with w d Cons.prems(4) show ?thesis by (auto simp: working_def)
  next
    case (Inr u)
    with w have "working prefix P T (ns @ [m]) fs fs3" by simp
    from Cons.IH [OF this Cons.prems(2)] Cons.prems(3,4) d Inr w show ?thesis by simp
  qed
qed

lemma temporary_name_longer: "length (temporary_name pid n a) > length n"
  by (simp add: temporary_name_def str_bytes_def)

lemma open_temporary_spec:
  "working prefix P T ns fs fs1 \<Longrightarrow> open_temporary os pid (prefix @ ns) n as fs1 = (fs2, r) \<Longrightarrow>
     working prefix P T ns fs fs2 \<and> fs2 (P @ ns @ [n]) = fs1 (P @ ns @ [n])
     \<and> (\<forall>tmp. r = Inr tmp \<longrightarrow> (\<exists>m. m \<noteq> n \<and> tmp = prefix @ ns @ [m] \<and> may_change P T fs (P @ ns @ [m])))"
proof (induction as)
  case Nil
  then show ?case by auto
next
  case (Cons a as)
  let ?m = "temporary_name pid n a"
  have m: "?m \<noteq> n" using temporary_name_longer [of n pid a] by auto
  obtain fs3 r3 where c: "create_node os SysCreate (RegFile []) (prefix @ ns @ [?m]) fs1 = (fs3, r3)" by (meson surj_pair)
  from working_create_node [OF Cons.prems(1) c] show ?case
  proof
    assume "\<exists>e. r3 = Inl e \<and> fs3 = fs1"
    then obtain e where e: "r3 = Inl e" "fs3 = fs1" by blast
    show ?thesis
    proof (cases "e = AlreadyExists")
      case True
      with Cons.prems(2) c e have "open_temporary os pid (prefix @ ns) n as fs1 = (fs2, r)" by (simp add: create_new_def Let_def)
      from Cons.IH [OF Cons.prems(1) this] show ?thesis .
    next
      case False
      with Cons.prems c e show ?thesis by (simp add: create_new_def Let_def) blast
    qed
  next
    assume new: "r3 = Inr () \<and> fs1 (P @ ns @ [?m]) = None \<and> fs3 = fs1(P @ ns @ [?m] \<mapsto> RegFile [])"
    then have may: "may_change P T fs (P @ ns @ [?m])" using working_free [OF Cons.prems(1)] by blast
    have "create_new os (prefix @ ns @ [?m]) fs1 = (fs3, Inr ())" using new c unfolding create_new_def by blast
    with Cons.prems(2) have "fs2 = fs3" "r = Inr (prefix @ ns @ [?m])" by (simp_all add: Let_def)
    moreover have "working prefix P T ns fs fs3" using new working_update [OF Cons.prems(1) may] by simp
    moreover have "fs3 (P @ ns @ [n]) = fs1 (P @ ns @ [n])" using new m by simp
    ultimately show ?thesis using m may by blast
  qed
qed

text \<open>Where the target may end up: unchanged, missing, or with the content given.\<close>

definition target_state :: "path \<Rightarrow> bytes \<Rightarrow> fs \<Rightarrow> fs \<Rightarrow> (io_error, unit) result \<Rightarrow> bool" where
  "target_state T c fs fs' r \<longleftrightarrow>
     (fs' T = fs T \<or> fs' T = None \<or> fs' T = Some (RegFile c)) \<and> (r = Inr () \<longrightarrow> fs' T = Some (RegFile c))"

lemma place_temporary_spec:
  assumes w: "working prefix P T ns fs fs1" and T: "T = P @ ns @ [n]" and may: "may_change P T fs T" "may_change P T fs (P @ ns @ [m])"
    and m: "m \<noteq> n" and c: "fs1 (P @ ns @ [m]) = Some (RegFile c)"
    and run: "place_temporary os (prefix @ ns @ [m]) (prefix @ ns @ [n]) fs1 = (fs2, r)"
  shows "working prefix P T ns fs fs2 \<and> target_state T c fs1 fs2 r"
proof -
  have step: "working prefix P T ns fs fs4 \<and> target_state T c fs3 fs4 r4"
    if "working prefix P T ns fs fs3" "fs3 (P @ ns @ [m]) = Some (RegFile c)"
      "rename os (prefix @ ns @ [m]) (prefix @ ns @ [n]) fs3 = (fs4, r4)" for fs3 fs4 r4
    using working_rename [OF that(1,3)]
  proof
    assume "\<exists>e. r4 = Inl e \<and> fs4 = fs3"
    with that(1) show ?thesis by (auto simp: target_state_def)
  next
    assume "\<exists>d. r4 = Inr () \<and> fs3 (P @ ns @ [m]) = Some (RegFile d)
        \<and> fs4 = fs3(P @ ns @ [m] := None, P @ ns @ [n] := Some (RegFile d))"
    with that(2) have "r4 = Inr ()" "fs4 = fs3(P @ ns @ [m] := None, P @ ns @ [n] := Some (RegFile c))" by auto
    moreover have "working prefix P T ns fs (fs3(P @ ns @ [m] := None, P @ ns @ [n] := Some (RegFile c)))"
      using may T by (intro working_update that(1)) auto
    ultimately show ?thesis by (simp add: target_state_def T)
  qed
  obtain fs3 r3 where first: "rename os (prefix @ ns @ [m]) (prefix @ ns @ [n]) fs1 = (fs3, r3)" by (meson surj_pair)
  show ?thesis
  proof (cases "r3 = Inl AlreadyExists \<or> r3 = Inl PermissionDenied")
    case False
    then have "place_temporary os (prefix @ ns @ [m]) (prefix @ ns @ [n]) fs1 = (fs3, r3)"
      unfolding place_temporary_def first by (cases r3) simp_all
    then have "fs2 = fs3" "r = r3" using run by simp_all
    with step [OF w c first] show ?thesis by simp
  next
    case True
    then have same: "fs3 = fs1" using working_rename [OF w first] by auto
    obtain fs4 r4 where rm: "remove_file os (prefix @ ns @ [n]) fs1 = (fs4, r4)" by (meson surj_pair)
    from working_remove_file [OF w rm] have w4: "working prefix P T ns fs fs4" "fs4 (P @ ns @ [m]) = Some (RegFile c)"
      "fs4 T = fs1 T \<or> fs4 T = None"
      using w working_update [OF w, of n None] may(1) c m T by auto
    have "(fs2 = fs1 \<and> (\<exists>e. r = Inl e)) \<or> (fs2 = fs4 \<and> (\<exists>e. r = Inl e)) \<or> rename os (prefix @ ns @ [m]) (prefix @ ns @ [n]) fs4 = (fs2, r)"
      using run True first same rm
      by (cases r4) (auto simp: place_temporary_def split: sum.splits node.splits)
    with w w4 step [OF w4(1,2)] show ?thesis by (auto simp: target_state_def)
  qed
qed

lemma write_temporary_spec:
  assumes w: "working prefix P T ns fs fs1" and T: "T = P @ ns @ [n]" and may: "may_change P T fs T" "may_change P T fs (P @ ns @ [m])"
    and m: "m \<noteq> n"
    and run: "write_temporary os c (prefix @ ns @ [m]) (prefix @ ns @ [n]) fs1 = (fs2, r)"
  shows "working prefix P T ns fs fs2 \<and> target_state T c fs1 fs2 r"
proof -
  obtain fs3 r3 where wr: "write_all os (prefix @ ns @ [m]) c fs1 = (fs3, r3)" by (meson surj_pair)
  from working_write_all [OF w wr] obtain d where d: "fs3 = fs1(P @ ns @ [m] \<mapsto> RegFile d)" "r3 = Inr () \<longrightarrow> d = c" by blast
  have w3: "working prefix P T ns fs fs3" "fs3 T = fs1 T" using working_update [OF w may(2)] d(1) m T by auto
  have "(\<exists>e. fs2 = fs3 \<and> r = Inl e) \<or> (r3 = Inr () \<and> place_temporary os (prefix @ ns @ [m]) (prefix @ ns @ [n]) fs3 = (fs2, r))"
    using run wr by (cases r3) (auto simp: write_temporary_def sync_all_def guarded_def split: option.splits)
  then show ?thesis
  proof
    assume "\<exists>e. fs2 = fs3 \<and> r = Inl e"
    with w3 show ?thesis by (auto simp: target_state_def)
  next
    assume p: "r3 = Inr () \<and> place_temporary os (prefix @ ns @ [m]) (prefix @ ns @ [n]) fs3 = (fs2, r)"
    then have "fs3 (P @ ns @ [m]) = Some (RegFile c)" using d by simp
    from place_temporary_spec [OF w3(1) T may m this conjunct2 [OF p]] w3(2) show ?thesis by (simp add: target_state_def)
  qed
qed

definition verified :: "codec \<Rightarrow> binary_data \<Rightarrow> node option \<Rightarrow> bool" where
  "verified lib f x \<longleftrightarrow> (\<exists>c. x = Some (RegFile c) \<and> sha256 lib c = sha256_digest f)"

lemma replace_target_spec:
  assumes w: "working prefix P T ns fs fs1" and T: "T = P @ ns @ [n]" and may: "may_change P T fs T"
    and run: "replace_target os lib pid f (prefix @ ns @ [n]) fs1 = (fs2, r)"
  shows "keeps P T fs fs2 \<and> (fs2 T = fs1 T \<or> fs2 T = None \<or> verified lib f (fs2 T)) \<and> (r = Inr () \<longrightarrow> verified lib f (fs2 T))"
proof (cases "decompress lib f")
  case (Inl e)
  with run w show ?thesis by (auto simp: replace_target_def working_def)
next
  case (Inr c)
  then have sha: "sha256 lib c = sha256_digest f" by (auto simp: decompress_def bind_result_Inr_iff split: if_splits)
  obtain fs3 r3 where o: "open_temporary os pid (prefix @ ns) n [0..<100] fs1 = (fs3, r3)" by (meson surj_pair)
  note o3 = open_temporary_spec [OF w o]
  show ?thesis
  proof (cases r3)
    case (Inl e)
    with run o Inr o3 T show ?thesis by (auto simp: replace_target_def butlast_append working_def)
  next
    case tmp: (Inr tmp)
    with o3 obtain m where m: "m \<noteq> n" "tmp = prefix @ ns @ [m]" "may_change P T fs (P @ ns @ [m])" by blast
    obtain fs4 r4 where wt: "write_temporary os c tmp (prefix @ ns @ [n]) fs3 = (fs4, r4)" by (meson surj_pair)
    from write_temporary_spec [OF conjunct1 [OF o3] T may m(3,1)] wt m(2)
    have w4: "working prefix P T ns fs fs4" "target_state T c fs3 fs4 r4" by auto
    obtain fs5 r5 where rm: "remove_file os tmp fs4 = (fs5, r5)" by (meson surj_pair)
    from working_remove_file [OF w4(1) rm [unfolded m(2)]] have w5: "working prefix P T ns fs fs5" "fs5 T = fs4 T"
      using w4(1) working_update [OF w4(1) m(3), of None] T m(1) by auto
    have eq: "replace_target os lib pid f (prefix @ ns @ [n]) fs1 = (case r4 of Inr u \<Rightarrow> (fs4, Inr ()) | Inl e \<Rightarrow> (fs5, Inl e))"
      unfolding replace_target_def using o Inr tmp wt rm by (cases r4) (simp_all add: butlast_append)
    have t3: "fs3 T = fs1 T" using o3 T by simp
    show ?thesis
    proof (cases r4)
      case (Inl e)
      then have "fs2 = fs5" "r = Inl e" using eq run by simp_all
      with w4(2) w5 t3 sha show ?thesis by (auto simp: working_def target_state_def verified_def)
    next
      case (Inr u)
      then have "fs2 = fs4" using eq run by simp
      with Inr w4 t3 sha show ?thesis by (auto simp: working_def target_state_def verified_def)
    qed
  qed
qed

lemma join_path_normal: "join_path p (map Normal ns) = p @ ns"
  unfolding join_path_def by (induction ns arbitrary: p) auto

text \<open>The whole operation, started with the extraction directory in place.\<close>

lemma write_to_file_spec:
  assumes p: "place fs prefix = Inr P" "fs P = Some Dir" and h: "honest os"
    and path: "bd_path f = map Normal (ns @ [n])" and T: "T = P @ ns @ [n]"
    and run: "write_to_file os lib pid prefix f fs = (fs', r)"
  shows "keeps P T fs fs' \<and> (fs' T = fs T \<or> fs' T = None \<or> verified lib f (fs' T)) \<and> (r = Inr () \<longrightarrow> verified lib f (fs' T))"
proof -
  have w: "working prefix P T [] fs fs" using p by (simp add: working_def)
  have root: "ensure_directory os (create_dir_all os) RootUnsafe prefix fs = (fs, Inr ()) \<or>
      (\<exists>e. ensure_directory os (create_dir_all os) RootUnsafe prefix fs = (fs, Inl e))"
    using p h by (auto simp: ensure_directory_def symlink_metadata_def honest_def split: option.splits)
  obtain fs1 r1 where e: "ensure_components os prefix (map Normal ns) fs = (fs1, r1)" by (meson surj_pair)
  from ensure_components_below [OF w h, of ns fs1 r1] e T
  have w1: "keeps P T fs fs1" "fs1 T = fs T" "r1 = Inr () \<longrightarrow> working prefix P T ns fs fs1" by auto
  have join: "join_path prefix (bd_path f) = prefix @ ns @ [n]" unfolding path by (simp only: join_path_normal)
  let ?target = "prefix @ ns @ [n]"
  have parent: "(\<exists>e. ensure_safe_parent os prefix (bd_path f) fs = (fs, Inl e)) \<or>
      (\<exists>e. ensure_safe_parent os prefix (bd_path f) fs = (fs1, Inl e)) \<or>
      (r1 = Inr () \<and> ensure_safe_parent os prefix (bd_path f) fs = (fs1, Inr ?target))"
    using root e unfolding ensure_safe_parent_def join by (cases r1) (auto simp: path butlast_append)
  show ?thesis
  proof (cases "ensure_safe_parent os prefix (bd_path f) fs = (fs1, Inr ?target) \<and> r1 = Inr ()")
    case False
    with parent run w1 show ?thesis by (auto simp: write_to_file_def)
  next
    case True
    then have w2: "working prefix P T ns fs fs1" using w1(3) by blast
    have run2: "write_to_file os lib pid prefix f fs = (case symlink_metadata os ?target fs1 of
        Inr (RegFile _) \<Rightarrow> (case sha256_file os lib ?target fs1 of Inl e \<Rightarrow> (fs1, Inl e)
          | Inr d \<Rightarrow> if d = sha256_digest f then (fs1, Inr ()) else replace_target os lib pid f ?target fs1)
      | Inr _ \<Rightarrow> (fs1, Inl TargetUnsafe)
      | Inl e \<Rightarrow> if e = NotFound then replace_target os lib pid f ?target fs1 else (fs1, Inl e))"
      using True by (simp add: write_to_file_def)
    have stay: ?thesis if "fs' = fs1" "r = Inr () \<longrightarrow> verified lib f (fs1 T)" using that w1 by simp
    have replace: ?thesis if "replace_target os lib pid f ?target fs1 = (fs', r)" "may_change P T fs T"
      using replace_target_spec [OF w2 T that(2,1)] w1(2) by simp
    show ?thesis
    proof (cases "symlink_metadata os ?target fs1")
      case (Inl x)
      with run run2 stay replace working_lstat(2) [OF w2 h, of n] working_free [OF w2, of n] T show ?thesis
        by (auto split: if_splits)
    next
      case (Inr x)
      show ?thesis
      proof (cases x)
        case (RegFile c)
        with Inr working_lstat(1) [OF w2 h] T have t: "fs1 T = Some (RegFile c)" by simp
        then have may: "may_change P T fs T" using w1(2) T by (auto simp: may_change_def)
        have "verified lib f (fs1 T)" if "sha256_file os lib ?target fs1 = Inr (sha256_digest f)"
          using that t working_read_contents [OF w2, of n c os] T
          by (auto simp: sha256_file_def bind_result_Inr_iff verified_def)
        with run run2 Inr RegFile stay replace may show ?thesis by (auto split: sum.splits if_splits)
      qed (use run run2 Inr stay in auto)
    qed
  qed
qed

text \<open>The files of an archive, one after the other.\<close>

definition target_of :: "path \<Rightarrow> binary_data \<Rightarrow> path" where
  "target_of P f = P @ map component_name (bd_path f)"

definition plain_path :: "binary_data \<Rightarrow> bool" where
  "plain_path f \<longleftrightarrow> bd_path f \<noteq> [] \<and> list_all plain_name (bd_path f)"

lemma plain_path_names:
  assumes "plain_path f"
  obtains ns n where "bd_path f = map Normal (ns @ [n])" "map component_name (bd_path f) = ns @ [n]"
proof -
  let ?names = "map component_name (bd_path f)"
  have "map Normal ?names = bd_path f"
    using assms by (auto simp: plain_path_def list_all_iff plain_name_def intro!: map_idI)
  moreover have "?names = butlast ?names @ [last ?names]" using assms by (simp add: plain_path_def)
  ultimately show thesis using that by metis
qed

lemma write_one:
  assumes "place fs prefix = Inr P" "fs P = Some Dir" "honest os" "plain_path f" "write_to_file os lib pid prefix f fs = (fs', r)"
  shows "keeps P (target_of P f) fs fs'" "r = Inr () \<Longrightarrow> verified lib f (fs' (target_of P f))"
    "place fs' prefix = Inr P" "fs' P = Some Dir"
proof -
  from plain_path_names [OF assms(4)] obtain ns n where
    n: "bd_path f = map Normal (ns @ [n])" "map component_name (bd_path f) = ns @ [n]" by blast
  then have "target_of P f = P @ ns @ [n]" by (simp add: target_of_def)
  from write_to_file_spec [OF assms(1-3) n(1) this assms(5)]
  show k: "keeps P (target_of P f) fs fs'" and "r = Inr () \<Longrightarrow> verified lib f (fs' (target_of P f))" by auto
  show "fs' P = Some Dir" using keeps_solid(1) [OF k assms(2)] .
  show "place fs' prefix = Inr P" using canon_keep [of fs fs'] keeps_solid [OF k] assms(1,2) by blast
qed

lemma keeps_verified: "keeps P T fs fs' \<Longrightarrow> q \<noteq> T \<Longrightarrow> verified lib f (fs q) \<Longrightarrow> verified lib f (fs' q)"
  unfolding keeps_def may_change_def verified_def by (metis option.distinct(1))

lemma target_of_eq:
  assumes "plain_path f" "plain_path g"
  shows "target_of P f = target_of P g \<longleftrightarrow> bd_path f = bd_path g"
  using plain_path_names [OF assms(1)] plain_path_names [OF assms(2)] by (metis target_of_def same_append_eq)

lemma write_files_spec:
  assumes "honest os"
  shows "place fs dir = Inr P \<Longrightarrow> fs P = Some Dir \<Longrightarrow> list_all plain_path files \<Longrightarrow> distinct (map bd_path files)
    \<Longrightarrow> write_files os lib pid dir files fs = (fs', r)
    \<Longrightarrow> (\<forall>q. fs' q \<noteq> fs q \<longrightarrow> below P q \<and> q \<noteq> P \<and> (\<forall>t. fs q \<notin> {Some Dir, Some (Symlink t)}))
      \<and> (\<forall>g. plain_path g \<longrightarrow> bd_path g \<notin> set (map bd_path files) \<longrightarrow> verified lib g (fs (target_of P g)) \<longrightarrow> verified lib g (fs' (target_of P g)))
      \<and> (r = Inr () \<longrightarrow> list_all (\<lambda>f. verified lib f (fs' (target_of P f))) files)"
proof (induction files arbitrary: fs)
  case Nil
  then show ?case by auto
next
  case (Cons f files)
  obtain fs1 r1 where w: "write_to_file os lib pid dir f fs = (fs1, r1)" by (meson surj_pair)
  have plain: "plain_path f" using Cons.prems(3) by simp
  note one = write_one [OF Cons.prems(1,2) assms plain w]
  have changes: "below P q \<and> q \<noteq> P \<and> (\<forall>t. fs q \<notin> {Some Dir, Some (Symlink t)})" if "fs1 q \<noteq> fs q" for q
    using that one(1) keeps_solid [OF one(1), of q] unfolding keeps_def may_change_def by auto
  have keep: "verified lib g (fs1 (target_of P g))"
    if "plain_path g" "bd_path g \<noteq> bd_path f" "verified lib g (fs (target_of P g))" for g
    using that keeps_verified [OF one(1)] target_of_eq [OF that(1) plain] by blast
  show ?case
  proof (cases r1)
    case (Inl e)
    with w Cons.prems(5) have "fs' = fs1" "r = Inl e" by simp_all
    with changes keep show ?thesis by auto
  next
    case (Inr u)
    with w Cons.prems(5) have rest: "write_files os lib pid dir files fs1 = (fs', r)" by simp
    have "list_all plain_path files" "distinct (map bd_path files)" "bd_path f \<notin> set (map bd_path files)"
      using Cons.prems(3,4) by auto
    note IH = Cons.IH [OF one(3,4) this(1,2) rest]
    have "verified lib f (fs' (target_of P f))" if "r = Inr ()"
      using IH one(2) Inr plain \<open>bd_path f \<notin> set (map bd_path files)\<close> by simp
    moreover have "below P q \<and> q \<noteq> P \<and> (\<forall>t. fs q \<notin> {Some Dir, Some (Symlink t)})" if "fs' q \<noteq> fs q" for q
      using that changes [of q] conjunct1 [OF IH] by (metis (no_types))
    ultimately show ?thesis using IH keep by auto
  qed
qed

lemma read_files_plain:
  assumes "length data < 18446744073709551616" "read data = Inr reader"
  shows "list_all plain_path (br_files reader)" "distinct (map bd_path (br_files reader))"
  using read_safe [OF assms] by (auto simp: list_all_iff plain_path_def)

subsection \<open>The whole set-up\<close>

text \<open>Only the Windows build carries metadata: elsewhere the launcher stops before it touches a file.\<close>

lemma setup_needs_metadata:
  "platform \<noteq> OnWindows \<Longrightarrow> portable_setup platform os lib pid app_toml reader dir clear fs = (fs, Inl BadMetadata)"
proof -
  have "parse_package_sha256 [] = Inl BadMetadata" by code_simp
  then show "platform \<noteq> OnWindows \<Longrightarrow> ?thesis" by (cases platform) (simp_all add: portable_setup_def)
qed

lemma bind_io_eq_Inr: "bind_io m f = (fs', Inr b) \<longleftrightarrow> (\<exists>fs1 a. m = (fs1, Inr a) \<and> f a fs1 = (fs', Inr b))"
  by (cases m; cases "snd m") auto

lemma create_dir_all_existing:
  assumes "place fs dir = Inr P" "fs P = Some Dir" "honest os" "create_dir_all os dir fs = (fs', r)"
  shows "fs' = fs"
  using assms(4)
  by (subst (asm) create_dir_all.simps)
    (use assms(1-3) in \<open>auto simp: create_dir_def create_node_def guarded_def honest_def split: if_splits option.splits\<close>)

lemma write_contents_result:
  assumes "write_contents os p c fs = (fs', r)" "fs' x \<noteq> fs x"
  shows "canon fs True MAX_LINKS [] p = Inr x"
  using assms by (auto simp: write_contents_def guarded_def split: option.splits sum.splits if_splits)

text \<open>The broker is written only where no link stands, so inside the extraction directory.\<close>

lemma broker_confined:
  assumes "place fs dir = Inr P" "fs P = Some Dir" "honest os" "fst (copy_runtime_broker os dir fs) x \<noteq> fs x"
  shows "x = P @ [WIN_TOPMOST_INJECTED_PROCESS_EXE]"
proof -
  let ?n = WIN_TOPMOST_INJECTED_PROCESS_EXE
  have w: "working dir P (P @ [?n]) [] fs fs" using assms(1,2) by (simp add: working_def)
  note at = working_place [OF w, of ?n, simplified] and lstat = working_lstat [OF w assms(3), of ?n, simplified]
  obtain fs' r where copy: "copy_file os RUNTIME_BROKER_EXE (dir @ [?n]) fs = (fs', r)" by (meson surj_pair)
  have nolink: "\<exists>s. symlink_metadata os (dir @ [?n]) fs = s \<and> (\<forall>t. s \<noteq> Inr (Symlink t)) \<and> fs' x \<noteq> fs x"
    and plain: "fs (P @ [?n]) = None \<or> (\<exists>c. fs (P @ [?n]) = Some (RegFile c))"
    using assms(4) copy lstat
    by (auto simp: copy_runtime_broker_def Let_def split: sum.splits node.splits if_splits)
  then have "canon fs True MAX_LINKS [] (dir @ [?n]) = Inr (P @ [?n])"
    using canon_follow [OF at] by (metis node.distinct(5) option.distinct(1) option.inject)
  moreover have "canon fs True MAX_LINKS [] (dir @ [?n]) = Inr x"
    using nolink copy by (auto simp: copy_file_def split: sum.splits intro: write_contents_result)
  ultimately show ?thesis by simp
qed

section \<open>Properties\<close>

text \<open>
  C5. Extracting an accepted archive changes nothing outside the extraction directory, and inside it
  neither a directory nor a symbolic link: whatever links were planted there, none is followed or
  replaced. It holds whether extraction succeeds or fails, and for every failure of a system call.
\<close>

theorem extraction_confined:
  assumes "length data < 18446744073709551616" "read data = Inr reader"
    and "place fs dir = Inr P" "fs P = Some Dir" "honest os"
    and "write_files os lib pid dir (br_files reader) fs = (fs', r)" "fs' q \<noteq> fs q"
  shows "below P q \<and> q \<noteq> P \<and> fs q \<noteq> Some Dir \<and> (\<forall>t. fs q \<noteq> Some (Symlink t))"
proof -
  have "list_all plain_path (br_files reader)" "distinct (map bd_path (br_files reader))"
    using read_files_plain [OF assms(1,2)] by auto
  from write_files_spec [OF assms(5,3,4) this assms(6)] assms(7) show ?thesis by auto
qed

text \<open>
  C18. When extraction of an accepted archive succeeds, every file of the archive stands in the
  extraction directory as a regular file whose content has the digest recorded in the archive.
\<close>

theorem extraction_verified:
  assumes "length data < 18446744073709551616" "read data = Inr reader"
    and "place fs dir = Inr P" "fs P = Some Dir" "honest os"
    and "write_files os lib pid dir (br_files reader) fs = (fs', Inr ())" "f \<in> set (br_files reader)"
  shows "\<exists>c. fs' (P @ map component_name (bd_path f)) = Some (RegFile c) \<and> sha256 lib c = sha256_digest f"
proof -
  have "list_all plain_path (br_files reader)" "distinct (map bd_path (br_files reader))"
    using read_files_plain [OF assms(1,2)] by auto
  from write_files_spec [OF assms(5,3,4) this assms(6)] assms(7) show ?thesis
    by (auto simp: list_all_iff verified_def target_of_def)
qed

text \<open>An example: a link planted in the extraction directory, and a file to be written beside it.\<close>

definition quiet_os :: os where
  "quiet_os = \<lparr>fault = (\<lambda>c p fs. None), written = (\<lambda>p fs. 0), removed = (\<lambda>p fs q. False)\<rparr>"

definition sample_codec :: codec where
  "sample_codec = \<lparr>sha256 = (\<lambda>c. replicate 32 (of_nat (length c) - 2)), brotli = (\<lambda>c n. Inr [1, 2, 3, 4, 5, 6, 7])\<rparr>"

definition sample_fs :: fs where
  "sample_fs = [[] \<mapsto> Dir, [[100]] \<mapsto> Dir, [[100], [108]] \<mapsto> Symlink [[101]]]"

lemma honest_quiet: "honest quiet_os"
  by (simp add: honest_def quiet_os_def)

lemma sample_place: "place sample_fs [[100]] = Inr [[100]]" "sample_fs [[100]] = Some Dir"
  by (simp_all add: sample_fs_def MAX_LINKS_def)

lemma sample_read: "read (archive_bytes [sample_entry] [98, 47, 97]) = Inr (reader_of [sample_entry] [98, 47, 97])"
  using sample_archive read_iff by blast

lemma sample_write:
  "snd (write_files quiet_os sample_codec 1 [[100]] (br_files (reader_of [sample_entry] [98, 47, 97])) sample_fs) = Inr ()"
proof -
  have path: "components [98, 47, 97] = [Normal [98], Normal [97]]" by code_simp
  have d: "decompress sample_codec (file_of sample_entry) = Inr [1, 2, 3, 4, 5, 6, 7]"
    by (simp add: decompress_def sample_codec_def file_of_def sample_entry_def)
  have u: "[0..<100] = (0::nat) # [1..<100]" by (simp add: upt_rec)
  have p: "components (pe_path sample_entry) = [Normal [98], Normal [97]]" by (simp add: sample_entry_def path)
  have t: "temporary_name (Suc 0) [97] 0 \<noteq> [97]" using temporary_name_longer [of "[97]" "Suc 0" 0] by auto
  show ?thesis
    by (simp add: reader_of_def write_to_file_def ensure_safe_parent_def p ensure_directory_def symlink_metadata_def
        sample_fs_def quiet_os_def MAX_LINKS_def create_dir_def create_node_def guarded_def join_path_def
        replace_target_def d u create_new_def write_temporary_def write_all_def sync_all_def place_temporary_def rename_def
        t t [symmetric] Let_def)
qed

text \<open>Metadata with a digest, reached through a link in place of \<open>meta.toml\<close>, and an extra line after it.\<close>

definition sample_metadata :: bytes where
  "sample_metadata = PACKAGE_SHA256_PREFIX @ replicate 64 97 @ [34, 10]"

definition linked_fs :: fs where
  "linked_fs = [[] \<mapsto> Dir, [[100]] \<mapsto> Dir, [[100], APP_METADATA_CONFIG] \<mapsto> Symlink [[101]],
     [[101]] \<mapsto> RegFile (sample_metadata @ [120, 10]), [[100], [98]] \<mapsto> Dir, [[100], [98], [97]] \<mapsto> RegFile [1, 2, 3, 4, 5, 6, 7]]"

lemma sample_metadata_parse:
  "parse_package_sha256 sample_metadata = Inr (replicate 64 97)"
  "parse_package_sha256 (sample_metadata @ [120, 10]) = Inr (replicate 64 97)"
  by code_simp+

lemma sample_names:
  "APP_METADATA_CONFIG \<noteq> [98]" "WIN_TOPMOST_INJECTED_PROCESS_EXE \<noteq> [98]"
  "WIN_TOPMOST_INJECTED_PROCESS_EXE \<noteq> APP_METADATA_CONFIG"
  by (simp_all add: APP_METADATA_CONFIG_def WIN_TOPMOST_INJECTED_PROCESS_EXE_def str_bytes_def)

lemma linked_launch:
  "snd (portable_setup OnWindows quiet_os sample_codec 1 sample_metadata (reader_of [sample_entry] [98, 47, 97]) (Some [[100]]) False
      linked_fs) = Inr [[100], [98], [97]]"
proof -
  have path: "components [98, 47, 97] = [Normal [98], Normal [97]]" by code_simp
  have p: "components (pe_path sample_entry) = [Normal [98], Normal [97]]" by (simp add: sample_entry_def path)
  have digest: "sha256_digest (file_of sample_entry) = replicate 32 5" by (simp add: file_of_def sample_entry_def)
  obtain b bs where broker: "RUNTIME_BROKER_EXE = b # bs" "bs \<noteq> []" "b \<noteq> [100]" "b \<noteq> [101]"
    by (simp add: RUNTIME_BROKER_EXE_def str_bytes_def)
  show ?thesis
    by (simp add: portable_setup_def sample_metadata_parse linked_fs_def is_package_current_def read_contents_def MAX_LINKS_def
        create_dir_all.simps create_dir_def create_node_def guarded_def is_dir_def metadata_def quiet_os_def reader_of_def
        write_to_file_def ensure_safe_parent_def ensure_directory_def symlink_metadata_def join_path_def sha256_file_def sample_codec_def
        write_meta_def write_contents_def copy_runtime_broker_def copy_file_def Let_def sample_names sample_names [symmetric] check_executable_def p path digest broker)
qed

text \<open>
  C39. The metadata file is the one file that is not written safely. Suppose the package is accepted,
  the extraction directory exists, \<open>meta.toml\<close> in it leads, through a link, to a regular file outside
  the directory, and that file already names the package being started. Then every launch that
  succeeds without being told to clear the directory overwrites that outside file with the metadata,
  whatever else it held.
\<close>

theorem metadata_written_through_link:
  assumes "length data < 18446744073709551616" "read data = Inr reader"
    and "place fs dir = Inr P" "fs P = Some Dir" "honest os"
    and "parse_package_sha256 app_toml = Inr h"
    and "canon fs True MAX_LINKS [] (dir @ [APP_METADATA_CONFIG]) = Inr q" "\<not> below P q"
    and "fs q = Some (RegFile c)" "parse_package_sha256 c = Inr h"
    and "portable_setup OnWindows os lib pid app_toml reader (Some dir) False fs = (fs', Inr exe)"
  shows "fs' q = Some (RegFile (PACKAGE_SHA256_PREFIX @ h @ [34, 10]))"
proof -
  have current: "is_package_current os dir h fs = Inr True \<or> (\<exists>e. is_package_current os dir h fs = Inl e)"
    using assms(5,7,9,10) by (auto simp: is_package_current_def read_contents_def honest_def split: option.splits)
  obtain fs1 fs2 fs3 where steps: "create_dir_all os dir fs = (fs1, Inr ())"
    "write_files os lib pid dir (br_files reader) fs1 = (fs2, Inr ())" "write_meta os dir h fs2 = (fs3, Inr ())"
    and check: "check_executable os dir reader (fst (copy_runtime_broker os dir fs3)) = (fs', Inr exe)"
    using assms(11) current by (auto simp: portable_setup_def assms(6) bind_io_eq_Inr)
  have last: "fs' = fst (copy_runtime_broker os dir fs3)"
    using check by (auto simp: check_executable_def Let_def split: sum.splits node.splits)
  have same: "fs1 = fs" using create_dir_all_existing [OF assms(3-5) steps(1)] .
  note changes = conjunct1 [OF write_files_spec [OF assms(5,3,4) read_files_plain [OF assms(1,2)] steps(2) [unfolded same]]]
  have solid: "fs2 p = Some Dir" if "fs p = Some Dir" for p
    using spec [OF changes, of p] that by (cases "fs2 p = fs p") auto
  have link: "fs2 p = Some (Symlink t)" if "fs p = Some (Symlink t)" for p t
    using spec [OF changes, of p] that by (cases "fs2 p = fs p") auto
  have q2: "fs2 q = Some (RegFile c)"
    using spec [OF changes, of q] assms(8,9) by (cases "fs2 q = fs q") auto
  have canon2: "canon fs2 True MAX_LINKS [] (dir @ [APP_METADATA_CONFIG]) = Inr q"
    by (rule canon_keep_node [where fs = fs and x = "RegFile c"]) (use solid link q2 assms(7,9) in auto)
  have meta: "fs3 = fs2(q \<mapsto> RegFile (PACKAGE_SHA256_PREFIX @ h @ [34, 10]))"
    using steps(3) by (auto simp: write_meta_def write_contents_def guarded_def canon2 q2 split: option.splits)
  have "P \<noteq> q" using assms(8) by (auto simp: below_def)
  then have dir3: "fs3 P = Some Dir" using solid assms(4) by (simp add: meta)
  have "place fs3 dir = Inr P"
    by (rule canon_keep [where fs = fs]) (use solid link assms(3,4,9) in \<open>auto simp: meta\<close>)
  from broker_confined [OF this dir3 assms(5), of q] assms(8) have "fs' q = fs3 q" by (metis below_append last)
  then show ?thesis by (simp add: meta)
qed

theorem metadata_written_through_link_witness:
  "linked_fs [[101]] = Some (RegFile (sample_metadata @ [120, 10]))
   \<and> fst (portable_setup OnWindows quiet_os sample_codec 1 sample_metadata (reader_of [sample_entry] [98, 47, 97]) (Some [[100]]) False
       linked_fs) [[101]] = Some (RegFile sample_metadata)"
proof -
  let ?run = "portable_setup OnWindows quiet_os sample_codec 1 sample_metadata (reader_of [sample_entry] [98, 47, 97]) (Some [[100]]) False linked_fs"
  have "place linked_fs [[100]] = Inr [[100]]" "linked_fs [[100]] = Some Dir"
    by (simp_all add: linked_fs_def MAX_LINKS_def)
  moreover have "canon linked_fs True MAX_LINKS [] ([[100]] @ [APP_METADATA_CONFIG]) = Inr [[101]]"
    by (simp add: linked_fs_def MAX_LINKS_def sample_names)
  moreover have "\<not> below [[100]] [[101]]" by (simp add: below_def)
  moreover have linked: "linked_fs [[101]] = Some (RegFile (sample_metadata @ [120, 10]))" by (simp add: linked_fs_def)
  moreover have "?run = (fst ?run, Inr [[100], [98], [97]])" using linked_launch by (metis prod.collapse)
  ultimately have "fst ?run [[101]] = Some (RegFile (PACKAGE_SHA256_PREFIX @ replicate 64 97 @ [34, 10]))"
    by (intro metadata_written_through_link [OF sample_archive(2) sample_read _ _ honest_quiet sample_metadata_parse(1)
          _ _ _ sample_metadata_parse(2)])
  with linked show ?thesis by (simp add: sample_metadata_def)
qed

theorem extraction_confined_witness:
  "fst (write_files quiet_os sample_codec 1 [[100]] (br_files (reader_of [sample_entry] [98, 47, 97])) sample_fs) [[101]] = None"
proof (rule ccontr)
  obtain fs' r where w: "write_files quiet_os sample_codec 1 [[100]] (br_files (reader_of [sample_entry] [98, 47, 97])) sample_fs = (fs', r)"
    by (meson surj_pair)
  assume "fst (write_files quiet_os sample_codec 1 [[100]] (br_files (reader_of [sample_entry] [98, 47, 97])) sample_fs) [[101]] \<noteq> None"
  with w have "fs' [[101]] \<noteq> sample_fs [[101]]" by (simp add: sample_fs_def)
  from extraction_confined [OF sample_archive(2) sample_read sample_place honest_quiet w this] show False
    by (simp add: below_def)
qed

theorem extraction_verified_witness:
  "\<exists>c. fst (write_files quiet_os sample_codec 1 [[100]] (br_files (reader_of [sample_entry] [98, 47, 97])) sample_fs) [[100], [98], [97]]
     = Some (RegFile c) \<and> sha256 sample_codec c = replicate 32 5"
proof -
  obtain fs' r where w: "write_files quiet_os sample_codec 1 [[100]] (br_files (reader_of [sample_entry] [98, 47, 97])) sample_fs = (fs', r)"
    by (meson surj_pair)
  then have "r = Inr ()" using sample_write by simp
  have "file_of sample_entry \<in> set (br_files (reader_of [sample_entry] [98, 47, 97]))" by (simp add: reader_of_def)
  from extraction_verified [OF sample_archive(2) sample_read sample_place honest_quiet w [unfolded \<open>r = Inr ()\<close>] this]
  have "\<exists>c. fs' ([[100]] @ map component_name (components [98, 47, 97])) = Some (RegFile c) \<and> sha256 sample_codec c = replicate 32 5"
    by (simp add: file_of_def sample_entry_def)
  moreover have "map component_name (components [98, 47, 97]) = [[98], [97]]" by code_simp
  ultimately show ?thesis using w by simp
qed

end
