(* ===== verification/Service.thy ===== *)
theory Service
  imports Prelude "HOL-Library.AList" "HOL-Library.Sublist"
begin

text \<open>
  The publish-subscribe services of \<open>src/server/service.rs\<close> that carry video, audio, input and
  terminal data to the connections: subscription, snapshots for new subscribers, broadcasting, and
  the error back-off of the loop that runs a service.
\<close>

section \<open>State\<close>

text \<open>
  A subscriber is the list of the messages sent to it. Several threads use a service; every operation
  that changes it holds its lock, so that a run is a sequence of operations. \<open>is_subed\<close> takes the lock
  twice, once for each table, and is given here as the answer when nothing comes between.
\<close>

record 'm service_inner =
  svc_name :: string
  handle :: bool
  subscribes :: "(int \<times> 'm list) list"
  new_subscribes :: "(int \<times> 'm list) list"
  active :: bool
  need_snapshot :: bool
  options :: "string \<rightharpoonup> string"

definition HIBERNATE_TIMEOUT :: nat where "HIBERNATE_TIMEOUT = 30"
definition MAX_ERROR_TIMEOUT :: nat where "MAX_ERROR_TIMEOUT = 1000"
definition SERVICE_OPTION_VALUE_TRUE :: string where "SERVICE_OPTION_VALUE_TRUE = ''1''"
definition SERVICE_OPTION_VALUE_FALSE :: string where "SERVICE_OPTION_VALUE_FALSE = ''0''"

definition service_tmpl_new :: "string \<Rightarrow> bool \<Rightarrow> 'm service_inner" where
  "service_tmpl_new name snap =
     \<lparr>svc_name = name, handle = False, subscribes = [], new_subscribes = [], active = True, need_snapshot = snap,
      options = Map.empty\<rparr>"

section \<open>Operations\<close>

definition push_msg :: "'m \<Rightarrow> int \<times> 'm list \<Rightarrow> int \<times> 'm list" where
  "push_msg m x = (fst x, snd x @ [m])"

definition send_new_subscribes :: "'m \<Rightarrow> 'm service_inner \<Rightarrow> 'm service_inner" where
  "send_new_subscribes m s = s\<lparr>new_subscribes := map (push_msg m) (new_subscribes s)\<rparr>"

definition swap_new_subscribes :: "'m service_inner \<Rightarrow> 'm service_inner" where
  "swap_new_subscribes s =
     s\<lparr>subscribes := fold (\<lambda>(i, x). AList.update i x) (new_subscribes s) (subscribes s), new_subscribes := []\<rparr>"

definition has_subscribes :: "'m service_inner \<Rightarrow> bool" where
  "has_subscribes s \<longleftrightarrow> length (subscribes s) > 0 \<or> length (new_subscribes s) > 0"

definition is_subed :: "int \<Rightarrow> 'm service_inner \<Rightarrow> bool" where
  "is_subed i s \<longleftrightarrow> map_of (subscribes s) i \<noteq> None \<or> map_of (new_subscribes s) i \<noteq> None"

definition on_subscribe :: "int \<Rightarrow> 'm service_inner \<Rightarrow> 'm service_inner" where
  "on_subscribe i s =
     (if map_of (subscribes s) i \<noteq> None then s
      else if need_snapshot s then s\<lparr>new_subscribes := AList.update i [] (new_subscribes s)\<rparr>
      else s\<lparr>subscribes := AList.update i [] (subscribes s)\<rparr>)"

definition on_unsubscribe :: "int \<Rightarrow> 'm service_inner \<Rightarrow> 'm service_inner" where
  "on_unsubscribe i s =
     (if map_of (subscribes s) i \<noteq> None then s\<lparr>subscribes := AList.delete i (subscribes s)\<rparr>
      else s\<lparr>new_subscribes := AList.delete i (new_subscribes s)\<rparr>)"

definition join :: "'m service_inner \<Rightarrow> 'm service_inner" where
  "join s = s\<lparr>active := False, handle := False\<rparr>"

definition get_option :: "string \<Rightarrow> 'm service_inner \<Rightarrow> string option" where
  "get_option opt s = options s opt"

definition set_option :: "string \<Rightarrow> string \<Rightarrow> 'm service_inner \<Rightarrow> 'm service_inner \<times> string option" where
  "set_option opt val s = (s\<lparr>options := (options s)(opt \<mapsto> val)\<rparr>, options s opt)"

definition is_option_true :: "string \<Rightarrow> 'm service_inner \<Rightarrow> bool" where
  "is_option_true opt s = (case get_option opt s of None \<Rightarrow> False | Some v \<Rightarrow> v = SERVICE_OPTION_VALUE_TRUE)"

definition set_option_bool :: "string \<Rightarrow> bool \<Rightarrow> 'm service_inner \<Rightarrow> 'm service_inner" where
  "set_option_bool opt val s =
     (if val then fst (set_option opt SERVICE_OPTION_VALUE_TRUE s) else fst (set_option opt SERVICE_OPTION_VALUE_FALSE s))"

definition svc_ok :: "'m service_inner \<Rightarrow> bool" where
  "svc_ok s \<longleftrightarrow> active s \<and> has_subscribes s"

definition send_shared :: "'m \<Rightarrow> 'm service_inner \<Rightarrow> 'm service_inner" where
  "send_shared m s = s\<lparr>subscribes := map (push_msg m) (subscribes s)\<rparr>"

definition send_to :: "'m \<Rightarrow> int \<Rightarrow> 'm service_inner \<Rightarrow> 'm service_inner" where
  "send_to m i s =
     (case map_of (subscribes s) i of
        Some inbox \<Rightarrow> s\<lparr>subscribes := AList.update i (inbox @ [m]) (subscribes s)\<rparr>
      | None \<Rightarrow> s)"

definition send_to_others :: "'m \<Rightarrow> int \<Rightarrow> 'm service_inner \<Rightarrow> 'm service_inner" where
  "send_to_others m i s = s\<lparr>subscribes := map (\<lambda>x. if fst x \<noteq> i then push_msg m x else x) (subscribes s)\<rparr>"

definition send_without :: "'m \<Rightarrow> int \<Rightarrow> 'm service_inner \<Rightarrow> 'm service_inner" where
  "send_without m i s = s\<lparr>subscribes := map (\<lambda>x. if i \<noteq> fst x then push_msg m x else x) (subscribes s)\<rparr>"

definition send_video_frame_shared :: "'m \<Rightarrow> 'm service_inner \<Rightarrow> 'm service_inner \<times> int set" where
  "send_video_frame_shared m s = (send_shared m s, set (map fst (subscribes s)))"

section \<open>Snapshots\<close>

text \<open>
  \<open>snapshot\<close> calls back when there are new subscribers; the callback sends through the swap, and when
  it returns, with or without an error, the swap is dropped. The callback is the list of its sends
  and its result.
\<close>

definition snapshot :: "'m list \<Rightarrow> (string, unit) result \<Rightarrow> 'm service_inner \<Rightarrow> 'm service_inner \<times> (string, unit) result" where
  "snapshot msgs r s =
     (if length (new_subscribes s) > 0
      then (swap_new_subscribes (fold send_new_subscribes msgs s), r)
      else (s, Inr ()))"

section \<open>The loop\<close>

text \<open>\<open>run\<close> and \<open>repeat\<close> start the thread of the service and keep its handle.\<close>

definition start_thread :: "'m service_inner \<Rightarrow> 'm service_inner" where
  "start_thread s = s\<lparr>handle := True\<rparr>"

text \<open>The back-off after a callback that failed and had run for \<open>elapsed\<close> milliseconds.\<close>

definition next_error_timeout :: "nat \<Rightarrow> nat \<Rightarrow> nat" where
  "next_error_timeout elapsed error_timeout =
     (let t = (if elapsed > MAX_ERROR_TIMEOUT then HIBERNATE_TIMEOUT else error_timeout * 2)
      in if t > MAX_ERROR_TIMEOUT then MAX_ERROR_TIMEOUT else t)"

text \<open>One turn of the loop of \<open>repeat\<close>: the calls made on the state.\<close>

datatype repeat_call = CallInit | CallCallback | CallReset

definition repeat_turn :: "bool \<Rightarrow> bool \<Rightarrow> bool \<times> repeat_call list" where
  "repeat_turn subscribed may_reset =
     (if subscribed then (True, (if may_reset then [] else [CallInit]) @ [CallCallback])
      else if may_reset then (False, [CallReset])
      else (False, []))"

section \<open>Runs\<close>

text \<open>\<open>SwapSend\<close> and \<open>SwapDrop\<close> are the two actions of a snapshot callback, \<open>Snapshot\<close> a whole one.\<close>

datatype 'm svc_op =
    Subscribe int | Unsubscribe int | Send 'm | SendTo 'm int | SendToOthers 'm int | SendWithout 'm int
  | SwapSend 'm | SwapDrop | Snapshot "'m list" "(string, unit) result" | Join | Start | SetOption string string

fun svc_step :: "'m svc_op \<Rightarrow> 'm service_inner \<Rightarrow> 'm service_inner" where
  "svc_step (Subscribe i) s = on_subscribe i s"
| "svc_step (Unsubscribe i) s = on_unsubscribe i s"
| "svc_step (Send m) s = send_shared m s"
| "svc_step (SendTo m i) s = send_to m i s"
| "svc_step (SendToOthers m i) s = send_to_others m i s"
| "svc_step (SendWithout m i) s = send_without m i s"
| "svc_step (SwapSend m) s = send_new_subscribes m s"
| "svc_step SwapDrop s = swap_new_subscribes s"
| "svc_step (Snapshot msgs r) s = fst (snapshot msgs r s)"
| "svc_step Join s = join s"
| "svc_step Start s = start_thread s"
| "svc_step (SetOption o' v) s = fst (set_option o' v s)"

section \<open>The contract of a subscription\<close>

text \<open>
  What the connections rely on: subscribing and unsubscribing are the only operations that change who
  is subscribed. Then the last of the two for a connection decides.
\<close>

locale subscription =
  fixes inv :: "'s \<Rightarrow> bool"
    and subed :: "int \<Rightarrow> 's \<Rightarrow> bool"
    and step :: "'op \<Rightarrow> 's \<Rightarrow> 's"
    and subs :: "'op \<Rightarrow> int option"
    and unsubs :: "'op \<Rightarrow> int option"
  assumes inv_step: "inv s \<Longrightarrow> inv (step op s)"
    and subed_step: "inv s \<Longrightarrow> subed i (step op s) \<longleftrightarrow> subs op = Some i \<or> subed i s \<and> unsubs op \<noteq> Some i"
begin

lemma inv_run: "inv s \<Longrightarrow> inv (fold step ops s)"
  using inv_step by (induction ops arbitrary: s) auto

lemma last_decides:
  assumes "inv s"
  shows "subed i (fold step ops s) \<longleftrightarrow>
    (case find (\<lambda>op. subs op = Some i \<or> unsubs op = Some i) (rev ops) of Some op \<Rightarrow> subs op = Some i | None \<Rightarrow> subed i s)"
proof (induction ops rule: rev_induct)
  case (snoc op ops)
  have "subed i (step op (fold step ops s)) \<longleftrightarrow> subs op = Some i \<or> subed i (fold step ops s) \<and> unsubs op \<noteq> Some i"
    using subed_step inv_run [OF assms] by blast
  with snoc show ?case by auto
qed simp

end

section \<open>Lemmas\<close>

lemma fst_push_msg [simp]: "fst (push_msg m x) = fst x"
  by (simp add: push_msg_def)

lemma map_fst_push [simp]: "map fst (map (push_msg m) xs) = map fst xs" "map fst (map (\<lambda>x. if P x then push_msg m x else x) xs) = map fst xs"
  by (simp_all add: comp_def if_distrib cong: if_cong)

definition ids :: "(int \<times> 'm list) list \<Rightarrow> int set" where
  "ids xs = fst ` set xs"

lemma ids_Nil [simp]: "ids [] = {}"
  by (simp add: ids_def)

lemma ids_alt: "ids xs = set (map fst xs)"
  by (simp add: ids_def)

lemma map_of_None_ids: "map_of xs i = None \<longleftrightarrow> i \<notin> ids xs"
  by (simp add: ids_def map_of_eq_None_iff)

lemma is_subed_ids: "is_subed i s \<longleftrightarrow> i \<in> ids (subscribes s) \<union> ids (new_subscribes s)"
  by (auto simp: is_subed_def map_of_None_ids)

definition svc_inv :: "'m service_inner \<Rightarrow> bool" where
  "svc_inv s \<longleftrightarrow> distinct (map fst (subscribes s)) \<and> distinct (map fst (new_subscribes s))
     \<and> ids (subscribes s) \<inter> ids (new_subscribes s) = {} \<and> (need_snapshot s \<or> new_subscribes s = [])"

lemma ids_update: "ids (AList.update i x xs) = insert i (ids xs)"
  by (simp add: ids_def dom_update)

lemma ids_delete: "ids (AList.delete i xs) = ids xs - {i}"
  by (simp add: ids_alt delete_keys)

lemma ids_push [simp]: "ids (map (push_msg m) xs) = ids xs" "ids (map (\<lambda>x. if P x then push_msg m x else x) xs) = ids xs"
  unfolding ids_alt map_fst_push by (rule refl)+

lemma swap_fold:
  "distinct (map fst xs) \<Longrightarrow> distinct (map fst (fold (\<lambda>(i, x). AList.update i x) ys xs)) \<and> ids (fold (\<lambda>(i, x). AList.update i x) ys xs) = ids xs \<union> ids ys"
  by (induction ys arbitrary: xs) (auto simp: distinct_update ids_update ids_def [of "[]"] ids_def [of "_ # _"] simp flip: ids_def)

lemma swap_inv:
  assumes "svc_inv s"
  shows "svc_inv (swap_new_subscribes s)" "is_subed i (swap_new_subscribes s) \<longleftrightarrow> is_subed i s"
  using assms swap_fold [of "subscribes s" "new_subscribes s"]
  by (auto simp: svc_inv_def swap_new_subscribes_def is_subed_ids ids_def [of "[]"])

lemma send_new_inv:
  "svc_inv (send_new_subscribes m s) = svc_inv s" "is_subed i (send_new_subscribes m s) = is_subed i s"
  "subscribes (send_new_subscribes m s) = subscribes s" "need_snapshot (send_new_subscribes m s) = need_snapshot s"
  by (simp_all add: svc_inv_def is_subed_ids send_new_subscribes_def del: map_map)

lemma send_new_all_inv:
  "svc_inv (fold send_new_subscribes ms s) = svc_inv s" "is_subed i (fold send_new_subscribes ms s) = is_subed i s"
  by (induction ms arbitrary: s) (simp_all add: send_new_inv)

lemma send_to_ids:
  "ids (subscribes (send_to m i s)) = ids (subscribes s)" "new_subscribes (send_to m i s) = new_subscribes s"
  "distinct (map fst (subscribes s)) \<Longrightarrow> distinct (map fst (subscribes (send_to m i s)))"
  "need_snapshot (send_to m i s) = need_snapshot s"
  by (auto simp: send_to_def distinct_update ids_update map_of_None_ids dest: map_of_SomeD split: option.split)
    (auto simp: ids_def dest!: map_of_SomeD intro: rev_image_eqI)

lemma svc_step_inv:
  assumes "svc_inv s"
  shows "svc_inv (svc_step op s)"
proof (cases op)
  case (Snapshot ms r)
  with assms show ?thesis by (simp add: snapshot_def swap_inv send_new_all_inv)
next
  case SwapDrop
  with assms show ?thesis by (simp add: swap_inv)
qed (use assms in \<open>auto simp: svc_inv_def on_subscribe_def on_unsubscribe_def distinct_update distinct_delete ids_update ids_delete
      map_of_None_ids send_shared_def send_to_others_def send_without_def send_to_ids join_def start_thread_def set_option_def send_new_subscribes_def
      simp del: map_map\<close>)

fun op_subs :: "'m svc_op \<Rightarrow> int option" where
  "op_subs (Subscribe i) = Some i"
| "op_subs _ = None"

fun op_unsubs :: "'m svc_op \<Rightarrow> int option" where
  "op_unsubs (Unsubscribe i) = Some i"
| "op_unsubs _ = None"

lemma svc_step_subed:
  assumes "svc_inv s"
  shows "is_subed i (svc_step op s) \<longleftrightarrow> op_subs op = Some i \<or> is_subed i s \<and> op_unsubs op \<noteq> Some i"
proof (cases op)
  case (Snapshot ms r)
  then show ?thesis
    using swap_inv(2) [of "fold send_new_subscribes ms s" i] assms by (simp add: snapshot_def send_new_all_inv)
next
  case SwapDrop
  then show ?thesis using swap_inv(2) [OF assms] by simp
next
  case (Unsubscribe j)
  with assms show ?thesis by (auto simp: is_subed_ids on_unsubscribe_def ids_delete map_of_None_ids svc_inv_def)
qed (auto simp: is_subed_ids on_subscribe_def ids_update map_of_None_ids send_shared_def send_to_others_def send_without_def
    send_to_ids send_new_subscribes_def join_def start_thread_def set_option_def)

lemma svc_inv_new: "svc_inv (service_tmpl_new n b)" "\<not> is_subed i (service_tmpl_new n b)"
  by (simp_all add: svc_inv_def service_tmpl_new_def ids_def is_subed_def)

interpretation svc: subscription svc_inv is_subed svc_step op_subs op_unsubs
  by unfold_locales (simp_all add: svc_step_inv svc_step_subed)

text \<open>
  C24. Whatever happens to a service, a connection is subscribed exactly when its last subscription
  has not been followed by an unsubscription; it is listed once, as a new or as an old subscriber,
  never as both.
\<close>

theorem subscription_is_exact:
  "(is_subed i (fold svc_step ops (service_tmpl_new n b)) \<longleftrightarrow>
      (case find (\<lambda>op. op = Subscribe i \<or> op = Unsubscribe i) (rev ops) of Some op \<Rightarrow> op = Subscribe i | None \<Rightarrow> False))
   \<and> svc_inv (fold svc_step ops (service_tmpl_new n b))"
proof -
  have eq: "op_subs op = Some i \<longleftrightarrow> op = Subscribe i" "op_unsubs op = Some i \<longleftrightarrow> op = Unsubscribe i" for op :: "'a svc_op"
    by (cases op; simp)+
  show ?thesis
    using svc.last_decides [OF svc_inv_new(1), of i ops n b] svc.inv_run [OF svc_inv_new(1), of ops n b] svc_inv_new(2)
    by (auto simp: eq split: option.splits)
qed

subsection \<open>Snapshots come first\<close>

fun atomic_op :: "'m svc_op \<Rightarrow> bool" where
  "atomic_op (SwapSend m) = False"
| "atomic_op SwapDrop = False"
| "atomic_op _ = True"

text \<open>What a subscriber is sent by a broadcast.\<close>

fun sent_to :: "int \<Rightarrow> 'm svc_op \<Rightarrow> 'm list" where
  "sent_to i (Send m) = [m]"
| "sent_to i (SendTo m j) = (if j = i then [m] else [])"
| "sent_to i (SendToOthers m j) = (if j \<noteq> i then [m] else [])"
| "sent_to i (SendWithout m j) = (if j \<noteq> i then [m] else [])"
| "sent_to i _ = []"

definition received :: "int \<Rightarrow> 'm svc_op list \<Rightarrow> 'm list" where
  "received i ops = concat (map (sent_to i) ops)"

lemma received_snoc [simp]: "received i [] = []" "received i (ops @ [op]) = received i ops @ sent_to i op"
  by (simp_all add: received_def)

lemma set_update: "set (AList.update i x xs) \<subseteq> insert (i, x) (set xs)"
  by (induction xs) auto

lemma inbox_push:
  "map_of (map (push_msg m) xs) i = map_option (\<lambda>x. x @ [m]) (map_of xs i)"
  "map_of (map (\<lambda>x. if fst x \<noteq> j then push_msg m x else x) xs) i = (if j = i then map_of xs i else map_option (\<lambda>x. x @ [m]) (map_of xs i))"
  "map_of (map (\<lambda>x. if j \<noteq> fst x then push_msg m x else x) xs) i = (if j = i then map_of xs i else map_option (\<lambda>x. x @ [m]) (map_of xs i))"
  by (induction xs) (auto simp: push_msg_def)

lemma inbox_swap:
  assumes "distinct (map fst ys)"
  shows "map_of (fold (\<lambda>(i, x). AList.update i x) ys xs) i = (case map_of ys i of Some x \<Rightarrow> Some x | None \<Rightarrow> map_of xs i)"
  using assms
proof (induction ys arbitrary: xs)
  case (Cons y ys)
  then have "map_of ys (fst y) = None" by (simp add: map_of_eq_None_iff)
  with Cons show ?case by (cases y) (auto simp: update_conv split: option.split)
qed simp

lemma send_new_all:
  "map_of (new_subscribes (fold send_new_subscribes ms s)) i = map_option (\<lambda>x. x @ ms) (map_of (new_subscribes s) i)"
  "map fst (new_subscribes (fold send_new_subscribes ms s)) = map fst (new_subscribes s)"
  "subscribes (fold send_new_subscribes ms s) = subscribes s" "need_snapshot (fold send_new_subscribes ms s) = need_snapshot s"
  by (induction ms arbitrary: s) (auto simp: send_new_subscribes_def inbox_push push_msg_def option.map_comp comp_def simp del: map_map simp add: option.map_ident)

lemma inbox_snapshot:
  assumes "svc_inv s"
  shows "map_of (subscribes (swap_new_subscribes (fold send_new_subscribes ms s))) i =
    (case map_of (new_subscribes s) i of Some x \<Rightarrow> Some (x @ ms) | None \<Rightarrow> map_of (subscribes s) i)"
proof -
  have "distinct (map fst (new_subscribes (fold send_new_subscribes ms s)))" using assms by (simp only: send_new_all(2) svc_inv_def)
  from inbox_swap [OF this] show ?thesis by (simp add: swap_new_subscribes_def send_new_all(1,3) split: option.split)
qed

text \<open>New subscribers have received nothing, when snapshots are not interrupted.\<close>

definition waiting :: "'m service_inner \<Rightarrow> bool" where
  "waiting s \<longleftrightarrow> svc_inv s \<and> need_snapshot s \<and> (\<forall>i x. map_of (new_subscribes s) i = Some x \<longrightarrow> x = [])"

lemma waiting_step:
  assumes "waiting s" "atomic_op op"
  shows "waiting (svc_step op s)"
proof -
  have "svc_inv (svc_step op s)" using assms(1) by (simp add: waiting_def svc_step_inv)
  moreover have "need_snapshot (svc_step op s) \<and> (\<forall>i x. map_of (new_subscribes (svc_step op s)) i = Some x \<longrightarrow> x = [])"
    using assms by (cases op) (auto simp: waiting_def on_subscribe_def on_unsubscribe_def send_shared_def send_to_def send_to_others_def send_without_def snapshot_def
        swap_new_subscribes_def send_new_all join_def start_thread_def set_option_def update_conv delete_conv split: option.splits if_splits)
  ultimately show ?thesis by (simp add: waiting_def)
qed

lemma inbox_step:
  assumes "waiting s" "atomic_op op" "map_of (subscribes (svc_step op s)) i = Some inbox"
  obtains (before) old where "map_of (subscribes s) i = Some old" "op \<noteq> Unsubscribe i" "inbox = old @ sent_to i op"
  | (promoted) ms r where "op = Snapshot ms r" "map_of (new_subscribes s) i \<noteq> None" "inbox = ms"
proof (cases op)
  case (Snapshot ms r)
  have inv: "svc_inv s" and e: "\<And>x. map_of (new_subscribes s) i = Some x \<Longrightarrow> x = []" using assms(1) by (auto simp: waiting_def)
  from that assms(3) Snapshot inbox_snapshot [OF inv, of ms i] e show ?thesis
    by (cases "map_of (new_subscribes s) i") (auto simp: snapshot_def split: if_splits)
next
  case (Unsubscribe j)
  have "j \<noteq> i" using Unsubscribe assms(3) by (auto simp: on_unsubscribe_def delete_conv split: if_splits)
  with that(1) [of inbox] Unsubscribe assms(3) show ?thesis by (auto simp: on_unsubscribe_def delete_conv split: if_splits)
next
  case (SendTo m j)
  with that(1) assms(3) show ?thesis by (cases "j = i") (auto simp: send_to_def update_conv split: option.splits if_splits)
qed (use assms that(1) in \<open>auto simp: waiting_def on_subscribe_def send_shared_def send_to_others_def send_without_def inbox_push join_def start_thread_def set_option_def
    simp del: map_map split: if_splits\<close>)

lemma waiting_run: "waiting s \<Longrightarrow> list_all atomic_op ops \<Longrightarrow> waiting (fold svc_step ops s)"
  by (induction ops arbitrary: s) (simp_all add: waiting_step)

lemma waiting_new: "waiting (service_tmpl_new n True)"
  using svc_inv_new(1) [of n True] by (simp add: waiting_def service_tmpl_new_def)

text \<open>
  C25. What a full subscriber of a service with snapshots has received, when snapshots are steps of
  their own, so that nobody subscribes while one is being sent: first the messages of the snapshot
  step that found it among the new subscribers, and after them exactly the broadcasts that have
  included it since, in order; it has not unsubscribed in between. The messages of a snapshot step are
  those its callback sent: the whole snapshot when the callback succeeded, what it had sent when it
  returned an error otherwise.
\<close>

theorem snapshot_comes_first:
  assumes "list_all atomic_op ops" "map_of (subscribes (fold svc_step ops (service_tmpl_new n True))) i = Some inbox"
  shows "\<exists>xs ms r ys. ops = xs @ Snapshot ms r # ys \<and> map_of (new_subscribes (fold svc_step xs (service_tmpl_new n True))) i \<noteq> None
    \<and> Unsubscribe i \<notin> set ys \<and> inbox = ms @ received i ys"
  using assms
proof (induction ops arbitrary: inbox rule: rev_induct)
  case (snoc op ops)
  let ?s = "fold svc_step ops (service_tmpl_new n True)"
  have w: "waiting ?s" by (rule waiting_run [OF waiting_new]) (use snoc.prems(1) in simp)
  have at: "atomic_op op" "map_of (subscribes (svc_step op ?s)) i = Some inbox" using snoc.prems by simp_all
  from w at show ?case
  proof (cases rule: inbox_step)
    case (before old)
    from snoc.IH [OF _ before(1)] snoc.prems(1) obtain xs ms r ys where "ops = xs @ Snapshot ms r # ys"
      "map_of (new_subscribes (fold svc_step xs (service_tmpl_new n True))) i \<noteq> None" "Unsubscribe i \<notin> set ys" "old = ms @ received i ys" by auto
    with before(2,3) show ?thesis by (intro exI [of _ xs] exI [of _ ms] exI [of _ r] exI [of _ "ys @ [op]"]) auto
  next
    case (promoted ms r)
    then show ?thesis by (intro exI [of _ ops] exI [of _ ms] exI [of _ r] exI [of _ "[]"]) simp
  qed
qed (simp add: service_tmpl_new_def)

theorem snapshot_comes_first_witness:
  "\<exists>xs ms r ys. [Subscribe 1, Snapshot [10::nat] (Inr ()), SendTo 15 2, Send 20] = xs @ Snapshot ms r # ys \<and> [10, 20] = ms @ received 1 ys"
proof -
  have "map_of (subscribes (fold svc_step [Subscribe 1, Snapshot [10::nat] (Inr ()), SendTo 15 2, Send 20] (service_tmpl_new [] True))) 1 = Some [10, 20]"
    by (simp add: service_tmpl_new_def on_subscribe_def snapshot_def swap_new_subscribes_def send_new_subscribes_def push_msg_def send_shared_def send_to_def)
  from snapshot_comes_first [OF _ this] show ?thesis by auto
qed

text \<open>
  C40. Why nobody may subscribe while a snapshot is being sent: in every state of a service with
  snapshots, when the callback has sent the messages of the snapshot and a connection that is not
  subscribed subscribes before the swap is dropped, the drop makes it a full subscriber that has
  received nothing, and its first message is the next broadcast, while those that were waiting have
  received the snapshot before it.
\<close>

theorem late_subscriber_misses_snapshot:
  assumes "svc_inv s" "need_snapshot s" "\<not> is_subed j s"
  shows "map_of (subscribes (fold svc_step (map SwapSend ms @ [Subscribe j, SwapDrop, Send m]) s)) j = Some [m]
    \<and> (\<forall>i x. map_of (new_subscribes s) i = Some x \<longrightarrow>
         map_of (subscribes (fold svc_step (map SwapSend ms @ [Subscribe j, SwapDrop, Send m]) s)) i = Some (x @ ms @ [m]))"
proof -
  have "fold svc_step (map SwapSend ms) s = fold send_new_subscribes ms s" by (induction ms arbitrary: s) simp_all
  moreover define s1 where "s1 = fold send_new_subscribes ms s"
  ultimately have run: "fold svc_step (map SwapSend ms @ [Subscribe j, SwapDrop, Send m]) s = send_shared m (swap_new_subscribes (on_subscribe j s1))" by simp
  have inv: "svc_inv s1" "need_snapshot s1" "map_of (subscribes s1) j = None" "map_of (new_subscribes s) j = None"
    using assms by (simp_all add: s1_def send_new_all_inv send_new_all is_subed_def)
  then have "svc_inv (on_subscribe j s1)" using svc_step_inv [of s1 "Subscribe j"] by simp
  then have d: "distinct (map fst (new_subscribes (on_subscribe j s1)))" by (simp add: svc_inv_def)
  have "map_of (subscribes (send_shared m (swap_new_subscribes (on_subscribe j s1)))) i = map_option (\<lambda>x. x @ [m])
      (case map_of (new_subscribes (on_subscribe j s1)) i of Some x \<Rightarrow> Some x | None \<Rightarrow> map_of (subscribes (on_subscribe j s1)) i)" for i
    by (simp add: send_shared_def inbox_push swap_new_subscribes_def inbox_swap [OF d] del: map_map)
  moreover have "map_of (new_subscribes (on_subscribe j s1)) i = (if i = j then Some [] else map_option (\<lambda>x. x @ ms) (map_of (new_subscribes s) i))" for i
    using inv(2,3) by (simp add: on_subscribe_def update_conv s1_def send_new_all(1))
  ultimately show ?thesis unfolding run using inv(4) by auto
qed

theorem late_subscriber_misses_snapshot_witness:
  "map_of (subscribes (fold svc_step (map SwapSend [7::nat] @ [Subscribe 2, SwapDrop, Send 9]) (svc_step (Subscribe 1) (service_tmpl_new [] True)))) 2 = Some [9]"
proof -
  have "svc_inv (svc_step (Subscribe 1) (service_tmpl_new [] True))" by (rule svc_step_inv [OF svc_inv_new(1)])
  from late_subscriber_misses_snapshot [OF this, of 2 "[7::nat]" 9] show ?thesis by (simp add: service_tmpl_new_def on_subscribe_def is_subed_def)
qed

text \<open>
  The pause after errors stays between 30 ms and a second.
\<close>

lemma timeout_range:
  "HIBERNATE_TIMEOUT \<le> t \<Longrightarrow> HIBERNATE_TIMEOUT \<le> next_error_timeout e t \<and> next_error_timeout e t \<le> MAX_ERROR_TIMEOUT"
  by (simp add: next_error_timeout_def HIBERNATE_TIMEOUT_def MAX_ERROR_TIMEOUT_def Let_def)

lemma error_backoff_bounded:
  assumes "es \<noteq> []"
  shows "HIBERNATE_TIMEOUT \<le> fold next_error_timeout es HIBERNATE_TIMEOUT \<and> fold next_error_timeout es HIBERNATE_TIMEOUT \<le> MAX_ERROR_TIMEOUT"
proof -
  have "HIBERNATE_TIMEOUT \<le> fold next_error_timeout es t" if "HIBERNATE_TIMEOUT \<le> t" for t es
    using that timeout_range by (induction es arbitrary: t) auto
  moreover obtain xs x where "es = xs @ [x]" using assms by (metis rev_exhaust)
  ultimately show ?thesis using timeout_range by simp
qed

text \<open>The loop of \<open>repeat\<close> initialises its state before the first call after a pause and resets it once after.\<close>

fun repeat_calls :: "bool list \<Rightarrow> bool \<Rightarrow> repeat_call list" where
  "repeat_calls [] m = []"
| "repeat_calls (b # bs) m = (let (m', cs) = repeat_turn b m in cs @ repeat_calls bs m')"

fun alternating :: "bool \<Rightarrow> repeat_call list \<Rightarrow> bool" where
  "alternating up [] = True"
| "alternating up (CallInit # cs) = (\<not> up \<and> alternating True cs)"
| "alternating up (CallCallback # cs) = (up \<and> alternating up cs)"
| "alternating up (CallReset # cs) = (up \<and> alternating False cs)"

lemma repeat_alternates: "alternating m (repeat_calls bs m)"
  by (induction bs arbitrary: m) (auto simp: repeat_turn_def)

end
