(* ===== verification/FileTransfers.thy ===== *)
theory FileTransfers
  imports Prelude
begin

text \<open>
  File transfer sessions. The connection (\<open>src/server/connection.rs\<close>) receives the file actions of the
  peer and hands the work to the connection manager (\<open>handle_fs\<close> in \<open>src/ui_cm_interface.rs\<close>), which
  on Windows also reads the files that are sent; in between are two queues. The transfer jobs of
  the protocol library are the type \<open>'j\<close> and its operations the record \<open>jobs_lib\<close>.
\<close>

section \<open>Messages\<close>

record file_entry =
  fe_name :: string
  fe_size :: nat
  fe_modified :: nat

datatype job_type = Generic | Printer
datatype digest_result = IsSame | NeedConfirm nat nat | NoSuchFile

datatype data_source = FilePath string | MemoryCursor bytes

text \<open>The actions of a peer; \<open>FA_None\<close> is an action that is not set or not known.\<close>

datatype file_action =
    FA_ReadEmptyDirs string bool
  | FA_ReadDir string bool
  | FA_AllFiles int string bool
  | FA_Send int string job_type int bool
  | FA_Receive int string int "file_entry list" nat
  | FA_RemoveDir int string bool
  | FA_RemoveFile int string int
  | FA_Create int string
  | FA_Cancel int
  | FA_SendConfirm int int bool nat
  | FA_Rename int string string
  | FA_None

datatype file_response =
    FR_Block int int bytes bool
  | FR_Done int int
  | FR_Digest int int nat nat bool
  | FR_Error int int string
  | FR_None

text \<open>What the connection sends to the peer.\<close>

datatype file_msg =
    FM_Error int string int
  | FM_Dir int string "file_entry list"
  | FM_Block int int bytes bool
  | FM_Done int int
  | FM_Digest int int nat nat bool bool
  | FM_Confirm int int bool
  | FM_EmptyDirs string
  | FM_Listing string

text \<open>The commands to the connection manager (\<open>ipc::FS\<close>) and its data for the connection.\<close>

datatype fs_cmd =
    FS_ReadEmptyDirs string bool
  | FS_ReadDir string bool
  | FS_ReadAllFiles string int bool int
  | FS_ReadFile string int int bool int bool
  | FS_NewWrite string int int "(string \<times> nat) list" bool nat int
  | FS_RemoveDir string int bool
  | FS_RemoveFile string int int
  | FS_CreateDir string int
  | FS_CancelWrite int
  | FS_CancelRead int int
  | FS_SendConfirmForRead int int bool nat int
  | FS_SendConfirm int int bool nat
  | FS_Rename int string string
  | FS_WriteBlock int int bytes bool
  | FS_WriteDone int int
  | FS_CheckDigest int int nat nat bool bool
  | FS_WriteError int int string

datatype cm_data =
    CM_ReadJobInit int int bool int "(string, bytes) result"
  | CM_Block int int bytes bool int
  | CM_ReadDone int int int
  | CM_ReadError int int string int
  | CM_Digest int int nat nat bool int
  | CM_AllFiles int int string "(string, bytes) result"
  | CM_Raw file_msg

datatype log_entry = L_Create int string | L_Rename string string | L_Transfer int | L_Remove int string bool | L_Jobs string

datatype audit_type = RemoteSend | RemoteReceive

datatype file_effect =
    E_Peer file_msg
  | E_Fs fs_cmd
  | E_Log log_entry
  | E_Audit audit_type string "(string \<times> nat) list" nat bool
  | E_Confirm int int bool nat
  | E_FileTimer
  | E_FileTimerIdle

section \<open>The library of transfer jobs\<close>

record 'j jobs_lib =
  j_new_read :: "int \<Rightarrow> job_type \<Rightarrow> data_source \<Rightarrow> int \<Rightarrow> bool \<Rightarrow> bool \<Rightarrow> bool \<Rightarrow> (string, 'j) result"
  j_new_write :: "int \<Rightarrow> data_source \<Rightarrow> int \<Rightarrow> bool \<Rightarrow> 'j"
  j_set_files :: "file_entry list \<Rightarrow> 'j \<Rightarrow> 'j \<times> (string, unit) result"
  j_files :: "'j \<Rightarrow> file_entry list"
  j_type :: "'j \<Rightarrow> job_type"
  j_id :: "'j \<Rightarrow> int"
  j_file_num :: "'j \<Rightarrow> int"
  j_is_last :: "'j \<Rightarrow> bool"
  j_is_resume :: "'j \<Rightarrow> bool"
  j_set_conn :: "int \<Rightarrow> 'j \<Rightarrow> 'j"
  j_set_total :: "nat \<Rightarrow> 'j \<Rightarrow> 'j"
  j_set_remote :: "'j \<Rightarrow> 'j"
  j_init :: "'j \<Rightarrow> 'j \<times> (string, (nat \<times> nat) option) result"
  j_read :: "'j \<Rightarrow> 'j \<times> (string, (int \<times> int \<times> bytes \<times> bool) option) result"
  j_write :: "int \<Rightarrow> bytes \<Rightarrow> bool \<Rightarrow> 'j \<Rightarrow> 'j \<times> (string, unit) result"
  j_confirm :: "int \<Rightarrow> bool \<Rightarrow> nat \<Rightarrow> 'j \<Rightarrow> 'j"
  j_set_digest :: "nat \<Rightarrow> nat \<Rightarrow> 'j \<Rightarrow> 'j"
  j_completed :: "'j \<Rightarrow> bool"
  j_error :: "'j \<Rightarrow> string option"
  j_target :: "'j \<Rightarrow> file_entry \<Rightarrow> string option"
  j_need_confirm :: "bool \<Rightarrow> string \<Rightarrow> nat \<Rightarrow> nat \<Rightarrow> (string, digest_result) result"
  j_remove :: "int \<Rightarrow> 'j list \<Rightarrow> 'j list \<times> 'j option"
  j_get :: "int \<Rightarrow> 'j list \<Rightarrow> nat option"
  j_dir_bytes :: "int \<Rightarrow> string \<Rightarrow> file_entry list \<Rightarrow> (string, bytes) result"
  j_parse_dir :: "bytes \<Rightarrow> (string, string \<times> file_entry list) result"
  j_serialize :: "'j list \<Rightarrow> string"
  j_handle_reads :: "'j list \<Rightarrow> 'j list \<times> file_msg list \<times> (string, string) result"

text \<open>
  What the code relies on: removing takes out a job with that number if there is one, and looking up
  finds one.
\<close>

definition jobs_lib_ok :: "'j jobs_lib \<Rightarrow> bool" where
  "jobs_lib_ok lib \<longleftrightarrow>
     (\<forall>i js. case j_get lib i js of
        Some k \<Rightarrow> k < length js \<and> j_id lib (js ! k) = i \<and> j_remove lib i js = (take k js @ drop (Suc k) js, Some (js ! k))
      | None \<Rightarrow> i \<notin> j_id lib ` set js \<and> j_remove lib i js = (js, None))"

definition upd_job :: "'j jobs_lib \<Rightarrow> int \<Rightarrow> ('j \<Rightarrow> 'j) \<Rightarrow> 'j list \<Rightarrow> 'j list" where
  "upd_job lib i f js = (case j_get lib i js of Some k \<Rightarrow> js[k := f (js ! k)] | None \<Rightarrow> js)"

section \<open>Limits and audits\<close>

definition DEFAULT_MAX_VALIDATED_FILES :: nat where "DEFAULT_MAX_VALIDATED_FILES = 10000"
definition MAX_CONFIGURED_VALIDATED_FILES :: nat where "MAX_CONFIGURED_VALIDATED_FILES = 100000"

text \<open>\<open>str::parse\<close> for \<open>usize\<close>: digits after an optional plus sign, no overflow.\<close>

fun digits_value :: "nat \<Rightarrow> string \<Rightarrow> nat option" where
  "digits_value acc [] = Some acc"
| "digits_value acc (c # cs) =
     (let d = of_char c :: nat
      in if 48 \<le> d \<and> d \<le> 57 \<and> acc * 10 + (d - 48) < 18446744073709551616 then digits_value (acc * 10 + (d - 48)) cs else None)"

definition parse_usize :: "string \<Rightarrow> nat option" where
  "parse_usize t = (let ds = (case t of c # cs \<Rightarrow> if [c] = ''+'' then cs else t | [] \<Rightarrow> t) in if ds = [] then None else digits_value 0 ds)"

definition configured_max_validated_files :: "string \<Rightarrow> nat" where
  "configured_max_validated_files raw =
     (case parse_usize (trim raw) of
        Some v \<Rightarrow> if v > 0 then min v MAX_CONFIGURED_VALIDATED_FILES else DEFAULT_MAX_VALIDATED_FILES
      | None \<Rightarrow> DEFAULT_MAX_VALIDATED_FILES)"

definition too_many_files :: string where "too_many_files = ''file transfer rejected: too many files''"

definition check_file_count_limit :: "nat \<Rightarrow> nat \<Rightarrow> (string, unit) result" where
  "check_file_count_limit max_files n = (if n > max_files then Inl too_many_files else Inr ())"

definition get_files_for_audit :: "job_type \<Rightarrow> file_entry list \<Rightarrow> (string \<times> nat) list" where
  "get_files_for_audit t fs = map (\<lambda>f. (if t = Printer then ''Remote print'' else fe_name f, fe_size f)) fs"

text \<open>\<open>sort_by\<close> is stable; at most ten files, the largest ones, are reported with the number of all.\<close>

definition post_file_audit :: "bool \<Rightarrow> audit_type \<Rightarrow> string \<Rightarrow> (string \<times> nat) list \<Rightarrow> file_effect list" where
  "post_file_audit enabled ty path fs =
     (if \<not> enabled then []
      else let sorted = take 10 (sort_key (\<lambda>f. - int (snd f)) fs)
           in [E_Audit ty path sorted (length fs) (length sorted = 1 \<and> fst (hd sorted) = [])])"

section \<open>The log of removals\<close>

text \<open>\<open>Path\<close> on Unix: whether it is absolute, and its components.\<close>

definition path_parts :: "string \<Rightarrow> bool \<times> string list" where
  "path_parts p =
     (let root = (case p of c # _ \<Rightarrow> [c] = ''/'' | [] \<Rightarrow> False);
          cs = filter (\<lambda>c. c \<noteq> []) (split_on (\<lambda>c. [c] = ''/'') p)
      in (root, case cs of
                  c # r \<Rightarrow> (if c = ''.'' \<and> root then [] else [c]) @ filter (\<lambda>c. c \<noteq> ''.'') r
                | [] \<Rightarrow> []))"

definition path_parent :: "bool \<times> string list \<Rightarrow> (bool \<times> string list) option" where
  "path_parent p = (if snd p = [] then None else Some (fst p, butlast (snd p)))"

definition direct_child :: "string \<Rightarrow> string \<Rightarrow> bool" where
  "direct_child parent child \<longleftrightarrow> path_parent (path_parts child) = Some (path_parts parent)"

record remove_log =
  rl_instant :: nat
  removed_files :: "(int \<times> string) list"
  removed_dirs :: "(int \<times> string) list"

definition on_remove_file :: "nat \<Rightarrow> int \<Rightarrow> string \<Rightarrow> remove_log \<Rightarrow> remove_log \<times> log_entry" where
  "on_remove_file t i path l =
     (l\<lparr>rl_instant := t, removed_files := removed_files l @ [(i, path)]\<rparr>, L_Remove i path False)"

definition on_remove_dir :: "nat \<Rightarrow> int \<Rightarrow> string \<Rightarrow> remove_log \<Rightarrow> remove_log \<times> log_entry" where
  "on_remove_dir t i path l =
     (let fs = filter (\<lambda>f. \<not> direct_child (snd f) path) (removed_files l);
          ds = filter (\<lambda>x. \<not> direct_child path (snd x)) (removed_dirs l);
          ds = (if \<not> list_ex (\<lambda>x. direct_child (snd x) path) ds then ds @ [(i, path)] else ds)
      in (l\<lparr>rl_instant := t, removed_files := fs, removed_dirs := ds\<rparr>, L_Remove i path True))"

text \<open>Times are in milliseconds.\<close>

definition rl_on_timer :: "nat \<Rightarrow> remove_log \<Rightarrow> remove_log \<times> log_entry list" where
  "rl_on_timer t l =
     (if (t - rl_instant l) div 1000 < 1 then (l, [])
      else (l\<lparr>removed_files := [], removed_dirs := []\<rparr>,
            map (\<lambda>(i, p). L_Remove i p False) (removed_files l) @ map (\<lambda>(i, p). L_Remove i p True) (removed_dirs l)))"

section \<open>The side of the connection\<close>

record 'j ft_conn =
  ft_id :: int
  ft_session :: bool
  delayed_read_dir :: "(string \<times> bool) option"
  cm_read_job_ids :: "int set"
  read_jobs :: "'j list"
  printer_data :: "(nat \<times> string \<times> bytes) list"
  file_transferred :: bool
  rm_log :: remove_log

text \<open>
  What it reads: whether the connection manager reads the files (on Windows), the built-in option,
  the version of the peer, the limit, whether audits are on, and the listing of a directory.
\<close>

record 'j ft_env =
  ft_lib :: "'j jobs_lib"
  need_fs_cm_send_files :: bool
  one_way :: bool
  overwrite_detection :: bool
  max_files :: nat
  audit_on :: bool
  recursive_files :: "string \<Rightarrow> bool \<Rightarrow> (string, file_entry list) result"

definition process_new_read_job :: "'j ft_env \<Rightarrow> 'j \<Rightarrow> string \<Rightarrow> 'j ft_conn \<Rightarrow> 'j ft_conn \<times> file_effect list" where
  "process_new_read_job env job path c =
     (let fs = j_files (ft_lib env) job; t = j_type (ft_lib env) job;
          audit_path = (if t = Printer then ''Remote print'' else path)
      in (c\<lparr>read_jobs := read_jobs c @ [j_set_conn (ft_lib env) (ft_id c) (j_set_remote (ft_lib env) job)]\<rparr>,
          [E_Peer (FM_Dir (j_id (ft_lib env) job) path fs), E_FileTimer]
          @ post_file_audit (audit_on env) RemoteSend audit_path (get_files_for_audit t fs)))"

definition create_and_start_read_job ::
  "'j ft_env \<Rightarrow> int \<Rightarrow> job_type \<Rightarrow> data_source \<Rightarrow> int \<Rightarrow> bool \<Rightarrow> bool \<Rightarrow> string \<Rightarrow> bool \<Rightarrow> 'j ft_conn \<Rightarrow> 'j ft_conn \<times> file_effect list" where
  "create_and_start_read_job env i t src file_num include_hidden od path check c =
     (case j_new_read (ft_lib env) i t src file_num include_hidden False od of
        Inl err \<Rightarrow> (c, [E_Peer (FM_Error i err 0)])
      | Inr job \<Rightarrow>
          (case (if check then check_file_count_limit (max_files env) (length (j_files (ft_lib env) job)) else Inr ()) of
             Inl msg \<Rightarrow> (c, [E_Peer (FM_Error i msg (- 1))])
           | Inr _ \<Rightarrow> process_new_read_job env job path c))"

definition one_way_job :: "file_action \<Rightarrow> int option" where
  "one_way_job fa =
     (case fa of
        FA_Send i _ _ _ _ \<Rightarrow> Some i
      | FA_RemoveFile i _ _ \<Rightarrow> Some i
      | FA_Rename i _ _ \<Rightarrow> Some i
      | FA_Create i _ \<Rightarrow> Some i
      | FA_RemoveDir i _ _ \<Rightarrow> Some i
      | _ \<Rightarrow> None)"

definition is_printer_send :: "file_action \<Rightarrow> bool" where
  "is_printer_send fa = (case fa of FA_Send _ _ t _ _ \<Rightarrow> t = Printer | _ \<Rightarrow> False)"

definition send_files ::
  "'j ft_env \<Rightarrow> int \<Rightarrow> string \<Rightarrow> job_type \<Rightarrow> int \<Rightarrow> bool \<Rightarrow> 'j ft_conn \<Rightarrow> 'j ft_conn \<times> file_effect list" where
  "send_files env i path t file_num include_hidden c =
     (case t of
        Generic \<Rightarrow>
          let (c, es) = (if need_fs_cm_send_files env
                then (c\<lparr>cm_read_job_ids := insert i (cm_read_job_ids c)\<rparr>,
                      [E_Fs (FS_ReadFile path i file_num include_hidden (ft_id c) (overwrite_detection env))])
                else create_and_start_read_job env i Generic (FilePath path) file_num include_hidden (overwrite_detection env) path True c)
          in (c\<lparr>file_transferred := True\<rparr>, es)
      | Printer \<Rightarrow>
          (case find (\<lambda>(_, p, _). p = path) (printer_data c) of
             None \<Rightarrow> (c, [])
           | Some d \<Rightarrow>
               let c = c\<lparr>printer_data := remove1 d (printer_data c)\<rparr>;
                   (c, es) = create_and_start_read_job env i Printer (MemoryCursor (snd (snd d))) file_num include_hidden True path False c
               in (c\<lparr>file_transferred := True\<rparr>, es)))"

definition all_files :: "'j ft_env \<Rightarrow> int \<Rightarrow> string \<Rightarrow> bool \<Rightarrow> 'j ft_conn \<Rightarrow> file_effect list" where
  "all_files env i path include_hidden c =
     (if need_fs_cm_send_files env then [E_Fs (FS_ReadAllFiles path i include_hidden (ft_id c))]
      else case recursive_files env path include_hidden of
             Inl err \<Rightarrow> [E_Peer (FM_Error i err (- 1))]
           | Inr fs \<Rightarrow>
               (case check_file_count_limit (max_files env) (length fs) of
                  Inl msg \<Rightarrow> [E_Peer (FM_Error i msg (- 1))]
                | Inr _ \<Rightarrow> [E_Peer (FM_Dir i path fs)]))"

definition act_on :: "'j ft_env \<Rightarrow> nat \<Rightarrow> file_action \<Rightarrow> 'j ft_conn \<Rightarrow> 'j ft_conn \<times> file_effect list" where
  "act_on env t fa c =
     (case fa of
        FA_ReadEmptyDirs dir hidden \<Rightarrow> (c, [E_Fs (FS_ReadEmptyDirs dir hidden)])
      | FA_ReadDir dir hidden \<Rightarrow> (c, [E_Fs (FS_ReadDir dir hidden)])
      | FA_AllFiles i path hidden \<Rightarrow> (c, all_files env i path hidden c)
      | FA_Send i path ty file_num hidden \<Rightarrow> send_files env i path ty file_num hidden c
      | FA_Receive i path file_num fs total_size \<Rightarrow>
          (c\<lparr>file_transferred := True\<rparr>,
           E_Fs (FS_NewWrite path i file_num (map (\<lambda>f. (fe_name f, fe_modified f)) fs) (overwrite_detection env) total_size (ft_id c))
           # post_file_audit (audit_on env) RemoteReceive path (get_files_for_audit Generic fs))
      | FA_RemoveDir i path recursive \<Rightarrow>
          (c\<lparr>rm_log := fst (on_remove_dir t i path (rm_log c))\<rparr>, [E_Fs (FS_RemoveDir path i recursive)])
      | FA_RemoveFile i path file_num \<Rightarrow>
          (c\<lparr>rm_log := fst (on_remove_file t i path (rm_log c))\<rparr>, [E_Fs (FS_RemoveFile path i file_num)])
      | FA_Create i path \<Rightarrow> (c, [E_Fs (FS_CreateDir path i), E_Log (L_Create i path)])
      | FA_Cancel i \<Rightarrow>
          (case j_remove (ft_lib env) i (read_jobs c) of
             (js, job) \<Rightarrow>
               (c\<lparr>cm_read_job_ids := cm_read_job_ids c - {i}, read_jobs := js\<rparr>,
                [E_Fs (FS_CancelWrite i), E_Fs (FS_CancelRead i (ft_id c))] @ (case job of Some _ \<Rightarrow> [E_Log (L_Transfer i)] | None \<Rightarrow> [])))
      | FA_SendConfirm i file_num skip blk \<Rightarrow>
          (case j_get (ft_lib env) i (read_jobs c) of
             Some _ \<Rightarrow> (c\<lparr>read_jobs := upd_job (ft_lib env) i (j_confirm (ft_lib env) file_num skip blk) (read_jobs c)\<rparr>,
                        [E_Confirm i file_num skip blk])
           | None \<Rightarrow>
               (c, if i \<in> cm_read_job_ids c then [E_Fs (FS_SendConfirmForRead i file_num skip blk (ft_id c))]
                   else [E_Fs (FS_SendConfirm i file_num skip blk)]))
      | FA_Rename i path new_name \<Rightarrow> (c, [E_Fs (FS_Rename i path new_name), E_Log (L_Rename path new_name)])
      | FA_None \<Rightarrow> (c, []))"

definition handle_file_action :: "'j ft_env \<Rightarrow> nat \<Rightarrow> file_action \<Rightarrow> 'j ft_conn \<Rightarrow> 'j ft_conn \<times> file_effect list" where
  "handle_file_action env t fa c =
     (if \<not> (ft_session c \<or> is_printer_send fa) then (c, [])
      else if delayed_read_dir c \<noteq> None
      then case fa of FA_ReadDir dir hidden \<Rightarrow> (c\<lparr>delayed_read_dir := Some (dir, hidden)\<rparr>, []) | _ \<Rightarrow> (c, [])
      else if one_way env \<and> one_way_job fa \<noteq> None
      then (c, [E_Peer (FM_Error (the (one_way_job fa)) ''one-way-file-transfer-tip'' 0)])
      else act_on env t fa c)"

definition handle_file_response :: "file_response \<Rightarrow> file_effect list" where
  "handle_file_response fr =
     (case fr of
        FR_Block i n d z \<Rightarrow> [E_Fs (FS_WriteBlock i n d z)]
      | FR_Done i n \<Rightarrow> [E_Fs (FS_WriteDone i n)]
      | FR_Digest i n sz modified resume \<Rightarrow> [E_Fs (FS_CheckDigest i n sz modified True resume)]
      | FR_Error i n e \<Rightarrow> [E_Fs (FS_WriteError i n e)]
      | FR_None \<Rightarrow> [])"

text \<open>
  The file timer of the connection's loop. \<open>fs::handle_read_jobs\<close> of the library reads the jobs the
  connection holds itself and writes to the stream of the peer: its result here is the jobs it leaves,
  the messages it sent, and the log entry or the error. The last component is the reason for which the
  connection is closed.
\<close>

definition on_file_timer :: "'j ft_env \<Rightarrow> 'j ft_conn \<Rightarrow> 'j ft_conn \<times> file_effect list \<times> string option" where
  "on_file_timer env c =
     (if read_jobs c = [] then (c, [E_FileTimerIdle], None)
      else case j_handle_reads (ft_lib env) (read_jobs c) of
             (js, ms, r) \<Rightarrow>
               (c\<lparr>read_jobs := js\<rparr>,
                E_Log (L_Jobs (j_serialize (ft_lib env) (read_jobs c))) # map E_Peer ms
                  @ (case r of Inr log \<Rightarrow> if log \<noteq> [] then [E_Log (L_Jobs log)] else [] | Inl _ \<Rightarrow> []),
                case r of Inl e \<Rightarrow> Some e | Inr _ \<Rightarrow> None))"

section \<open>Data of the connection manager at the connection\<close>

definition handle_read_job_init_result ::
  "'j ft_env \<Rightarrow> int \<Rightarrow> (string, bytes) result \<Rightarrow> 'j ft_conn \<Rightarrow> 'j ft_conn \<times> file_effect list" where
  "handle_read_job_init_result env i r c =
     (if i \<notin> cm_read_job_ids c then (c, [])
      else case r of
             Inl e \<Rightarrow> (c\<lparr>cm_read_job_ids := cm_read_job_ids c - {i}\<rparr>, [E_Peer (FM_Error i e 0)])
           | Inr bs \<Rightarrow>
               (case j_parse_dir (ft_lib env) bs of
                  Inl _ \<Rightarrow> (c\<lparr>cm_read_job_ids := cm_read_job_ids c - {i}\<rparr>, [E_Peer (FM_Error i ''internal error'' 0)])
                | Inr (path, fs) \<Rightarrow>
                    (c\<lparr>file_transferred := True\<rparr>,
                     E_Peer (FM_Dir i path fs) # post_file_audit (audit_on env) RemoteSend path (get_files_for_audit Generic fs))))"

definition handle_file_block_from_cm :: "int \<Rightarrow> int \<Rightarrow> bytes \<Rightarrow> bool \<Rightarrow> 'j ft_conn \<Rightarrow> file_effect list" where
  "handle_file_block_from_cm i n d z c = (if i \<notin> cm_read_job_ids c then [] else [E_Peer (FM_Block i n d z)])"

definition handle_file_read_done :: "int \<Rightarrow> int \<Rightarrow> 'j ft_conn \<Rightarrow> 'j ft_conn \<times> file_effect list" where
  "handle_file_read_done i n c =
     (if i \<notin> cm_read_job_ids c then (c, [])
      else (c\<lparr>cm_read_job_ids := cm_read_job_ids c - {i}\<rparr>, [E_Peer (FM_Done i n)]))"

definition handle_file_read_error :: "int \<Rightarrow> int \<Rightarrow> string \<Rightarrow> 'j ft_conn \<Rightarrow> 'j ft_conn \<times> file_effect list" where
  "handle_file_read_error i n e c =
     (if i \<notin> cm_read_job_ids c then (c, [])
      else (c\<lparr>cm_read_job_ids := cm_read_job_ids c - {i}\<rparr>, [E_Peer (FM_Error i e n)]))"

definition handle_file_digest_from_cm :: "int \<Rightarrow> int \<Rightarrow> nat \<Rightarrow> nat \<Rightarrow> bool \<Rightarrow> 'j ft_conn \<Rightarrow> file_effect list" where
  "handle_file_digest_from_cm i n modified sz resume c =
     (if i \<notin> cm_read_job_ids c then [] else [E_Peer (FM_Digest i n modified sz False resume)])"

definition handle_all_files_result :: "'j ft_env \<Rightarrow> int \<Rightarrow> string \<Rightarrow> (string, bytes) result \<Rightarrow> file_effect list" where
  "handle_all_files_result env i path r =
     (case r of
        Inl e \<Rightarrow> [E_Peer (FM_Error i e (- 1))]
      | Inr bs \<Rightarrow>
          (case j_parse_dir (ft_lib env) bs of
             Inr (p, fs) \<Rightarrow> [E_Peer (FM_Dir i p fs)]
           | Inl e \<Rightarrow> [E_Peer (FM_Error i (''deserialize failed for '' @ path @ '': '' @ e) (- 1))]))"

definition on_cm_data :: "'j ft_env \<Rightarrow> cm_data \<Rightarrow> 'j ft_conn \<Rightarrow> 'j ft_conn \<times> file_effect list" where
  "on_cm_data env d c =
     (case d of
        CM_ReadJobInit i _ _ cid r \<Rightarrow> if cid = ft_id c then handle_read_job_init_result env i r c else (c, [])
      | CM_Block i n d z cid \<Rightarrow> (c, if cid = ft_id c then handle_file_block_from_cm i n d z c else [])
      | CM_ReadDone i n cid \<Rightarrow> if cid = ft_id c then handle_file_read_done i n c else (c, [])
      | CM_ReadError i n e cid \<Rightarrow> if cid = ft_id c then handle_file_read_error i n e c else (c, [])
      | CM_Digest i n modified sz resume cid \<Rightarrow> (c, if cid = ft_id c then handle_file_digest_from_cm i n modified sz resume c else [])
      | CM_AllFiles i cid path r \<Rightarrow> (c, if cid = ft_id c then handle_all_files_result env i path r else [])
      | CM_Raw m \<Rightarrow> (c, [E_Peer m]))"

section \<open>The side of the connection manager\<close>

text \<open>
  Its jobs, and what it reads of the file system: the results of the operations that change it, of
  the listings, and of the recursive listing.
\<close>

record 'j cm_files =
  write_jobs :: "'j list"
  cm_read_jobs :: "'j list"

datatype fs_op = Op_RemoveDir string bool | Op_RemoveFile string | Op_CreateDir string | Op_Rename string string

datatype cm_effect =
    C_Data cm_data
  | C_Log int bool bool string
  | C_Op fs_op
  | C_RemoveDownload int
  | C_ModifyTime int

record 'j cm_env =
  cm_lib :: "'j jobs_lib"
  cm_max_files :: nat
  cm_recursive_files :: "string \<Rightarrow> bool \<Rightarrow> (string, file_entry list) result"
  op_result :: "fs_op \<Rightarrow> (string, unit) result"
  listing_ok :: "string \<Rightarrow> bool \<Rightarrow> bool"
  empty_dirs_ok :: "string \<Rightarrow> bool \<Rightarrow> bool"

definition handle_result :: "(string, unit) result \<Rightarrow> int \<Rightarrow> int \<Rightarrow> cm_effect" where
  "handle_result r i n = C_Data (CM_Raw (case r of Inl e \<Rightarrow> FM_Error i e n | Inr _ \<Rightarrow> FM_Done i n))"

definition start_read_job ::
  "'j cm_env \<Rightarrow> string \<Rightarrow> int \<Rightarrow> bool \<Rightarrow> int \<Rightarrow> int \<Rightarrow> bool \<Rightarrow> 'j cm_files \<Rightarrow> 'j cm_files \<times> cm_effect list" where
  "start_read_job env path file_num include_hidden i conn_id od m =
     (let lib = cm_lib env; reply = (\<lambda>r. [C_Data (CM_ReadJobInit i file_num include_hidden conn_id r)])
      in case j_new_read lib i Generic (FilePath path) file_num include_hidden True od of
           Inl e \<Rightarrow> (m, reply (Inl (''validation failed: '' @ e)))
         | Inr job \<Rightarrow>
             (case check_file_count_limit (cm_max_files env) (length (j_files lib job)) of
                Inl msg \<Rightarrow> (m, reply (Inl msg))
              | Inr _ \<Rightarrow>
                  (case j_dir_bytes lib i path (j_files lib job) of
                     Inl e \<Rightarrow> (m, reply (Inl (''serialize failed: '' @ e)))
                   | Inr bs \<Rightarrow> (m\<lparr>cm_read_jobs := cm_read_jobs m @ [j_set_conn lib conn_id job]\<rparr>, reply (Inr bs)))))"

definition read_all_files :: "'j cm_env \<Rightarrow> string \<Rightarrow> bool \<Rightarrow> int \<Rightarrow> int \<Rightarrow> cm_effect" where
  "read_all_files env path include_hidden i conn_id =
     C_Data (CM_AllFiles i conn_id path
       (case cm_recursive_files env path include_hidden of
          Inl e \<Rightarrow> Inl e
        | Inr fs \<Rightarrow>
            (case check_file_count_limit (cm_max_files env) (length fs) of
               Inl msg \<Rightarrow> Inl msg
             | Inr _ \<Rightarrow> map_sum (\<lambda>e. ''serialize failed: '' @ e) id (j_dir_bytes (cm_lib env) i path fs))))"

definition check_digest :: "'j cm_env \<Rightarrow> int \<Rightarrow> int \<Rightarrow> nat \<Rightarrow> nat \<Rightarrow> bool \<Rightarrow> bool \<Rightarrow> 'j cm_files \<Rightarrow> 'j cm_files \<times> cm_effect list" where
  "check_digest env i n sz modified is_upload is_resume m =
     (let lib = cm_lib env
      in case j_get lib i (write_jobs m) of
           None \<Rightarrow> (m, [])
         | Some k \<Rightarrow>
             let job = write_jobs m ! k
             in if n < 0 \<or> nat n \<ge> length (j_files lib job) then (m, [])
                else case j_target lib job (j_files lib job ! nat n) of
                       None \<Rightarrow> (m, [])
                     | Some path \<Rightarrow>
                         (case j_need_confirm lib is_resume path sz modified of
                            Inl e \<Rightarrow> (m, [C_Data (CM_Raw (FM_Error i e n))])
                          | Inr r \<Rightarrow>
                              (m\<lparr>write_jobs := (write_jobs m)[k := j_set_digest lib sz modified job]\<rparr>,
                               [C_Data (CM_Raw (case r of
                                   IsSame \<Rightarrow> FM_Confirm i n True
                                 | NeedConfirm sz modified \<Rightarrow> FM_Digest i n modified sz is_upload False
                                 | NoSuchFile \<Rightarrow> FM_Confirm i n False))])))"

text \<open>
  A negative file number is extended to a very large index, which is out of range. The recursive
  removal is one operation of the file system.
\<close>

definition handle_fs :: "'j cm_env \<Rightarrow> fs_cmd \<Rightarrow> 'j cm_files \<Rightarrow> 'j cm_files \<times> cm_effect list" where
  "handle_fs env cmd m =
     (let lib = cm_lib env
      in case cmd of
           FS_ReadEmptyDirs dir hidden \<Rightarrow> (m, if empty_dirs_ok env dir hidden then [C_Data (CM_Raw (FM_EmptyDirs dir))] else [])
         | FS_ReadDir dir hidden \<Rightarrow> (m, if listing_ok env dir hidden then [C_Data (CM_Raw (FM_Listing dir))] else [])
         | FS_RemoveDir path i recursive \<Rightarrow>
             (m, [C_Op (Op_RemoveDir path recursive), handle_result (op_result env (Op_RemoveDir path recursive)) i 0])
         | FS_RemoveFile path i n \<Rightarrow> (m, [C_Op (Op_RemoveFile path), handle_result (op_result env (Op_RemoveFile path)) i n])
         | FS_CreateDir path i \<Rightarrow> (m, [C_Op (Op_CreateDir path), handle_result (op_result env (Op_CreateDir path)) i 0])
         | FS_Rename i path new_name \<Rightarrow> (m, [C_Op (Op_Rename path new_name), handle_result (op_result env (Op_Rename path new_name)) i 0])
         | FS_NewWrite path i file_num fs od total_size conn_id \<Rightarrow>
             (case j_set_files lib (map (\<lambda>f. \<lparr>fe_name = fst f, fe_size = 0, fe_modified = snd f\<rparr>) fs) (j_new_write lib i (FilePath path) file_num od) of
                (_, Inl e) \<Rightarrow> (m, [C_Data (CM_Raw (FM_Error i e file_num))])
              | (job, Inr _) \<Rightarrow> (m\<lparr>write_jobs := write_jobs m @ [j_set_conn lib conn_id (j_set_total lib total_size job)]\<rparr>, []))
         | FS_CancelWrite i \<Rightarrow>
             (case j_remove lib i (write_jobs m) of
                (js, None) \<Rightarrow> (m\<lparr>write_jobs := js\<rparr>, [])
              | (js, Some _) \<Rightarrow> (m\<lparr>write_jobs := js\<rparr>, [C_RemoveDownload i, C_Log i False True []]))
         | FS_WriteDone i n \<Rightarrow>
             (case j_remove lib i (write_jobs m) of
                (js, None) \<Rightarrow> (m\<lparr>write_jobs := js\<rparr>, [])
              | (js, Some _) \<Rightarrow> (m\<lparr>write_jobs := js\<rparr>, [C_ModifyTime i, C_Data (CM_Raw (FM_Done i n)), C_Log i True False []]))
         | FS_WriteError i n e \<Rightarrow>
             (case j_remove lib i (write_jobs m) of
                (js, None) \<Rightarrow> (m\<lparr>write_jobs := js\<rparr>, [])
              | (js, Some job) \<Rightarrow> (m\<lparr>write_jobs := js\<rparr>, [C_Log i False False e, C_Data (CM_Raw (FM_Error (j_id lib job) e n))]))
         | FS_WriteBlock i n d z \<Rightarrow>
             (case j_get lib i (write_jobs m) of
                None \<Rightarrow> (m, [])
              | Some k \<Rightarrow>
                  (case j_write lib n d z (write_jobs m ! k) of
                     (job, r) \<Rightarrow> (m\<lparr>write_jobs := (write_jobs m)[k := job]\<rparr>,
                        case r of Inl e \<Rightarrow> [C_Data (CM_Raw (FM_Error i e n))] | Inr _ \<Rightarrow> [])))
         | FS_CheckDigest i n sz modified is_upload is_resume \<Rightarrow> check_digest env i n sz modified is_upload is_resume m
         | FS_SendConfirm i n skip blk \<Rightarrow> (m\<lparr>write_jobs := upd_job lib i (j_confirm lib n skip blk) (write_jobs m)\<rparr>, [])
         | FS_ReadFile path i file_num hidden conn_id od \<Rightarrow> start_read_job env path file_num hidden i conn_id od m
         | FS_CancelRead i _ \<Rightarrow>
             (case j_remove lib i (cm_read_jobs m) of
                (js, None) \<Rightarrow> (m\<lparr>cm_read_jobs := js\<rparr>, [])
              | (js, Some _) \<Rightarrow> (m\<lparr>cm_read_jobs := js\<rparr>, [C_Log i False True []]))
         | FS_SendConfirmForRead i _ skip blk _ \<Rightarrow>
             (m\<lparr>cm_read_jobs := upd_job lib i (\<lambda>job. j_confirm lib (j_file_num lib job) skip blk job) (cm_read_jobs m)\<rparr>, [])
         | FS_ReadAllFiles path i hidden conn_id \<Rightarrow> (m, [read_all_files env path hidden i conn_id]))"

text \<open>One tick: the first job that is not the last one and whose stream opens reads one block.\<close>

definition init_read_job_for_cm :: "'j jobs_lib \<Rightarrow> int \<Rightarrow> 'j \<Rightarrow> 'j \<times> (string, cm_effect list) result" where
  "init_read_job_for_cm lib conn_id job =
     (case j_init lib job of
        (job, Inl e) \<Rightarrow> (job, Inl e)
      | (job, Inr None) \<Rightarrow> (job, Inr [])
      | (job, Inr (Some (modified, sz))) \<Rightarrow>
          (job, Inr [C_Data (CM_Digest (j_id lib job) (j_file_num lib job) modified sz (j_is_resume lib job) conn_id)]))"

definition read_one :: "'j jobs_lib \<Rightarrow> int \<Rightarrow> 'j \<Rightarrow> 'j \<times> cm_effect list \<times> bool" where
  "read_one lib conn_id job =
     (case j_read lib job of
        (job, Inl e) \<Rightarrow> (job, [C_Data (CM_ReadError (j_id lib job) (j_file_num lib job) e conn_id)], True)
      | (job, Inr (Some (i, n, d, z))) \<Rightarrow> (job, [C_Data (CM_Block i n d z conn_id)], False)
      | (job, Inr None) \<Rightarrow>
          if j_completed lib job
          then (job, [C_Data (case j_error lib job of
                        Some e \<Rightarrow> CM_ReadError (j_id lib job) (j_file_num lib job) e conn_id
                      | None \<Rightarrow> CM_ReadDone (j_id lib job) (j_file_num lib job) conn_id)], True)
          else (job, [], False))"

fun tick_jobs :: "'j jobs_lib \<Rightarrow> int \<Rightarrow> 'j list \<Rightarrow> 'j list \<times> cm_effect list \<times> int list" where
  "tick_jobs lib conn_id [] = ([], [], [])"
| "tick_jobs lib conn_id (job # jobs) =
     (if j_is_last lib job then let (js, es, fin) = tick_jobs lib conn_id jobs in (job # js, es, fin)
      else case init_read_job_for_cm lib conn_id job of
             (job, Inl e) \<Rightarrow>
               let (js, es, fin) = tick_jobs lib conn_id jobs
               in (job # js, C_Data (CM_ReadError (j_id lib job) (j_file_num lib job) e conn_id) # es, j_id lib job # fin)
           | (job, Inr es) \<Rightarrow>
               let (job, es', over) = read_one lib conn_id job
               in (job # jobs, es @ es', if over then [j_id lib job] else []))"

definition handle_read_jobs_tick :: "'j jobs_lib \<Rightarrow> int \<Rightarrow> 'j list \<Rightarrow> 'j list \<times> cm_effect list" where
  "handle_read_jobs_tick lib conn_id jobs =
     (let (js, es, fin) = tick_jobs lib conn_id jobs in (fold (\<lambda>i js. fst (j_remove lib i js)) fin js, es))"

end
