(* ===== verification/FileTransferRuns.thy ===== *)
theory FileTransferRuns
  imports FileTransfers "HOL-Library.Sublist" "HOL-Library.Multiset"
begin

text \<open>
  A file session as two processes: the connection and the connection manager, with the queue of
  commands to the manager and the queue of its data back. The steps are the handlers of
  \<^verbatim>\<open>FileTransfers\<close>; the ghost lists record what was sent to the peer and which operations were run
  on the file system. The invariants hold in every order of the steps. The jobs the connection holds
  itself are read and sent by the library, at the steps of the file timer.
\<close>

section \<open>Two processes and their queues\<close>

record 'j ft_sys =
  fconn :: "'j ft_conn"
  fcm :: "'j cm_files"
  to_cm :: "fs_cmd list"
  to_conn :: "cm_data list"
  to_peer :: "file_msg list"
  fs_ops :: "fs_op list"
  conn_over :: bool

definition cmds_of :: "file_effect list \<Rightarrow> fs_cmd list" where
  "cmds_of es = List.map_filter (\<lambda>e. case e of E_Fs c \<Rightarrow> Some c | _ \<Rightarrow> None) es"

definition msgs_of :: "file_effect list \<Rightarrow> file_msg list" where
  "msgs_of es = List.map_filter (\<lambda>e. case e of E_Peer m \<Rightarrow> Some m | _ \<Rightarrow> None) es"

definition data_of :: "cm_effect list \<Rightarrow> cm_data list" where
  "data_of es = List.map_filter (\<lambda>e. case e of C_Data d \<Rightarrow> Some d | _ \<Rightarrow> None) es"

definition ops_of :: "cm_effect list \<Rightarrow> fs_op list" where
  "ops_of es = List.map_filter (\<lambda>e. case e of C_Op x \<Rightarrow> Some x | _ \<Rightarrow> None) es"

text \<open>A block is the number of its transfer, the number of its file, its bytes and whether they are compressed.\<close>

fun peer_blocks :: "file_msg list \<Rightarrow> (int \<times> int \<times> bytes \<times> bool) list" where
  "peer_blocks [] = []"
| "peer_blocks (FM_Block i n d z # ms) = (i, n, d, z) # peer_blocks ms"
| "peer_blocks (_ # ms) = peer_blocks ms"

fun data_blocks :: "cm_data list \<Rightarrow> (int \<times> int \<times> bytes \<times> bool) list" where
  "data_blocks [] = []"
| "data_blocks (CM_Block i n d z _ # ds) = (i, n, d, z) # data_blocks ds"
| "data_blocks (_ # ds) = data_blocks ds"

definition blocks_for :: "int \<Rightarrow> (int \<times> int \<times> bytes \<times> bool) list \<Rightarrow> (int \<times> bytes \<times> bool) list" where
  "blocks_for i bs = map snd (filter (\<lambda>b. fst b = i) bs)"

datatype ft_op = Act nat file_action | Response file_response | FileTimer | RunCommand | ReadTick | Deliver

text \<open>The steps of the loop of the connection, which end when it is closed, and those of the manager.\<close>

definition by_connection :: "ft_op \<Rightarrow> bool" where
  "by_connection x = (case x of RunCommand \<Rightarrow> False | ReadTick \<Rightarrow> False | _ \<Rightarrow> True)"

definition ft_apply :: "'j ft_env \<Rightarrow> 'j cm_env \<Rightarrow> ft_op \<Rightarrow> 'j ft_sys \<Rightarrow> 'j ft_sys" where
  "ft_apply env cenv x S =
     (if conn_over S \<and> by_connection x then S
      else case x of
        Act t fa \<Rightarrow>
          (case handle_file_action env t fa (fconn S) of
             (c, es) \<Rightarrow> S\<lparr>fconn := c, to_cm := to_cm S @ cmds_of es, to_peer := to_peer S @ msgs_of es\<rparr>)
      | Response fr \<Rightarrow> S\<lparr>to_cm := to_cm S @ cmds_of (handle_file_response fr)\<rparr>
      | FileTimer \<Rightarrow>
          (case on_file_timer env (fconn S) of
             (c, es, r) \<Rightarrow> S\<lparr>fconn := c, to_cm := to_cm S @ cmds_of es, to_peer := to_peer S @ msgs_of es, conn_over := (r \<noteq> None)\<rparr>)
      | RunCommand \<Rightarrow>
          (case to_cm S of
             [] \<Rightarrow> S
           | cmd # q \<Rightarrow>
               (case handle_fs cenv cmd (fcm S) of
                  (m, es) \<Rightarrow> S\<lparr>to_cm := q, fcm := m, to_conn := to_conn S @ data_of es, fs_ops := fs_ops S @ ops_of es\<rparr>))
      | ReadTick \<Rightarrow>
          (case handle_read_jobs_tick (cm_lib cenv) (ft_id (fconn S)) (cm_read_jobs (fcm S)) of
             (js, es) \<Rightarrow> S\<lparr>fcm := (fcm S)\<lparr>cm_read_jobs := js\<rparr>, to_conn := to_conn S @ data_of es\<rparr>)
      | Deliver \<Rightarrow>
          (case to_conn S of
             [] \<Rightarrow> S
           | d # q \<Rightarrow>
               (case on_cm_data env d (fconn S) of
                  (c, es) \<Rightarrow> S\<lparr>to_conn := q, fconn := c, to_cm := to_cm S @ cmds_of es, to_peer := to_peer S @ msgs_of es\<rparr>)))"

definition ft_start :: "'j ft_conn \<Rightarrow> 'j ft_sys" where
  "ft_start c = \<lparr>fconn = c, fcm = \<lparr>write_jobs = [], cm_read_jobs = []\<rparr>, to_cm = [], to_conn = [], to_peer = [], fs_ops = [], conn_over = False\<rparr>"

inductive ft_steps :: "'j ft_env \<Rightarrow> 'j cm_env \<Rightarrow> 'j ft_sys \<Rightarrow> ft_op list \<Rightarrow> 'j ft_sys \<Rightarrow> bool" for env cenv S where
  none: "ft_steps env cenv S [] S"
| more: "ft_steps env cenv S xs S' \<Longrightarrow> ft_steps env cenv S (xs @ [x]) (ft_apply env cenv x S')"

lemma steps_foldl: "ft_steps env cenv S xs S' \<longleftrightarrow> S' = foldl (\<lambda>S x. ft_apply env cenv x S) S xs"
proof
  show "S' = foldl (\<lambda>S x. ft_apply env cenv x S) S xs" if "ft_steps env cenv S xs S'"
    using that by (induction rule: ft_steps.induct) simp_all
  have "ft_steps env cenv S xs (foldl (\<lambda>S x. ft_apply env cenv x S) S xs)"
    by (induction xs rule: rev_induct) (simp_all add: ft_steps.intros)
  then show "S' = foldl (\<lambda>S x. ft_apply env cenv x S) S xs \<Longrightarrow> ft_steps env cenv S xs S'" by simp
qed

section \<open>What the library promises of its jobs\<close>

text \<open>
  The number of a job is the one it was made with, and reading the jobs of the connection leaves only
  jobs it was given and sends blocks of those only.
\<close>

definition jobs_keep_ids :: "'j jobs_lib \<Rightarrow> bool" where
  "jobs_keep_ids lib \<longleftrightarrow>
     (\<forall>i t src n hid v od job. j_new_read lib i t src n hid v od = Inr job \<longrightarrow> j_id lib job = i)
     \<and> (\<forall>k job. j_id lib (j_set_conn lib k job) = j_id lib job) \<and> (\<forall>job. j_id lib (j_set_remote lib job) = j_id lib job)
     \<and> (\<forall>n skip blk job. j_id lib (j_confirm lib n skip blk job) = j_id lib job)
     \<and> (\<forall>js. j_id lib ` set (fst (j_handle_reads lib js)) \<subseteq> j_id lib ` set js
           \<and> fst ` set (peer_blocks (fst (snd (j_handle_reads lib js)))) \<subseteq> j_id lib ` set js)"


definition has_id :: "'j jobs_lib \<Rightarrow> int \<Rightarrow> 'j \<Rightarrow> bool" where
  "has_id lib i job \<longleftrightarrow> j_id lib job = i"

lemma remove_cases:
  assumes "jobs_lib_ok lib"
  obtains k where "k < length js" "has_id lib i (js ! k)" "j_get lib i js = Some k" "j_remove lib i js = (take k js @ drop (Suc k) js, Some (js ! k))"
  | "\<not> list_ex (has_id lib i) js" "j_get lib i js = None" "j_remove lib i js = (js, None)"
proof -
  from assms have "case j_get lib i js of
        Some k \<Rightarrow> k < length js \<and> j_id lib (js ! k) = i \<and> j_remove lib i js = (take k js @ drop (Suc k) js, Some (js ! k))
      | None \<Rightarrow> i \<notin> j_id lib ` set js \<and> j_remove lib i js = (js, None)"
    by (simp add: jobs_lib_ok_def)
  with that show ?thesis by (cases "j_get lib i js") (auto simp: has_id_def list_ex_iff)
qed

lemma remove_subseq:
  assumes "jobs_lib_ok lib"
  shows "subseq (fst (j_remove lib i js)) js"
proof (cases rule: remove_cases [OF assms, of js i])
  case (1 k)
  have "subseq (take k js @ drop (Suc k) js) (take k js @ js ! k # drop (Suc k) js)" by (rule list_emb_append_mono) auto
  with 1 show ?thesis by (simp add: id_take_nth_drop [symmetric])
qed simp

lemma removed_is_gone:
  assumes "jobs_lib_ok lib" "length (filter (has_id lib i) js) \<le> 1"
  shows "\<not> list_ex (has_id lib i) (fst (j_remove lib i js))"
proof (cases rule: remove_cases [OF assms(1), of js i])
  case (1 k)
  have "filter (has_id lib i) js = filter (has_id lib i) (take k js) @ js ! k # filter (has_id lib i) (drop (Suc k) js)"
    using 1 by (subst id_take_nth_drop [OF 1(1)]) simp
  with assms(2) have "filter (has_id lib i) (take k js) = []" "filter (has_id lib i) (drop (Suc k) js) = []" by simp_all
  with 1 show ?thesis by (simp add: filter_empty_conv list_ex_iff) blast
qed simp

lemma upd_split:
  assumes "jobs_lib_ok lib"
  obtains ys zs job where "js = ys @ job # zs" "upd_job lib i g js = ys @ g job # zs" | "upd_job lib i g js = js"
proof (cases rule: remove_cases [OF assms, of js i])
  case (1 k)
  from that(1) [OF id_take_nth_drop [OF 1(1)]] 1 show ?thesis by (simp add: upd_job_def upd_conv_take_nth_drop)
next
  case 2
  with that(2) show ?thesis by (simp add: upd_job_def)
qed

section \<open>What the steps send\<close>

lemma map_filter_append [simp]: "List.map_filter f (xs @ ys) = List.map_filter f xs @ List.map_filter f ys"
  by (simp add: List.map_filter_def)

lemma effects_simps [simp]:
  "cmds_of [] = []" "msgs_of [] = []" "data_of [] = []" "ops_of [] = []"
  "cmds_of (e # es) = (case e of E_Fs c \<Rightarrow> [c] | _ \<Rightarrow> []) @ cmds_of es" "msgs_of (e # es) = (case e of E_Peer m \<Rightarrow> [m] | _ \<Rightarrow> []) @ msgs_of es"
  "data_of (a # as) = (case a of C_Data d \<Rightarrow> [d] | _ \<Rightarrow> []) @ data_of as" "ops_of (a # as) = (case a of C_Op x \<Rightarrow> [x] | _ \<Rightarrow> []) @ ops_of as"
  "cmds_of (es @ es') = cmds_of es @ cmds_of es'" "msgs_of (es @ es') = msgs_of es @ msgs_of es'"
  "data_of (as @ as') = data_of as @ data_of as'" "ops_of (as @ as') = ops_of as @ ops_of as'"
  by (auto simp: cmds_of_def msgs_of_def data_of_def ops_of_def List.map_filter_def split: file_effect.split cm_effect.split)

lemma peer_effects [simp]: "cmds_of (map E_Peer ms) = []" "msgs_of (map E_Peer ms) = ms"
  by (induction ms) simp_all

lemma blocks_append [simp]: "peer_blocks (xs @ ys) = peer_blocks xs @ peer_blocks ys" "data_blocks (ds @ ds') = data_blocks ds @ data_blocks ds'"
  by (induction xs rule: peer_blocks.induct; simp) (induction ds rule: data_blocks.induct; simp)

lemma data_blocks_Cons: "data_blocks (d # ds) = data_blocks [d] @ data_blocks ds"
  by (simp only: append_Cons append_Nil flip: blocks_append)

lemma blocks_for_simps [simp]:
  "blocks_for i [] = []" "blocks_for i (bs @ bs') = blocks_for i bs @ blocks_for i bs'"
  "blocks_for i (b # bs) = (if fst b = i then [snd b] else []) @ blocks_for i bs"
  by (simp_all add: blocks_for_def)

lemma blocks_for_none: "i \<notin> fst ` set bs \<Longrightarrow> blocks_for i bs = []"
  by (auto simp: blocks_for_def filter_empty_conv)

lemma audit_effects [simp]: "cmds_of (post_file_audit b ty p fs) = []" "msgs_of (post_file_audit b ty p fs) = []"
  by (simp_all add: post_file_audit_def Let_def)

text \<open>The actions send the peer no blocks themselves, and the manager sends blocks only from its ticks.\<close>

lemma create_job_effects:
  "cmds_of (snd (create_and_start_read_job env i t src n hid od path chk c)) = []"
  "peer_blocks (msgs_of (snd (create_and_start_read_job env i t src n hid od path chk c))) = []"
  by (auto simp: create_and_start_read_job_def process_new_read_job_def Let_def split: sum.split)

lemma send_files_effects: "peer_blocks (msgs_of (snd (send_files env i path ty n hid c))) = []"
  using create_job_effects(2) by (auto simp: send_files_def Let_def case_prod_beta split: job_type.split option.split)

lemma act_no_blocks: "peer_blocks (msgs_of (snd (handle_file_action env t fa c))) = []"
  using send_files_effects
  by (auto simp: handle_file_action_def act_on_def all_files_def split: file_action.split option.split sum.split prod.split)

definition no_raw_block :: "cm_data \<Rightarrow> bool" where
  "no_raw_block d = (case d of CM_Raw m \<Rightarrow> peer_blocks [m] = [] | _ \<Rightarrow> True)"

lemma handle_fs_data:
  "list_all no_raw_block (data_of (snd (handle_fs cenv cmd m)))" "data_blocks (data_of (snd (handle_fs cenv cmd m))) = []"
  by (cases cmd; auto simp: handle_fs_def Let_def handle_result_def check_digest_def start_read_job_def read_all_files_def no_raw_block_def
      split: sum.split option.split prod.split digest_result.split)+

lemma tick_data: "list_all no_raw_block (data_of (snd (handle_read_jobs_tick lib i js)))"
proof -
  have "list_all no_raw_block (data_of (fst (snd (tick_jobs lib i js))))"
    by (induction lib i js rule: tick_jobs.induct)
      (auto simp: init_read_job_for_cm_def read_one_def Let_def no_raw_block_def split: prod.splits sum.splits option.splits if_splits)
  then show ?thesis by (simp add: handle_read_jobs_tick_def Let_def case_prod_beta)
qed

text \<open>The data of the manager at the connection.\<close>

lemmas cm_data_defs = on_cm_data_def handle_read_job_init_result_def handle_file_block_from_cm_def handle_file_read_done_def
  handle_file_read_error_def handle_file_digest_from_cm_def handle_all_files_result_def

lemma deliver_blocks:
  "no_raw_block d \<Longrightarrow> peer_blocks (msgs_of (snd (on_cm_data env d c))) = data_blocks [d] \<or> peer_blocks (msgs_of (snd (on_cm_data env d c))) = []"
  by (cases d) (auto simp: cm_data_defs no_raw_block_def split: sum.split)

lemma deliver_cancelled:
  assumes "no_raw_block d" "i \<notin> cm_read_job_ids c"
  shows "i \<notin> cm_read_job_ids (fst (on_cm_data env d c))" "i \<notin> fst ` set (peer_blocks (msgs_of (snd (on_cm_data env d c))))"
  using assms by (cases d; auto simp: cm_data_defs no_raw_block_def split: sum.split)+

lemma deliver_idle:
  "read_jobs (fst (on_cm_data env d c)) = read_jobs c" "cmds_of (snd (on_cm_data env d c)) = []"
  "cm_read_job_ids c = {} \<Longrightarrow> cm_read_job_ids (fst (on_cm_data env d c)) = {}"
  by (cases d; auto simp: cm_data_defs split: sum.split)+

lemma raw_step: "list_all no_raw_block (to_conn S) \<Longrightarrow> list_all no_raw_block (to_conn (ft_apply env cenv x S))"
  using handle_fs_data(1) [of cenv _ "fcm S"] tick_data [of "cm_lib cenv" "ft_id (fconn S)" "cm_read_jobs (fcm S)"]
  by (cases x) (auto simp: ft_apply_def case_prod_beta split: list.split)

lemma raw_steps: "ft_steps env cenv S xs S' \<Longrightarrow> list_all no_raw_block (to_conn S) \<Longrightarrow> list_all no_raw_block (to_conn S')"
  by (induction rule: ft_steps.induct) (simp_all add: raw_step)

lemma raw_start: "ft_steps env cenv (ft_start c) xs S \<Longrightarrow> list_all no_raw_block (to_conn S)"
  by (erule raw_steps) (simp add: ft_start_def)

section \<open>Numbers of transfers that the peer does not ask for\<close>

definition sends_job :: "int \<Rightarrow> ft_op \<Rightarrow> bool" where
  "sends_job i x = (case x of Act _ (FA_Send j _ _ _ _) \<Rightarrow> j = i | _ \<Rightarrow> False)"

text \<open>The connection holds no job of that number itself.\<close>

definition holds_none :: "'j ft_env \<Rightarrow> int \<Rightarrow> 'j ft_conn \<Rightarrow> bool" where
  "holds_none env i c \<longleftrightarrow> \<not> list_ex (has_id (ft_lib env) i) (read_jobs c)"

lemma create_job_ids: "cm_read_job_ids (fst (create_and_start_read_job env i t src n hid od path chk c)) = cm_read_job_ids c"
  by (auto simp: create_and_start_read_job_def process_new_read_job_def Let_def split: sum.split)

lemma act_ids:
  assumes "i \<notin> cm_read_job_ids c" "\<not> sends_job i (Act t fa)"
  shows "i \<notin> cm_read_job_ids (fst (handle_file_action env t fa c))"
  using assms
  by (auto simp: create_job_ids handle_file_action_def act_on_def send_files_def sends_job_def Let_def case_prod_beta split: file_action.split option.split job_type.split prod.split)

lemma create_job_holds:
  assumes "jobs_keep_ids (ft_lib env)" "holds_none env i c" "j \<noteq> i"
  shows "holds_none env i (fst (create_and_start_read_job env j t src n hid od path chk c))"
proof -
  have new: "j_id (ft_lib env) (j_set_conn (ft_lib env) k (j_set_remote (ft_lib env) job)) = j"
    if "j_new_read (ft_lib env) j t src n hid False od = Inr job" for job k
    using assms(1) that unfolding jobs_keep_ids_def by (metis (no_types, lifting))
  with assms(2,3) show ?thesis
    by (auto simp: holds_none_def has_id_def create_and_start_read_job_def process_new_read_job_def Let_def split: sum.split)
qed

lemma send_holds:
  assumes "jobs_keep_ids (ft_lib env)" "holds_none env i c" "j \<noteq> i"
  shows "holds_none env i (fst (send_files env j path ty n hid c))"
proof -
  have upd: "holds_none env i (d\<lparr>file_transferred := b\<rparr>) = holds_none env i d" "holds_none env i (d\<lparr>cm_read_job_ids := I\<rparr>) = holds_none env i d"
    "holds_none env i (d\<lparr>printer_data := p\<rparr>) = holds_none env i d" for d b I p
    by (simp_all add: holds_none_def)
  with assms create_job_holds [OF assms(1) _ assms(3)] show ?thesis
    by (auto simp: send_files_def Let_def case_prod_beta split: job_type.split option.split)
qed

lemma upd_holds:
  assumes "jobs_lib_ok lib" "jobs_keep_ids lib"
  shows "list_ex (has_id lib i) (upd_job lib j (j_confirm lib n skip blk) js) = list_ex (has_id lib i) js"
  using assms(2) by (cases rule: upd_split [OF assms(1), of js j "j_confirm lib n skip blk"]) (auto simp: jobs_keep_ids_def has_id_def)

lemma subseq_list_ex: "subseq xs ys \<Longrightarrow> \<not> list_ex P ys \<Longrightarrow> \<not> list_ex P xs"
  by (induction rule: list_emb.induct) auto

lemma act_holds:
  assumes "jobs_lib_ok (ft_lib env)" "jobs_keep_ids (ft_lib env)" "holds_none env i c" "\<not> sends_job i (Act t fa)"
  shows "holds_none env i (fst (handle_file_action env t fa c))"
proof -
  have "holds_none env i (fst (act_on env t fa c))"
  proof (cases fa)
    case (FA_Send j path ty n hid)
    with assms send_holds [OF assms(2,3)] show ?thesis by (simp add: act_on_def sends_job_def)
  next
    case (FA_Cancel j)
    with subseq_list_ex [OF remove_subseq [OF assms(1)]] assms(3) show ?thesis
      by (simp add: act_on_def holds_none_def case_prod_beta)
  next
    case (FA_SendConfirm j n skip blk)
    with assms(3) upd_holds [OF assms(1,2)] show ?thesis by (simp add: act_on_def holds_none_def split: option.split)
  qed (use assms(3) in \<open>simp_all add: act_on_def holds_none_def\<close>)
  with assms(3) show ?thesis by (auto simp: handle_file_action_def holds_none_def split: file_action.split)
qed

lemma timer_holds:
  assumes "jobs_keep_ids (ft_lib env)" "holds_none env i c"
  shows "holds_none env i (fst (on_file_timer env c))" "blocks_for i (peer_blocks (msgs_of (fst (snd (on_file_timer env c))))) = []"
    "cmds_of (fst (snd (on_file_timer env c))) = []" "cm_read_job_ids (fst (on_file_timer env c)) = cm_read_job_ids c"
proof -
  let ?r = "j_handle_reads (ft_lib env) (read_jobs c)" and ?ids = "j_id (ft_lib env) ` set (read_jobs c)"
  have law: "j_id (ft_lib env) ` set (fst ?r) \<subseteq> ?ids" "fst ` set (peer_blocks (fst (snd ?r))) \<subseteq> ?ids"
    using assms(1) unfolding jobs_keep_ids_def by blast+
  have i: "i \<notin> ?ids" using assms(2) by (auto simp: holds_none_def has_id_def list_ex_iff)
  with law(1) assms(2) show "holds_none env i (fst (on_file_timer env c))"
    by (auto simp: on_file_timer_def holds_none_def has_id_def list_ex_iff case_prod_beta)
  from law(2) i have "i \<notin> fst ` set (peer_blocks (fst (snd ?r)))" by blast
  then show "blocks_for i (peer_blocks (msgs_of (fst (snd (on_file_timer env c))))) = []"
    by (auto simp: on_file_timer_def case_prod_beta blocks_for_none split: sum.split)
  show "cmds_of (fst (snd (on_file_timer env c))) = []" "cm_read_job_ids (fst (on_file_timer env c)) = cm_read_job_ids c"
    by (auto simp: on_file_timer_def case_prod_beta split: sum.split)
qed

section \<open>Cancelled transfers\<close>

lemma step_cancelled:
  assumes lib: "jobs_lib_ok (ft_lib env)" "jobs_keep_ids (ft_lib env)"
    and "list_all no_raw_block (to_conn S)" "i \<notin> cm_read_job_ids (fconn S)" "holds_none env i (fconn S)" "\<not> sends_job i x"
  shows "i \<notin> cm_read_job_ids (fconn (ft_apply env cenv x S)) \<and> holds_none env i (fconn (ft_apply env cenv x S))
    \<and> blocks_for i (peer_blocks (to_peer (ft_apply env cenv x S))) = blocks_for i (peer_blocks (to_peer S))"
proof (cases x)
  case (Act t fa)
  with assms act_ids [of i "fconn S" t fa env] act_holds [OF lib, of i "fconn S" t fa] act_no_blocks [of env t fa "fconn S"] show ?thesis
    by (simp add: ft_apply_def case_prod_beta)
next
  case FileTimer
  with assms timer_holds [OF lib(2) assms(5)] show ?thesis by (simp add: ft_apply_def case_prod_beta)
next
  case Deliver
  show ?thesis
  proof (cases "to_conn S")
    case (Cons d q)
    with deliver_cancelled [of d i "fconn S" env] assms Deliver show ?thesis
      by (auto simp: ft_apply_def case_prod_beta holds_none_def deliver_idle(1) blocks_for_none)
  qed (use Deliver assms in \<open>simp add: ft_apply_def\<close>)
qed (use assms in \<open>auto simp: ft_apply_def case_prod_beta split: list.split\<close>)

lemma cancel_releases:
  assumes "jobs_lib_ok (ft_lib env)" "ft_session c" "delayed_read_dir c = None" "length (filter (has_id (ft_lib env) i) (read_jobs c)) \<le> 1"
  shows "i \<notin> cm_read_job_ids (fst (handle_file_action env t (FA_Cancel i) c))" "holds_none env i (fst (handle_file_action env t (FA_Cancel i) c))"
  using assms(2,3) removed_is_gone [OF assms(1,4)]
  by (simp_all add: handle_file_action_def act_on_def one_way_job_def case_prod_beta holds_none_def)

text \<open>
  C7. Once an open connection has handled the cancellation of a transfer, no block of it is sent to the
  peer any more, from the jobs of the manager or from those the connection reads itself at its timer,
  whatever is still in the queues and however the steps go on, until the peer asks for a transfer with
  that number again. The connection may hold at most one job with the number when it is cancelled,
  since the library removes one.
\<close>

theorem cancelled_transfer_sends_nothing:
  assumes "jobs_lib_ok (ft_lib env)" "jobs_keep_ids (ft_lib env)"
    "ft_steps env cenv (ft_start c) xs S" "\<not> conn_over S" "ft_session (fconn S)" "delayed_read_dir (fconn S) = None"
    "length (filter (has_id (ft_lib env) i) (read_jobs (fconn S))) \<le> 1"
    "ft_steps env cenv (ft_apply env cenv (Act t (FA_Cancel i)) S) ys S'" "list_all (\<lambda>x. \<not> sends_job i x) ys"
  shows "blocks_for i (peer_blocks (to_peer S')) = blocks_for i (peer_blocks (to_peer S))"
proof -
  let ?S = "ft_apply env cenv (Act t (FA_Cancel i)) S"
  have raw: "list_all no_raw_block (to_conn ?S)" using raw_step [OF raw_start [OF assms(3)]] .
  have start: "i \<notin> cm_read_job_ids (fconn ?S) \<and> holds_none env i (fconn ?S)"
    using cancel_releases [OF assms(1,5-7), of t] assms(4) by (simp add: ft_apply_def case_prod_beta)
  have same: "peer_blocks (to_peer ?S) = peer_blocks (to_peer S)"
    using act_no_blocks [of env t "FA_Cancel i" "fconn S"] by (simp add: ft_apply_def case_prod_beta)
  from assms(8,9) have "i \<notin> cm_read_job_ids (fconn S') \<and> holds_none env i (fconn S') \<and> blocks_for i (peer_blocks (to_peer S')) = blocks_for i (peer_blocks (to_peer ?S))"
  proof (induction rule: ft_steps.induct)
    case (more ys S1 x)
    with step_cancelled [OF assms(1,2) raw_steps [OF more.hyps raw], of i x cenv] show ?case by simp
  qed (simp add: start)
  with same show ?thesis by simp
qed

section \<open>The blocks of one transfer\<close>

text \<open>The jobs of the manager with a number, and the blocks they are still to read.\<close>

definition unread :: "'j jobs_lib \<Rightarrow> ('j \<Rightarrow> (int \<times> bytes \<times> bool) list) \<Rightarrow> int \<Rightarrow> 'j list \<Rightarrow> (int \<times> bytes \<times> bool) list" where
  "unread lib stream i js = concat (map stream (filter (has_id lib i) js))"

lemma unread_simps [simp]:
  "unread lib stream i [] = []" "unread lib stream i (js @ js') = unread lib stream i js @ unread lib stream i js'"
  "unread lib stream i (job # js) = (if has_id lib i job then stream job else []) @ unread lib stream i js"
  by (simp_all add: unread_def)


lemma unread_replaced:
  assumes "j_id lib job' = j_id lib job" "subseq (stream job') (stream job)"
  shows "subseq (unread lib stream i (ys @ job' # zs)) (unread lib stream i (ys @ job # zs))"
  using assms by (auto simp: has_id_def intro!: list_emb_append_mono)



















section \<open>One-way transfers\<close>

definition harmless :: "fs_cmd \<Rightarrow> bool" where
  "harmless cmd = (case cmd of FS_ReadFile _ _ _ _ _ _ \<Rightarrow> False | FS_RemoveDir _ _ _ \<Rightarrow> False | FS_RemoveFile _ _ _ \<Rightarrow> False
      | FS_CreateDir _ _ \<Rightarrow> False | FS_Rename _ _ _ \<Rightarrow> False | _ \<Rightarrow> True)"

definition reads_nothing :: "'j ft_sys \<Rightarrow> bool" where
  "reads_nothing S \<longleftrightarrow> list_all harmless (to_cm S) \<and> cm_read_jobs (fcm S) = [] \<and> read_jobs (fconn S) = [] \<and> cm_read_job_ids (fconn S) = {} \<and> fs_ops S = []
     \<and> list_all no_raw_block (to_conn S) \<and> data_blocks (to_conn S) = [] \<and> peer_blocks (to_peer S) = []"

lemma upd_no_job [simp]: "upd_job lib i g [] = []"
  by (simp add: upd_job_def split: option.split)

lemma no_jobs:
  assumes "jobs_lib_ok lib"
  shows "j_remove lib i [] = ([], None)" "j_get lib i [] = None"
proof -
  from assms have "case j_get lib i [] of Some k \<Rightarrow> k < length ([] :: 'a list) | None \<Rightarrow> j_remove lib i [] = ([], None)"
    unfolding jobs_lib_ok_def by (metis (no_types, lifting) option.case_eq_if)
  then show "j_remove lib i [] = ([], None)" "j_get lib i [] = None" by (auto split: option.splits)
qed

lemma one_way_act:
  assumes "one_way env" "jobs_lib_ok (ft_lib env)" "read_jobs c = []" "cm_read_job_ids c = {}"
  shows "read_jobs (fst (handle_file_action env t fa c)) = []" "cm_read_job_ids (fst (handle_file_action env t fa c)) = {}"
    "list_all harmless (cmds_of (snd (handle_file_action env t fa c)))"
  using assms(1,3,4)
  by (cases fa; auto simp: no_jobs [OF assms(2)] handle_file_action_def act_on_def one_way_job_def all_files_def harmless_def split: sum.split option.split)+

lemma harmless_fs:
  assumes "harmless cmd" "jobs_lib_ok (cm_lib cenv)" "cm_read_jobs m = []"
  shows "cm_read_jobs (fst (handle_fs cenv cmd m)) = []" "ops_of (snd (handle_fs cenv cmd m)) = []"
  using assms(1,3)
  by (cases cmd; auto simp: no_jobs [OF assms(2)] handle_fs_def Let_def harmless_def check_digest_def read_all_files_def split: sum.split option.split prod.split)+

lemma one_way_step:
  assumes "reads_nothing S" "one_way env" "jobs_lib_ok (ft_lib env)" "jobs_lib_ok (cm_lib cenv)"
  shows "reads_nothing (ft_apply env cenv x S)"
proof (cases x)
  case (Act t fa)
  with assms one_way_act [OF assms(2,3), of "fconn S" t fa] act_no_blocks [of env t fa "fconn S"] show ?thesis by (simp add: reads_nothing_def ft_apply_def case_prod_beta)
next
  case (Response fr)
  with assms show ?thesis by (cases fr) (simp_all add: reads_nothing_def ft_apply_def handle_file_response_def harmless_def)
next
  case FileTimer
  with assms(1) show ?thesis by (simp add: reads_nothing_def ft_apply_def on_file_timer_def)
next
  case RunCommand
  with assms show ?thesis
    by (cases "to_cm S") (simp_all add: reads_nothing_def ft_apply_def case_prod_beta harmless_fs handle_fs_data by_connection_def)
next
  case ReadTick
  with assms show ?thesis by (simp add: reads_nothing_def ft_apply_def handle_read_jobs_tick_def)
next
  case Deliver
  show ?thesis
  proof (cases "to_conn S")
    case (Cons d q)
    with assms(1) have "no_raw_block d" "data_blocks [d] = []" "data_blocks q = []" by (simp_all add: reads_nothing_def data_blocks_Cons [of d q])
    with deliver_blocks [of d env "fconn S"] Deliver Cons assms(1) show ?thesis by (auto simp: reads_nothing_def ft_apply_def case_prod_beta deliver_idle)
  qed (use assms(1) Deliver in \<open>simp add: ft_apply_def\<close>)
qed

text \<open>
  C8. When the host allows transfers one way only, no order of the peer's actions and of the steps of
  the two processes starts a job that reads files of the host, in either process, or sends a block to
  the peer, and none of the operations that remove a file, remove a directory, create a directory or
  rename is run. What the peer transfers to the host is still written, an unfinished download may be
  removed, and directories are still listed.
\<close>

theorem one_way_is_write_only:
  assumes "one_way env" "jobs_lib_ok (ft_lib env)" "jobs_lib_ok (cm_lib cenv)" "read_jobs c = []" "cm_read_job_ids c = {}"
    "ft_steps env cenv (ft_start c) xs S"
  shows "peer_blocks (to_peer S) = [] \<and> read_jobs (fconn S) = [] \<and> cm_read_jobs (fcm S) = [] \<and> fs_ops S = []"
proof -
  have "reads_nothing S" using assms(6)
  proof (induction rule: ft_steps.induct)
    case (more ys S' x)
    from one_way_step [OF more.IH assms(1-3)] show ?case .
  qed (use assms(4,5) in \<open>simp add: ft_start_def reads_nothing_def\<close>)
  then show ?thesis by (simp add: reads_nothing_def)
qed

section \<open>Limits, audits and the log of removals\<close>

lemma configured_bounds: "1 \<le> configured_max_validated_files raw \<and> configured_max_validated_files raw \<le> MAX_CONFIGURED_VALIDATED_FILES"
  by (auto simp: configured_max_validated_files_def DEFAULT_MAX_VALIDATED_FILES_def MAX_CONFIGURED_VALIDATED_FILES_def split: option.split)

text \<open>
  Whatever the option for the number of files is set to, a command to read files starts a job only
  when it has at most 100000 files, and answers with an error, starting nothing, when there are more
  files than the option allows.
\<close>

theorem read_jobs_bounded:
  assumes "cm_max_files cenv = configured_max_validated_files raw" "j_new_read (cm_lib cenv) i Generic (FilePath path) n hid True od = Inr job"
  shows "(fst (handle_fs cenv (FS_ReadFile path i n hid cid od) m) \<noteq> m \<longrightarrow> length (j_files (cm_lib cenv) job) \<le> 100000)
    \<and> (length (j_files (cm_lib cenv) job) > configured_max_validated_files raw \<longrightarrow>
         handle_fs cenv (FS_ReadFile path i n hid cid od) m = (m, [C_Data (CM_ReadJobInit i n hid cid (Inl too_many_files))]))"
  using assms configured_bounds [of raw]
  by (auto simp: handle_fs_def start_read_job_def check_file_count_limit_def MAX_CONFIGURED_VALIDATED_FILES_def Let_def split: sum.splits)

text \<open>
  An audit of files lists at most ten of them, those that are largest, and the number of all.
\<close>

theorem audit_lists_largest:
  "\<exists>rep single. post_file_audit True ty path fs = [E_Audit ty path rep (length fs) single] \<and> length rep = min 10 (length fs)
     \<and> mset rep \<subseteq># mset fs \<and> (\<forall>r f. r \<in> set rep \<and> f \<in># mset fs - mset rep \<longrightarrow> snd f \<le> snd r)"
proof -
  define A B where "A = take 10 (sort_key (\<lambda>f. - int (snd f)) fs)" and "B = drop 10 (sort_key (\<lambda>f. - int (snd f)) fs)"
  have AB: "A @ B = sort_key (\<lambda>f. - int (snd f)) fs" by (simp add: A_def B_def)
  then have m: "mset fs = mset A + mset B" by (metis mset_append mset_sort)
  have "sorted (map (\<lambda>f. - int (snd f)) (A @ B))" unfolding AB by simp
  then have "\<forall>r \<in> set A. \<forall>f \<in> set B. snd f \<le> snd r" by (simp add: sorted_append)
  then have "\<forall>r f. r \<in> set A \<and> f \<in># mset fs - mset A \<longrightarrow> snd f \<le> snd r" unfolding m by simp
  moreover have "mset A \<subseteq># mset fs" unfolding m by simp
  moreover have "length A = min 10 (length fs)" by (simp add: A_def)
  moreover have "post_file_audit True ty path fs = [E_Audit ty path A (length fs) (length A = 1 \<and> fst (hd A) = [])]"
    unfolding post_file_audit_def Let_def A_def by simp
  ultimately show ?thesis by blast
qed

text \<open>
  C36. Removing a directory leaves the entries of the files that were removed in it in the log, although
  the entries of its directories are dropped: the arguments of the test are exchanged for files.
\<close>

theorem removed_files_stay_in_log:
  assumes "direct_child path (snd f)" "f \<in> set (removed_files l)" "direct_child path (snd d)"
  shows "f \<in> set (removed_files (fst (on_remove_dir t i path l))) \<and> (d \<in> set (removed_dirs (fst (on_remove_dir t i path l))) \<longrightarrow> d = (i, path))"
proof -
  have shorter: "length (snd (path_parts p)) < length (snd (path_parts q))" if "direct_child p q" for p q
    using that unfolding direct_child_def path_parent_def by (metis diff_less length_butlast length_greater_0_conv option.distinct(1) option.inject snd_conv zero_less_one)
  from shorter [OF assms(1)] shorter [of "snd f" path] have "\<not> direct_child (snd f) path" by linarith
  with assms(2,3) show ?thesis by (auto simp: on_remove_dir_def Let_def split: if_splits)
qed

section \<open>Witnesses\<close>

text \<open>A library of jobs that are a number and the count of blocks that are left.\<close>

fun index_of :: "int \<Rightarrow> (int \<times> nat) list \<Rightarrow> nat option" where
  "index_of i [] = None"
| "index_of i (j # js) = (if fst j = i then Some 0 else map_option Suc (index_of i js))"

definition demo_lib :: "(int \<times> nat) jobs_lib" where
  "demo_lib = \<lparr>j_new_read = (\<lambda>i _ _ _ _ _ _. Inr (i, 2)), j_new_write = (\<lambda>i _ _ _. (i, 0)), j_set_files = (\<lambda>_ j. (j, Inr ())),
     j_files = (\<lambda>_. [\<lparr>fe_name = ''f'', fe_size = 2, fe_modified = 0\<rparr>]), j_type = (\<lambda>_. Generic), j_id = fst, j_file_num = (\<lambda>_. 0),
     j_is_last = (\<lambda>_. False), j_is_resume = (\<lambda>_. False), j_set_conn = (\<lambda>_ j. j), j_set_total = (\<lambda>_ j. j), j_set_remote = (\<lambda>j. j),
     j_init = (\<lambda>j. (j, Inr None)), j_read = (\<lambda>(i, k). if k = 0 then ((i, 0), Inr None) else ((i, k - 1), Inr (Some (i, 0, [of_nat k], False)))),
     j_write = (\<lambda>_ _ _ j. (j, Inr ())), j_confirm = (\<lambda>_ _ _ j. j), j_set_digest = (\<lambda>_ _ j. j), j_completed = (\<lambda>(i, k). k = 0),
     j_error = (\<lambda>_. None), j_target = (\<lambda>_ _. None), j_need_confirm = (\<lambda>_ _ _ _. Inr NoSuchFile),
     j_remove = (\<lambda>i js. case index_of i js of Some k \<Rightarrow> (take k js @ drop (Suc k) js, Some (js ! k)) | None \<Rightarrow> (js, None)),
     j_get = index_of, j_dir_bytes = (\<lambda>_ _ _. Inr []), j_parse_dir = (\<lambda>_. Inr ([], [])),
     j_serialize = (\<lambda>_. []),
     j_handle_reads = (\<lambda>js. case js of (i, Suc k) # js \<Rightarrow> ((i, k) # js, [FM_Block i 0 [of_nat (Suc k)] False], Inr []) | _ \<Rightarrow> (js, [], Inr []))\<rparr>"

lemma index_of_ok: "case index_of i js of Some k \<Rightarrow> k < length js \<and> fst (js ! k) = i | None \<Rightarrow> i \<notin> fst ` set js"
  by (induction i js rule: index_of.induct) (force split: option.splits)+

lemma demo_lib_ok: "jobs_lib_ok demo_lib"
  unfolding jobs_lib_ok_def
proof (intro allI)
  fix i js
  show "case j_get demo_lib i js of Some k \<Rightarrow> k < length js \<and> j_id demo_lib (js ! k) = i \<and> j_remove demo_lib i js = (take k js @ drop (Suc k) js, Some (js ! k))
      | None \<Rightarrow> i \<notin> j_id demo_lib ` set js \<and> j_remove demo_lib i js = (js, None)"
    using index_of_ok [of i js] by (simp add: demo_lib_def split: option.splits)
qed

lemma demo_keeps: "jobs_keep_ids demo_lib"
  by (auto simp: jobs_keep_ids_def demo_lib_def split: list.split nat.split)



definition demo_ft :: "bool \<Rightarrow> (int \<times> nat) ft_env" where
  "demo_ft b = \<lparr>ft_lib = demo_lib, need_fs_cm_send_files = True, one_way = b, overwrite_detection = True, max_files = 10, audit_on = True,
     recursive_files = (\<lambda>_ _. Inl [])\<rparr>"

definition demo_cm :: "(int \<times> nat) cm_env" where
  "demo_cm = \<lparr>cm_lib = demo_lib, cm_max_files = 10, cm_recursive_files = (\<lambda>_ _. Inl []), op_result = (\<lambda>_. Inr ()), listing_ok = (\<lambda>_ _. True),
     empty_dirs_ok = (\<lambda>_ _. True)\<rparr>"

definition demo_ftc :: "(int \<times> nat) ft_conn" where
  "demo_ftc = \<lparr>ft_id = 1, ft_session = True, delayed_read_dir = None, cm_read_job_ids = {}, read_jobs = [], printer_data = [], file_transferred = False,
     rm_log = \<lparr>rl_instant = 0, removed_files = [], removed_dirs = []\<rparr>\<rparr>"

definition demo_result :: "bool \<Rightarrow> ft_op list \<Rightarrow> (int \<times> nat) ft_sys" where
  "demo_result b xs = foldl (\<lambda>S x. ft_apply (demo_ft b) demo_cm x S) (ft_start demo_ftc) xs"

lemma demo_result_steps: "ft_steps (demo_ft b) demo_cm (ft_start demo_ftc) xs (demo_result b xs)"
  by (simp add: steps_foldl demo_result_def)

definition demo_sends :: "ft_op list" where
  "demo_sends = [Act 0 (FA_Send 7 ''f'' Generic 0 False), RunCommand, ReadTick, ReadTick, Deliver, Deliver]"


definition local_ft :: "(int \<times> nat) ft_env" where
  "local_ft = (demo_ft False)\<lparr>need_fs_cm_send_files := False\<rparr>"

definition local_sends :: "ft_op list" where
  "local_sends = [Act 0 (FA_Send 7 ''f'' Generic 0 False), FileTimer]"

text \<open>The connection reads the file itself; after the first of its two blocks the transfer is cancelled.\<close>

theorem cancelled_transfer_sends_nothing_witness:
  "blocks_for 7 (peer_blocks (to_peer (foldl (\<lambda>S x. ft_apply local_ft demo_cm x S) (ft_start demo_ftc) (local_sends @ [Act 1 (FA_Cancel 7), FileTimer, FileTimer]))))
     = [(0, [2], False)]"
proof -
  let ?run = "foldl (\<lambda>S x. ft_apply local_ft demo_cm x S)"
  define S where "S = ?run (ft_start demo_ftc) local_sends"
  define S' where "S' = ?run (ft_apply local_ft demo_cm (Act 1 (FA_Cancel 7)) S) [FileTimer, FileTimer]"
  have st: "\<not> conn_over S" "ft_session (fconn S)" "delayed_read_dir (fconn S) = None" "length (filter (has_id demo_lib 7) (read_jobs (fconn S))) \<le> 1"
    "peer_blocks (to_peer S) = [(7, 0, [2], False)]"
    unfolding S_def by code_simp+
  have l: "ft_lib local_ft = demo_lib" by (simp add: local_ft_def demo_ft_def)
  have 1: "ft_steps local_ft demo_cm (ft_start demo_ftc) local_sends S" by (simp add: steps_foldl S_def)
  have 2: "ft_steps local_ft demo_cm (ft_apply local_ft demo_cm (Act 1 (FA_Cancel 7)) S) [FileTimer, FileTimer] S'" by (simp only: steps_foldl S'_def)
  have 3: "list_all (\<lambda>x. \<not> sends_job 7 x) [FileTimer, FileTimer]" by (simp add: sends_job_def)
  from cancelled_transfer_sends_nothing [OF _ _ 1 st(1-3) _ 2 3] st(4) have "blocks_for 7 (peer_blocks (to_peer S')) = blocks_for 7 (peer_blocks (to_peer S))"
    by (simp add: l demo_lib_ok demo_keeps)
  with st(5) show ?thesis by (simp add: S'_def S_def)
qed

theorem one_way_is_write_only_witness:
  "peer_blocks (to_peer (demo_result True demo_sends)) = [] \<and> fs_ops (demo_result True [Act 0 (FA_RemoveFile 3 ''f'' 0), RunCommand]) = []"
proof -
  have "one_way (demo_ft True)" "jobs_lib_ok (ft_lib (demo_ft True))" "jobs_lib_ok (cm_lib demo_cm)" "read_jobs demo_ftc = []" "cm_read_job_ids demo_ftc = {}"
    by (simp_all add: demo_ft_def demo_cm_def demo_ftc_def demo_lib_ok)
  note one = one_way_is_write_only [OF this demo_result_steps]
  from one [of demo_sends] one [of "[Act 0 (FA_RemoveFile 3 ''f'' 0), RunCommand]"] show ?thesis by simp
qed

theorem read_jobs_bounded_witness: "length (j_files demo_lib (3, 2)) \<le> 100000"
proof -
  let ?m = "\<lparr>write_jobs = [], cm_read_jobs = []\<rparr>" and ?e = "demo_cm\<lparr>cm_max_files := configured_max_validated_files ''5''\<rparr>"
  have n: "j_new_read (cm_lib ?e) 3 Generic (FilePath ''f'') 0 False True True = Inr (3, 2)" by (simp add: demo_cm_def demo_lib_def)
  have "cm_read_jobs (fst (handle_fs ?e (FS_ReadFile ''f'' 3 0 False 1 True) ?m)) = [(3, 2)]"
    using configured_bounds [of "''5''"]
    by (simp add: handle_fs_def start_read_job_def check_file_count_limit_def demo_cm_def demo_lib_def Let_def)
  then have "fst (handle_fs ?e (FS_ReadFile ''f'' 3 0 False 1 True) ?m) \<noteq> ?m" by auto
  with read_jobs_bounded [OF _ n, of "''5''" 1 ?m] show ?thesis by (simp add: demo_cm_def)
qed

theorem audit_lists_largest_witness:
  "\<exists>rep single. post_file_audit True RemoteSend ''p'' [(''a'', 1), (''b'', 2)] = [E_Audit RemoteSend ''p'' rep 2 single] \<and> length rep = 2"
  using audit_lists_largest [of RemoteSend "''p''" "[(''a'', 1), (''b'', 2)]"] by auto

theorem removed_files_stay_in_log_witness:
  "(1, ''/d/f'') \<in> set (removed_files (fst (on_remove_dir 0 2 ''/d'' \<lparr>rl_instant = 0, removed_files = [(1, ''/d/f'')], removed_dirs = [(3, ''/d/e'')]\<rparr>)))"
proof -
  have "direct_child ''/d'' ''/d/f''" "direct_child ''/d'' ''/d/e''" by code_simp+
  with removed_files_stay_in_log [of "''/d''" "(1, ''/d/f'')" "\<lparr>rl_instant = 0, removed_files = [(1, ''/d/f'')], removed_dirs = [(3, ''/d/e'')]\<rparr>" "(3, ''/d/e'')" 0 2]
  show ?thesis by simp
qed

end
