(* ===== verification/LoginFrame.thy ===== *)
theory LoginFrame
  imports Login
begin

text \<open>
  What a login leaves alone: the identity of a connection and the keyboard permission, which the
  steps of \<^verbatim>\<open>Login\<close> only read. Sessions rely on it when they run the login part of a message.
\<close>

definition ident :: "connection \<Rightarrow> int \<times> bool" where
  "ident c = (c_id c, keyboard c)"

named_theorems ident_simps

lemma ident_updates [simp]:
  "ident (c\<lparr>authorized := a1\<rparr>) = ident c" "ident (c\<lparr>require_2fa := a2\<rparr>) = ident c" "ident (c\<lparr>file_transfer := a3\<rparr>) = ident c"
  "ident (c\<lparr>view_camera := a4\<rparr>) = ident c" "ident (c\<lparr>terminal := a5\<rparr>) = ident c" "ident (c\<lparr>port_forward_address := a6\<rparr>) = ident c"
  "ident (c\<lparr>port_forward_socket := a7\<rparr>) = ident c" "ident (c\<lparr>c_terminal_persistent := a8\<rparr>) = ident c"
  "ident (c\<lparr>terminal_service_id := a9\<rparr>) = ident c" "ident (c\<lparr>terminal_user_tok := b1\<rparr>) = ident c" "ident (c\<lparr>from_switch := b2\<rparr>) = ident c"
  "ident (c\<lparr>options_in_login := b3\<rparr>) = ident c" "ident (c\<lparr>video_ack_required := b4\<rparr>) = ident c" "ident (c\<lparr>primary_auth := b5\<rparr>) = ident c"
  "ident (c\<lparr>two_factor := b6\<rparr>) = ident c" "ident (c\<lparr>authed_conn_id := b7\<rparr>) = ident c" "ident (c\<lparr>session_last_recv_time := b8\<rparr>) = ident c"
  "ident (c\<lparr>scope_violation_messages := b9\<rparr>) = ident c" "ident (c\<lparr>last_test_delay := d1\<rparr>) = ident c" "ident (c\<lparr>network_delay := d2\<rparr>) = ident c"
  "ident (c\<lparr>start_cm_ipc_para := d3\<rparr>) = ident c" "ident (c\<lparr>closed := d4\<rparr>) = ident c" "ident (c\<lparr>lr := d5\<rparr>) = ident c"
  by (simp_all add: ident_def)

lemma c_is_recent_ident [ident_simps]: "ident (fst (fst (c_is_recent_session env now two s))) = ident (fst s)"
  by (simp add: c_is_recent_session_def Let_def split: prod.splits)

lemma validate_password_ident [ident_simps]: "ident (fst (fst (validate_password env now b s))) = ident (fst s)"
  by (simp add: validate_password_def Let_def split: prod.splits)

lemma try_start_cm_ipc_ident [ident_simps]: "ident (fst (try_start_cm_ipc s)) = ident (fst s)"
  by (simp add: try_start_cm_ipc_def split: prod.splits)

lemma fill_terminal_ident [ident_simps]: "ident (fst (fill_terminal_user_token env n p c)) = ident c"
  by (simp add: fill_terminal_user_token_def handle_administrator_check_def handle_installed_user_def Let_def)

lemma prepare_terminal_ident [ident_simps]:
  "ident (fst (fst (prepare_terminal_login_for_authorization env now s))) = ident (fst s)"
  by (cases s) (simp add: prepare_terminal_login_for_authorization_def Let_def case_prod_beta fill_terminal_ident try_start_cm_ipc_ident
      split: option.splits)

lemma prepare_before_click_ident [ident_simps]: "ident (fst (fst (prepare_before_click env now l s))) = ident (fst s)"
  by (simp add: prepare_before_click_def ident_simps)

lemma desktop_message_ident [ident_simps]: "ident (fst (fst (desktop_message env now l s))) = ident (fst s)"
  by (simp add: desktop_message_def login_err_def Let_def case_prod_beta)

lemma connect_port_forward_ident [ident_simps]: "ident (fst (fst (connect_port_forward_if_needed env s))) = ident (fst s)"
  by (cases s) (auto simp: connect_port_forward_if_needed_def Let_def split: option.splits login_union.splits prod.splits)

lemma enter_authorized_ident [ident_simps]: "ident (fst (enter_authorized env now s)) = ident (fst s)"
  by (simp add: enter_authorized_def normalize_conn_audit_auth_fields_def Let_def split: prod.splits)

lemma send_logon_ident [ident_simps]: "ident (fst (fst (send_logon_response_and_keep_alive env now s))) = ident (fst s)"
proof -
  define r where "r = (if require_2fa (fst s) \<noteq> None then c_is_recent_session env now True s else (s, True))"
  obtain s1 recent where s1: "r = (s1, recent)" by (meson surj_pair)
  have "ident (fst (fst r)) = ident (fst s)" by (simp add: r_def ident_simps)
  then have i1: "ident (fst s1) = ident (fst s)" by (simp add: s1)
  obtain s2 stop where s2: "prepare_terminal_login_for_authorization env now s1 = (s2, stop)" by (meson surj_pair)
  have i2: "ident (fst s2) = ident (fst s)" using prepare_terminal_ident [of env now s1] s2 i1 by simp
  obtain s3 ok where s3: "connect_port_forward_if_needed env s2 = (s3, ok)" by (meson surj_pair)
  have i3: "ident (fst s3) = ident (fst s)" using connect_port_forward_ident [of env s2] s3 i2 by simp
  show ?thesis
    using i1 i2 i3 unfolding send_logon_response_and_keep_alive_def r_def [symmetric] s1
    by (simp add: s2 s3 enter_authorized_ident split: option.splits bool.splits)
qed

lemma handle_login_ident [ident_simps]: "ident (fst (handle_login_request_without_validation env l s)) = ident (fst s)"
  by (simp add: handle_login_request_without_validation_def Let_def split: prod.splits option.splits)

lemma reset_scope_ident [ident_simps]: "ident (reset_session_scope_for_login c) = ident c"
  by (simp add: reset_session_scope_for_login_def)

lemma login_scope_ident: "login_scope env l c = Inr c' \<Longrightarrow> ident c' = ident c"
  by (auto simp: login_scope_def Let_def split: option.splits login_union.splits if_splits)

lemma finish_login_ident [ident_simps]: "ident (fst (fst (finish_login env now l err s))) = ident (fst s)"
proof -
  obtain s1 k where s1: "send_logon_response_and_keep_alive env now s = (s1, k)" by (meson surj_pair)
  with send_logon_ident [of env now s] show ?thesis by (simp add: finish_login_def split: bool.splits)
qed

lemma password_login_ident [ident_simps]: "ident (fst (fst (password_login env now l err s))) = ident (fst s)"
proof -
  obtain s1 ft ok where s1: "c_check_failure env now 0 Default s = (s1, ft, ok)" by (metis prod_cases3)
  obtain s2 valid where s2: "validate_password env now (allow_logon_screen_password env) s1 = (s2, valid)" by (meson surj_pair)
  have "ident (fst s1) = ident (fst s)" using c_check_failure_conn [of env now 0 Default s] by (simp add: s1)
  moreover have "ident (fst s2) = ident (fst s1)" using validate_password_ident [of env now "allow_logon_screen_password env" s1] by (simp add: s2)
  ultimately show ?thesis by (simp add: password_login_def s1 s2 Let_def ident_simps split: bool.splits)
qed

lemma approve_login_ident [ident_simps]: "ident (fst (fst (approve_login env now l err s))) = ident (fst s)"
proof -
  obtain s1 recent where s1: "c_is_recent_session env now False s = (s1, recent)" by (meson surj_pair)
  have i1: "ident (fst s1) = ident (fst s)" using c_is_recent_ident [of env now False s] by (simp add: s1)
  obtain s2 stop where s2: "prepare_before_click env now l s1 = (s2, stop)" by (meson surj_pair)
  have i2: "ident (fst s2) = ident (fst s)" using prepare_before_click_ident [of env now l s1] i1 by (simp add: s2)
  obtain s3 stop' where s3: "prepare_before_click env now l s = (s3, stop')" by (meson surj_pair)
  have i3: "ident (fst s3) = ident (fst s)" using prepare_before_click_ident [of env now l s] by (simp add: s3)
  show ?thesis
    using i1 i2 i3 by (simp add: approve_login_def s1 s2 s3 Let_def ident_simps split: option.splits bool.splits)
qed

lemma on_login_request_ident [ident_simps]: "ident (fst (fst (on_login_request env now l s))) = ident (fst s)"
proof -
  define s1 where "s1 = handle_login_request_without_validation env l s"
  have i1: "ident (fst s1) = ident (fst s)" by (simp add: s1_def ident_simps)
  show ?thesis
  proof (cases "login_scope env l (reset_session_scope_for_login (fst s1))")
    case (Inl e)
    with i1 show ?thesis by (simp add: on_login_request_def s1_def [symmetric] Let_def reset_scope_ident)
  next
    case (Inr c)
    have ic: "ident c = ident (fst s)" using login_scope_ident [OF Inr] i1 by (simp add: reset_scope_ident)
    define s2 where "s2 = (if \<not> on_mobile env \<and> \<not> should_use_terminal_os_login_scope env (terminal c) (os_username l)
                           then try_start_cm_ipc (c, snd s1) else (c, snd s1))"
    have i2: "ident (fst s2) = ident (fst s)" by (simp add: s2_def ic try_start_cm_ipc_ident)
    obtain s3 e where s3: "desktop_message env now l s2 = (s3, e)" by (meson surj_pair)
    have i3: "ident (fst s3) = ident (fst s)" using desktop_message_ident [of env now l s2] i2 by (simp add: s3)
    show ?thesis
      using i1 ic i3 by (simp add: on_login_request_def s1_def [symmetric] Let_def Inr s2_def [symmetric] s3 approve_login_ident split: option.splits)
  qed
qed

lemma on_auth_2fa_ident [ident_simps]: "ident (fst (fst (on_auth_2fa env now code hw s))) = ident (fst s)"
proof -
  obtain s1 ft ok where s1: "c_check_failure env now 1 Default s = (s1, ft, ok)" by (metis prod_cases3)
  have "fst s1 = fst s" using c_check_failure_conn [of env now 1 Default s] unfolding s1 by simp
  then show ?thesis
    unfolding on_auth_2fa_def s1 by (simp add: send_logon_ident Let_def case_prod_beta split: option.splits bool.splits)
qed

lemma on_switch_sides_ident [ident_simps]: "ident (fst (fst (on_switch_sides env now lr_opt uuid s))) = ident (fst s)"
proof (cases lr_opt)
  case (Some l)
  obtain c w where s: "s = (c, w)" by (meson surj_pair)
  define s1 where "s1 = handle_login_request_without_validation env l (reset_session_scope_for_login c,
      w\<lparr>w_tokens := map_remove (retain_tokens now (w_tokens w)) (my_id l)\<rparr>)"
  let ?s2 = "((fst s1)\<lparr>from_switch := True, primary_auth := PA_SwitchSides\<rparr>, snd s1)"
  obtain s3 k where s3: "send_logon_response_and_keep_alive env now ?s2 = (s3, k)" by (meson surj_pair)
  have "ident (fst s3) = ident c"
    using send_logon_ident [of env now ?s2] unfolding s3 by (simp add: s1_def handle_login_ident reset_scope_ident)
  then show ?thesis
    by (simp add: on_switch_sides_def Some s s1_def [symmetric] s3 Let_def try_start_cm_ipc_ident split: option.splits bool.splits)
qed (simp add: on_switch_sides_def)

lemma on_test_delay_ident [ident_simps]: "ident (fst (fst (on_test_delay env now b s))) = ident (fst s)"
  by (simp add: on_test_delay_def Let_def split: prod.splits option.splits)

lemma on_close_ident [ident_simps]: "ident (fst (on_close env reason lock s)) = ident (fst s)"
  by (simp add: on_close_def split: prod.splits)

lemma on_scope_violation_ident [ident_simps]: "ident (fst (fst (on_scope_violation env family s))) = ident (fst s)"
  by (simp add: on_scope_violation_def send_close_reason_no_retry_def on_close_ident Let_def split: prod.splits)

lemma on_message_ident: "ident (fst (fst (on_message env now m s))) = ident (fst s)"
proof -
  have close: "ident (fst (case on_close env r b s of (c, w) \<Rightarrow> (c, f c w))) = ident (fst s)" for r b f
    using on_close_ident [of env r b s] by (simp add: case_prod_beta)
  show ?thesis
    by (simp add: on_message_def keep_if_def Let_def ident_simps close split: option.splits login_msg.splits)
      (simp add: case_prod_beta on_close_ident)
qed

lemma on_cm_authorize_ident: "ident (fst (fst (on_cm_authorize env now s))) = ident (fst s)"
proof -
  let ?s = "((fst s)\<lparr>primary_auth := PA_Click, require_2fa := None\<rparr>, snd s)"
  obtain s1 k where s1: "send_logon_response_and_keep_alive env now ?s = (s1, k)" by (meson surj_pair)
  with send_logon_ident [of env now ?s] show ?thesis by (simp add: on_cm_authorize_def split: bool.splits)
qed

section \<open>The type of a new session\<close>

text \<open>
  A step that authorizes a connection enters it into the tables with the type its fields say.
\<close>

definition typed :: "connection \<Rightarrow> bool" where
  "typed c \<longleftrightarrow> (if authorized c then authed_conn_id c = Some (session_type c) else True)"

lemma typed_unauthorized: "\<not> authorized c \<Longrightarrow> typed c"
  by (simp add: typed_def)

lemma typed_view: "view c = view c' \<Longrightarrow> \<not> authorized c' \<Longrightarrow> typed c"
  by (simp add: typed_def view_def)

lemma enter_authorized_typed: "typed (fst (enter_authorized env now s))"
  by (simp add: typed_def enter_authorized_def normalize_conn_audit_auth_fields_def session_type_def Let_def split: prod.splits)

lemma connect_port_forward_authorized: "authorized (fst (fst (connect_port_forward_if_needed env s))) = authorized (fst s)"
  by (cases s) (auto simp: connect_port_forward_if_needed_def Let_def split: option.splits login_union.splits prod.splits)

lemma send_logon_typed:
  assumes "\<not> authorized (fst s)"
  shows "typed (fst (fst (send_logon_response_and_keep_alive env now s)))"
proof -
  define r where "r = (if require_2fa (fst s) \<noteq> None then c_is_recent_session env now True s else (s, True))"
  obtain s1 recent where s1: "r = (s1, recent)" by (meson surj_pair)
  have "view (fst (fst r)) = view (fst s)" by (simp add: r_def)
  then have v1: "view (fst s1) = view (fst s)" by (simp add: s1)
  obtain s2 stop where s2: "prepare_terminal_login_for_authorization env now s1 = (s2, stop)" by (meson surj_pair)
  have v2: "view (fst s2) = view (fst s)" using prepare_terminal_view [of env now s1] s2 v1 by simp
  obtain s3 ok where s3: "connect_port_forward_if_needed env s2 = (s3, ok)" by (meson surj_pair)
  have "authorized (fst s3) = authorized (fst s2)" using connect_port_forward_authorized [of env s2] by (simp add: s3)
  also have "\<dots> = authorized (fst s)" using v2 by (simp add: view_def)
  finally have t: "typed (fst s1)" "typed (fst s2)" "typed (fst s3)"
    using assms typed_view [OF v1] typed_view [OF v2] by (simp_all add: typed_unauthorized)
  then show ?thesis
    using assms unfolding send_logon_response_and_keep_alive_def r_def [symmetric] s1
    by (simp add: s2 s3 enter_authorized_typed split: option.splits bool.splits)
qed

lemma finish_login_typed:
  assumes "\<not> authorized (fst s)"
  shows "typed (fst (fst (finish_login env now l err s)))"
proof -
  obtain s1 k where s1: "send_logon_response_and_keep_alive env now s = (s1, k)" by (meson surj_pair)
  with send_logon_typed [OF assms, of env now] assms show ?thesis
    by (simp add: finish_login_def typed_unauthorized split: bool.splits)
qed

lemma view_authorized: "view c = view c' \<Longrightarrow> authorized c = authorized c'"
  by (simp add: view_def)

lemma password_login_typed:
  assumes "\<not> authorized (fst s)"
  shows "typed (fst (fst (password_login env now l err s)))"
proof -
  obtain s1 ft ok where s1: "c_check_failure env now 0 Default s = (s1, ft, ok)" by (metis prod_cases3)
  obtain s2 valid where s2: "validate_password env now (allow_logon_screen_password env) s1 = (s2, valid)" by (meson surj_pair)
  have 1: "\<not> authorized (fst s1)" using c_check_failure_conn [of env now 0 Default s] assms by (simp add: s1)
  then have 2: "\<not> authorized (fst s2)"
    using view_authorized [OF validate_password_view [of env now "allow_logon_screen_password env" s1]] by (simp add: s2)
  from 1 2 show ?thesis
    by (simp add: password_login_def s1 s2 Let_def finish_login_typed typed_unauthorized split: bool.splits)
qed

lemma approve_login_typed:
  assumes "\<not> authorized (fst s)"
  shows "typed (fst (fst (approve_login env now l err s)))"
proof -
  obtain s1 recent where s1: "c_is_recent_session env now False s = (s1, recent)" by (meson surj_pair)
  have 1: "\<not> authorized (fst s1)" using view_authorized [OF c_is_recent_view [of env now False s]] assms by (simp add: s1)
  obtain s2 stop where s2: "prepare_before_click env now l s1 = (s2, stop)" by (meson surj_pair)
  have 2: "\<not> authorized (fst s2)" using view_authorized [OF prepare_before_click_view [of env now l s1]] 1 by (simp add: s2)
  obtain s3 stop' where s3: "prepare_before_click env now l s = (s3, stop')" by (meson surj_pair)
  have 3: "\<not> authorized (fst s3)" using view_authorized [OF prepare_before_click_view [of env now l s]] assms by (simp add: s3)
  from 1 2 3 assms show ?thesis
    by (simp add: approve_login_def s1 s2 s3 Let_def finish_login_typed password_login_typed typed_unauthorized
        split: option.splits bool.splits)
qed

lemma login_scope_authorized: "login_scope env l c = Inr c' \<Longrightarrow> authorized c' = authorized c"
  by (auto simp: login_scope_def Let_def split: option.splits login_union.splits if_splits)

lemma on_login_request_typed:
  assumes "\<not> authorized (fst s)"
  shows "typed (fst (fst (on_login_request env now l s)))"
proof -
  define s1 where "s1 = handle_login_request_without_validation env l s"
  have 1: "\<not> authorized (fst s1)" using assms by (simp add: s1_def handle_login_fields)
  then have r: "\<not> authorized (reset_session_scope_for_login (fst s1))" by (simp add: reset_session_scope_for_login_def)
  show ?thesis
  proof (cases "login_scope env l (reset_session_scope_for_login (fst s1))")
    case (Inl e)
    with 1 r show ?thesis by (simp add: on_login_request_def s1_def [symmetric] Let_def typed_unauthorized)
  next
    case (Inr c)
    have c: "\<not> authorized c" using login_scope_authorized [OF Inr] r by simp
    define s2 where "s2 = (if \<not> on_mobile env \<and> \<not> should_use_terminal_os_login_scope env (terminal c) (os_username l)
                           then try_start_cm_ipc (c, snd s1) else (c, snd s1))"
    have 2: "\<not> authorized (fst s2)" using c view_authorized [OF try_start_cm_ipc_view [of "(c, snd s1)"]] by (simp add: s2_def)
    obtain s3 e where s3: "desktop_message env now l s2 = (s3, e)" by (meson surj_pair)
    have 3: "\<not> authorized (fst s3)" using view_authorized [OF desktop_message_view [of env now l s2]] 2 by (simp add: s3)
    from 1 c 3 show ?thesis
      by (simp add: on_login_request_def s1_def [symmetric] Let_def Inr s2_def [symmetric] s3 approve_login_typed typed_unauthorized
          split: option.splits)
  qed
qed

lemma on_auth_2fa_typed:
  assumes "\<not> authorized (fst s)"
  shows "typed (fst (fst (on_auth_2fa env now code hw s)))"
proof -
  obtain s1 ft ok where s1: "c_check_failure env now 1 Default s = (s1, ft, ok)" by (metis prod_cases3)
  have "fst s1 = fst s" using c_check_failure_conn [of env now 1 Default s] unfolding s1 by simp
  with assms show ?thesis
    unfolding on_auth_2fa_def s1
    by (simp add: send_logon_typed typed_unauthorized Let_def case_prod_beta split: option.splits bool.splits)
qed

lemma typed_cm_ipc: "typed (fst (try_start_cm_ipc s)) = typed (fst s)"
  by (cases s) (simp add: typed_def try_start_cm_ipc_def session_type_def)

lemma on_switch_sides_typed:
  assumes "\<not> authorized (fst s)"
  shows "typed (fst (fst (on_switch_sides env now lr_opt uuid s)))"
proof (cases lr_opt)
  case (Some l)
  obtain c w where s: "s = (c, w)" by (meson surj_pair)
  define s1 where "s1 = handle_login_request_without_validation env l (reset_session_scope_for_login c,
      w\<lparr>w_tokens := map_remove (retain_tokens now (w_tokens w)) (my_id l)\<rparr>)"
  let ?s2 = "((fst s1)\<lparr>from_switch := True, primary_auth := PA_SwitchSides\<rparr>, snd s1)"
  obtain s3 k where s3: "send_logon_response_and_keep_alive env now ?s2 = (s3, k)" by (meson surj_pair)
  have "\<not> authorized (fst ?s2)"
    using assms by (simp add: s s1_def handle_login_fields reset_session_scope_for_login_def)
  from send_logon_typed [OF this, of env now] have "typed (fst s3)" unfolding s3 by simp
  with assms show ?thesis
    by (simp add: on_switch_sides_def Some s s1_def [symmetric] s3 Let_def typed_cm_ipc typed_unauthorized split: option.splits bool.splits)
qed (use assms in \<open>simp add: on_switch_sides_def typed_unauthorized\<close>)

lemma on_message_typed:
  assumes "\<not> authorized (fst s)"
  shows "typed (fst (fst (on_message env now m s)))"
proof -
  have close: "typed (fst (on_close env r b s))" for r b
    using assms on_close_fields(1) [of env r b s] by (simp add: typed_unauthorized)
  have delay: "typed (fst (fst (on_test_delay env now b s)))" for b
    using typed_view [OF on_test_delay_view assms] .
  show ?thesis
    using assms close delay
    by (simp add: on_message_def keep_if_def Let_def case_prod_beta on_login_request_typed on_auth_2fa_typed on_switch_sides_typed
        typed_unauthorized split: login_msg.splits)
qed

lemma on_cm_authorize_typed:
  assumes "\<not> authorized (fst s)"
  shows "typed (fst (fst (on_cm_authorize env now s)))"
proof -
  let ?s = "((fst s)\<lparr>primary_auth := PA_Click, require_2fa := None\<rparr>, snd s)"
  obtain s1 k where s1: "send_logon_response_and_keep_alive env now ?s = (s1, k)" by (meson surj_pair)
  have "\<not> authorized (fst ?s)" using assms by simp
  from send_logon_typed [OF this, of env now] show ?thesis unfolding s1 by (simp add: on_cm_authorize_def s1 split: bool.splits)
qed

end
