(* ===== verification/ServerHub.thy ===== *)
theory ServerHub
  imports Service
begin

text \<open>
  The server of \<open>src/server.rs\<close>: the table of services by name and the table of connections.
  Connections subscribe to services by name; video services exist per monitor and per camera and are
  added on demand. The lemmas say who is subscribed to what after every operation, and the locale
  \<open>subscriber_hub\<close> is what a session relies on.
\<close>

section \<open>State\<close>

datatype video_source = Monitor | Camera

definition service_name_prefix :: "video_source \<Rightarrow> string" where
  "service_name_prefix src = (case src of Monitor \<Rightarrow> ''monitor'' | Camera \<Rightarrow> ''camera'')"

definition get_service_name :: "video_source \<Rightarrow> nat \<Rightarrow> string" where
  "get_service_name src idx = service_name_prefix src @ show_nat idx"

definition is_video_service_name :: "string \<Rightarrow> bool" where
  "is_video_service_name name \<longleftrightarrow> prefix (service_name_prefix Monitor) name \<or> prefix (service_name_prefix Camera) name"

definition NAME_AUDIO :: string where "NAME_AUDIO = ''audio''"
definition NAME_DISPLAY :: string where "NAME_DISPLAY = ''display''"
definition NAME_CLIPBOARD :: string where "NAME_CLIPBOARD = ''clipboard''"
definition FILE_NAME :: string where "FILE_NAME = ''file-clipboard''"
definition NAME_CURSOR :: string where "NAME_CURSOR = ''mouse_cursor''"
definition NAME_POS :: string where "NAME_POS = ''mouse_pos''"
definition NAME_WINDOW_FOCUS :: string where "NAME_WINDOW_FOCUS = ''window_focus''"

lemmas service_names = NAME_AUDIO_def NAME_DISPLAY_def NAME_CLIPBOARD_def FILE_NAME_def NAME_CURSOR_def NAME_POS_def NAME_WINDOW_FOCUS_def

text \<open>
  The services are a hash map; nothing depends on the order of its entries. The sender of a
  connection is left out, so that the table of connections is the list of their ids.
\<close>

record 'm server =
  connections :: "int list"
  hub_services :: "(string \<times> 'm service_inner) list"
  id_count :: int

section \<open>Operations\<close>

definition add_service :: "'m service_inner \<Rightarrow> 'm server \<Rightarrow> 'm server" where
  "add_service v s = s\<lparr>hub_services := AList.update (svc_name v) v (hub_services s)\<rparr>"

definition contains :: "string \<Rightarrow> 'm server \<Rightarrow> bool" where
  "contains name s \<longleftrightarrow> map_of (hub_services s) name \<noteq> None"

definition video_service_new :: "video_source \<Rightarrow> nat \<Rightarrow> 'm service_inner" where
  "video_service_new src idx = start_thread (service_tmpl_new (get_service_name src idx) True)"

text \<open>
  A new server, as on Linux with file copy and paste: \<open>embedded\<close> is whether the cursor is part of
  the captured image, \<open>x11\<close> the kind of the desktop, and \<open>r\<close> a random number.
\<close>

definition server_new :: "int \<Rightarrow> bool \<Rightarrow> bool \<Rightarrow> 'm server" where
  "server_new r embedded x11 =
     fold (\<lambda>(name, snap). add_service (start_thread (service_tmpl_new name snap)))
       ([(NAME_AUDIO, True), (NAME_DISPLAY, True), (NAME_CLIPBOARD, False), (FILE_NAME, False)]
        @ (if embedded then []
           else [(NAME_CURSOR, True), (NAME_POS, False)] @ (if x11 then [(NAME_WINDOW_FOCUS, False)] else [])))
       \<lparr>connections = [], hub_services = [], id_count = (if r < 0 then - ((- r) mod 1000) else r mod 1000) + 1000\<rparr>"

definition on_service :: "string \<Rightarrow> ('m service_inner \<Rightarrow> 'm service_inner) \<Rightarrow> 'm server \<Rightarrow> 'm server" where
  "on_service name f s =
     (case map_of (hub_services s) name of
        None \<Rightarrow> s
      | Some v \<Rightarrow> s\<lparr>hub_services := AList.update name (f v) (hub_services s)\<rparr>)"

definition subscribe :: "string \<Rightarrow> int \<Rightarrow> bool \<Rightarrow> 'm server \<Rightarrow> 'm server" where
  "subscribe name i sub s =
     on_service name (\<lambda>v. if is_subed i v = sub then v else if sub then on_subscribe i v else on_unsubscribe i v) s"

definition insert_connection :: "int \<Rightarrow> 'm server \<Rightarrow> 'm server" where
  "insert_connection i s = s\<lparr>connections := (if i \<in> set (connections s) then connections s else connections s @ [i])\<rparr>"

definition PRIMARY_CAMERA_IDX :: nat where "PRIMARY_CAMERA_IDX = 0"

definition try_add_primary_camera_service :: "bool \<Rightarrow> 'm server \<Rightarrow> 'm server" where
  "try_add_primary_camera_service camera_exists s =
     (if \<not> camera_exists then s
      else if \<not> contains (get_service_name Camera PRIMARY_CAMERA_IDX) s
      then add_service (video_service_new Camera PRIMARY_CAMERA_IDX) s else s)"

definition try_add_video_service :: "video_source \<Rightarrow> nat \<Rightarrow> 'm server \<Rightarrow> 'm server" where
  "try_add_video_service src idx s =
     (if \<not> contains (get_service_name src idx) s then add_service (video_service_new src idx) s else s)"

definition try_add_monitor_service :: "nat \<Rightarrow> 'm server \<Rightarrow> 'm server" where
  "try_add_monitor_service idx s = try_add_video_service Monitor idx s"

definition add_camera_connection :: "bool \<Rightarrow> int \<Rightarrow> 'm server \<Rightarrow> 'm server" where
  "add_camera_connection camera_exists i s =
     insert_connection i
       (if camera_exists then on_service (get_service_name Camera PRIMARY_CAMERA_IDX) (on_subscribe i) s else s)"

definition add_monitor_connection :: "int \<Rightarrow> string list \<Rightarrow> nat \<Rightarrow> 'm server \<Rightarrow> 'm server" where
  "add_monitor_connection i noperms display_idx s =
     insert_connection i
       (s\<lparr>hub_services := map (\<lambda>(k, v).
          (k, let name = svc_name v
              in if is_video_service_name name \<and> name \<noteq> get_service_name Monitor display_idx then v
                 else if name \<notin> set noperms then on_subscribe i v else v)) (hub_services s)\<rparr>)"

definition remove_connection :: "int \<Rightarrow> 'm server \<Rightarrow> 'm server" where
  "remove_connection i s =
     s\<lparr>hub_services := map (\<lambda>(k, v). (k, on_unsubscribe i v)) (hub_services s), connections := removeAll i (connections s)\<rparr>"

text \<open>\<open>i32\<close> arithmetic wraps in a release build.\<close>

definition get_new_id :: "'m server \<Rightarrow> 'm server \<times> int" where
  "get_new_id s = (let n = wrap_i32 (id_count s + 1) in (s\<lparr>id_count := n\<rparr>, n))"

definition set_video_service_opt :: "(video_source \<times> nat) option \<Rightarrow> string \<Rightarrow> string \<Rightarrow> 'm server \<Rightarrow> 'm server" where
  "set_video_service_opt display opt val s =
     s\<lparr>hub_services := map (\<lambda>(k, v).
        (k, if (case display of Some (src, d) \<Rightarrow> k \<noteq> get_service_name src d | None \<Rightarrow> False) then v
            else if is_video_service_name k then fst (set_option opt val v) else v)) (hub_services s)\<rparr>"

definition get_subbed_displays_count :: "int \<Rightarrow> 'm server \<Rightarrow> nat" where
  "get_subbed_displays_count i s =
     length (filter (\<lambda>k. is_video_service_name k
       \<and> (case map_of (hub_services s) k of Some v \<Rightarrow> is_subed i v | None \<Rightarrow> False)) (map fst (hub_services s)))"

definition capture_displays :: "int \<Rightarrow> video_source \<Rightarrow> nat list \<Rightarrow> bool \<Rightarrow> bool \<Rightarrow> 'm server \<Rightarrow> 'm server" where
  "capture_displays i src displays include exclude s =
     (let names = map (get_service_name src) displays
      in fold (\<lambda>name s.
           if is_video_service_name name
           then if name \<in> set names then if include then subscribe name i True s else s
                else if exclude then subscribe name i False s else s
           else s) (map fst (hub_services s)) s)"

definition server_drop :: "'m server \<Rightarrow> 'm server" where
  "server_drop s = s\<lparr>hub_services := map (\<lambda>(k, v). (k, join v)) (hub_services s)\<rparr>"

section \<open>The contract of the hub\<close>

text \<open>
  What a session relies on: a subscription request decides whether that connection is subscribed to
  that service, if the server has the service, and changes nothing else.
\<close>

locale subscriber_hub =
  fixes inv :: "'s \<Rightarrow> bool"
    and has :: "string \<Rightarrow> 's \<Rightarrow> bool"
    and subd :: "int \<Rightarrow> string \<Rightarrow> 's \<Rightarrow> bool"
    and sub :: "string \<Rightarrow> int \<Rightarrow> bool \<Rightarrow> 's \<Rightarrow> 's"
  assumes inv_sub: "inv s \<Longrightarrow> inv (sub n i b s)"
    and has_sub: "has m (sub n i b s) = has m s"
    and subd_sub: "inv s \<Longrightarrow> subd j m (sub n i b s) = (if j = i \<and> m = n \<and> has n s then b else subd j m s)"
begin

definition request :: "int \<Rightarrow> (string \<times> bool) list \<Rightarrow> 's \<Rightarrow> 's" where
  "request i = fold (\<lambda>(n, b). sub n i b)"

lemma request_inv: "inv s \<Longrightarrow> inv (request i rs s)"
  by (induction rs arbitrary: s) (simp_all add: request_def inv_sub case_prod_beta)

lemma request_has: "has m (request i rs s) = has m s"
  by (induction rs arbitrary: s) (simp_all add: request_def has_sub case_prod_beta)

lemma request_subd:
  "inv s \<Longrightarrow> subd j m (request i rs s) =
     (case map_of (rev rs) m of Some b \<Rightarrow> if j = i \<and> has m s then b else subd j m s | None \<Rightarrow> subd j m s)"
proof (induction rs arbitrary: s)
  case (Cons r rs)
  obtain n b where r: "r = (n, b)" by (meson surj_pair)
  from Cons.IH [OF inv_sub [OF Cons.prems], of n i b] Cons.prems show ?case
    by (auto simp: r request_def has_sub subd_sub map_add_def split: option.splits)
qed (simp add: request_def)

end

section \<open>Who is subscribed\<close>

definition sub_of :: "int \<Rightarrow> string \<Rightarrow> 'm server \<Rightarrow> bool" where
  "sub_of i name s = (case map_of (hub_services s) name of Some v \<Rightarrow> is_subed i v | None \<Rightarrow> False)"

definition hub_inv :: "'m server \<Rightarrow> bool" where
  "hub_inv s \<longleftrightarrow> distinct (map fst (hub_services s)) \<and> list_all (\<lambda>(k, v). svc_name v = k \<and> svc_inv v) (hub_services s)"

lemma hub_inv_lookup: "hub_inv s \<Longrightarrow> map_of (hub_services s) n = Some v \<Longrightarrow> svc_name v = n \<and> svc_inv v"
  by (auto simp: hub_inv_def list_all_iff dest: map_of_SomeD)

lemma hub_inv_update:
  "hub_inv s \<Longrightarrow> svc_name v = n \<Longrightarrow> svc_inv v \<Longrightarrow> hub_inv (s\<lparr>hub_services := AList.update n v (hub_services s)\<rparr>)"
  using set_update [of n v "hub_services s"] by (auto simp: hub_inv_def list_all_iff distinct_update)

lemma map_of_entries: "map_of (map (\<lambda>(k, v). (k, f k v)) xs) n = map_option (f n) (map_of xs n)"
  by (induction xs) auto

lemma hub_inv_entries:
  "hub_inv s \<Longrightarrow> (\<And>k v. svc_name v = k \<Longrightarrow> svc_inv v \<Longrightarrow> svc_name (f k v) = k \<and> svc_inv (f k v)) \<Longrightarrow>
   hub_inv (s\<lparr>hub_services := map (\<lambda>(k, v). (k, f k v)) (hub_services s)\<rparr>)"
  by (auto simp: hub_inv_def list_all_iff comp_def case_prod_beta)

lemma svc_name_ops [simp]:
  "svc_name (on_subscribe i v) = svc_name v" "svc_name (on_unsubscribe i v) = svc_name v" "svc_name (start_thread v) = svc_name v"
  "svc_name (service_tmpl_new n c) = n" "svc_name (join v) = svc_name v" "svc_name (fst (set_option a b v)) = svc_name v"
  by (simp_all add: on_subscribe_def on_unsubscribe_def start_thread_def service_tmpl_new_def join_def set_option_def)

lemma svc_ops_inv:
  assumes "svc_inv v"
  shows "svc_inv (on_subscribe i v)" "svc_inv (on_unsubscribe i v)" "svc_inv (join v)" "svc_inv (fst (set_option a b v))"
    "svc_inv (start_thread v)"
  using svc_step_inv [OF assms, of "Subscribe i"] svc_step_inv [OF assms, of "Unsubscribe i"] svc_step_inv [OF assms, of Join]
    svc_step_inv [OF assms, of "SetOption a b"] svc_step_inv [OF assms, of Start] by simp_all

lemma svc_ops_subed:
  assumes "svc_inv v"
  shows "is_subed j (on_subscribe i v) \<longleftrightarrow> j = i \<or> is_subed j v" "is_subed j (on_unsubscribe i v) \<longleftrightarrow> j \<noteq> i \<and> is_subed j v"
    "is_subed j (join v) = is_subed j v" "is_subed j (fst (set_option a b v)) = is_subed j v"
  using svc_step_subed [OF assms, of j "Subscribe i"] svc_step_subed [OF assms, of j "Unsubscribe i"] svc_step_subed [OF assms, of j Join]
    svc_step_subed [OF assms, of j "SetOption a b"] by auto

lemma new_service_ok: "svc_inv (start_thread (service_tmpl_new n b))" "\<not> is_subed i (start_thread (service_tmpl_new n b))"
  using svc_ops_inv(5) [OF svc_inv_new(1), of n b] svc_inv_new(2) [of i n b] by (simp_all add: is_subed_def start_thread_def)

lemma on_service_inv:
  "hub_inv s \<Longrightarrow> (\<And>v. svc_name (f v) = svc_name v) \<Longrightarrow> (\<And>v. svc_inv v \<Longrightarrow> svc_inv (f v)) \<Longrightarrow> hub_inv (on_service n f s)"
  using hub_inv_lookup [of s n] by (auto simp: on_service_def intro!: hub_inv_update split: option.split)

lemma on_service_lookup: "map_of (hub_services (on_service n f s)) m = (if m = n then map_option f (map_of (hub_services s) n) else map_of (hub_services s) m)"
  by (auto simp: on_service_def update_conv' split: option.split)

lemma subscribe_inv: "hub_inv s \<Longrightarrow> hub_inv (subscribe n i b s)"
  unfolding subscribe_def by (rule on_service_inv) (simp_all add: svc_ops_inv)

lemma contains_on_service: "contains m (on_service n f s) = contains m s"
  by (simp add: contains_def on_service_lookup)

lemma contains_subscribe: "contains m (subscribe n i b s) = contains m s"
  by (simp add: subscribe_def contains_on_service)

lemma sub_of_contains: "sub_of i n s \<Longrightarrow> contains n s"
  by (simp add: sub_of_def contains_def split: option.splits)

lemma sub_of_subscribe:
  assumes "hub_inv s"
  shows "sub_of j m (subscribe n i b s) = (if j = i \<and> m = n \<and> contains n s then b else sub_of j m s)"
proof (cases "map_of (hub_services s) n")
  case (Some v)
  with hub_inv_lookup [OF assms Some] show ?thesis
    by (auto simp: sub_of_def subscribe_def on_service_lookup contains_def svc_ops_subed)
qed (simp add: sub_of_def subscribe_def on_service_lookup contains_def)

interpretation hub: subscriber_hub hub_inv contains sub_of subscribe
  by unfold_locales (simp_all add: subscribe_inv contains_subscribe sub_of_subscribe)

lemma add_service_inv: "hub_inv s \<Longrightarrow> svc_inv v \<Longrightarrow> hub_inv (add_service v s)"
  by (simp add: add_service_def hub_inv_update)

lemma contains_add_service: "contains n (add_service v s) \<longleftrightarrow> n = svc_name v \<or> contains n s"
  by (auto simp: add_service_def contains_def update_conv')

lemma sub_of_add_service: "sub_of i n (add_service v s) = (if n = svc_name v then is_subed i v else sub_of i n s)"
  by (simp add: add_service_def sub_of_def update_conv')

lemma svc_name_video [simp]: "svc_name (video_service_new src idx) = get_service_name src idx"
  by (simp add: video_service_new_def)

lemma try_add_video:
  assumes "hub_inv s"
  shows "hub_inv (try_add_video_service src idx s)" "contains n (try_add_video_service src idx s) \<longleftrightarrow> n = get_service_name src idx \<or> contains n s"
    "sub_of i n (try_add_video_service src idx s) = sub_of i n s"
  using assms add_service_inv [OF assms, of "video_service_new src idx"] sub_of_contains [of i n s]
  by (auto simp: try_add_video_service_def contains_add_service sub_of_add_service video_service_new_def new_service_ok)

lemma hub_inv_connections: "hub_inv (s\<lparr>connections := xs\<rparr>) = hub_inv s" "hub_inv (insert_connection i s) = hub_inv s"
  "sub_of i n (insert_connection j s) = sub_of i n s" "contains n (insert_connection j s) = contains n s"
  by (simp_all add: hub_inv_def insert_connection_def sub_of_def contains_def)

lemma add_services:
  assumes "hub_inv s"
  defines "f \<equiv> \<lambda>(name, snap). add_service (start_thread (service_tmpl_new name snap))"
  shows "hub_inv (fold f xs s) \<and> (contains n (fold f xs s) \<longleftrightarrow> n \<in> fst ` set xs \<or> contains n s)
    \<and> (sub_of i n (fold f xs s) \<longrightarrow> sub_of i n s)"
  using assms(1)
proof (induction xs arbitrary: s)
  case (Cons x xs)
  obtain name snap where x: "x = (name, snap)" by (meson surj_pair)
  have "hub_inv (f x s)" using Cons.prems by (simp add: f_def x add_service_inv new_service_ok)
  from Cons.IH [OF this] show ?case
    by (auto simp: f_def x contains_add_service sub_of_add_service new_service_ok split: if_splits)
qed simp

lemma server_new_ok:
  "hub_inv (server_new r e x :: 'm server)" "\<not> sub_of i n (server_new r e x :: 'm server)"
  "contains n (server_new r e x :: 'm server) \<longleftrightarrow> n \<in> {NAME_AUDIO, NAME_DISPLAY, NAME_CLIPBOARD, FILE_NAME}
     \<or> \<not> e \<and> (n \<in> {NAME_CURSOR, NAME_POS} \<or> x \<and> n = NAME_WINDOW_FOCUS)"
proof -
  have 0: "hub_inv \<lparr>connections = [], hub_services = [], id_count = k\<rparr>" for k
    by (simp add: hub_inv_def)
  have "\<not> sub_of i n \<lparr>connections = [], hub_services = [], id_count = k\<rparr>" for k by (simp add: sub_of_def)
  with add_services [OF 0] show "hub_inv (server_new r e x :: 'm server)" "\<not> sub_of i n (server_new r e x :: 'm server)"
    unfolding server_new_def by blast+
  have "\<not> contains n \<lparr>connections = [], hub_services = [], id_count = k\<rparr>" for k by (simp add: contains_def)
  with add_services [OF 0] have eq: "contains n (fold (\<lambda>(name, snap). add_service (start_thread (service_tmpl_new name snap))) xs
      \<lparr>connections = [], hub_services = [], id_count = k\<rparr> :: 'm server) \<longleftrightarrow> n \<in> fst ` set xs" for xs k
    by blast
  show "contains n (server_new r e x :: 'm server) \<longleftrightarrow> n \<in> {NAME_AUDIO, NAME_DISPLAY, NAME_CLIPBOARD, FILE_NAME}
     \<or> \<not> e \<and> (n \<in> {NAME_CURSOR, NAME_POS} \<or> x \<and> n = NAME_WINDOW_FOCUS)"
    unfolding server_new_def eq by (cases e; cases x) auto
qed

lemma add_monitor_connection_ok:
  assumes "hub_inv s"
  shows "hub_inv (add_monitor_connection i np d s)" "contains n (add_monitor_connection i np d s) = contains n s"
    "sub_of j n (add_monitor_connection i np d s) \<longleftrightarrow> sub_of j n s
       \<or> j = i \<and> contains n s \<and> n \<notin> set np \<and> (is_video_service_name n \<longrightarrow> n = get_service_name Monitor d)"
proof -
  let ?f = "\<lambda>k v. let name = svc_name v
              in if is_video_service_name name \<and> name \<noteq> get_service_name Monitor d then v
                 else if name \<notin> set np then on_subscribe i v else v"
  let ?s = "s\<lparr>hub_services := map (\<lambda>(k, v). (k, ?f k v)) (hub_services s)\<rparr>"
  have "hub_inv ?s" by (rule hub_inv_entries [OF assms]) (auto simp: Let_def svc_ops_inv)
  then show "hub_inv (add_monitor_connection i np d s)"
    by (simp add: add_monitor_connection_def hub_inv_connections)
  show "contains n (add_monitor_connection i np d s) = contains n s"
    by (simp add: add_monitor_connection_def hub_inv_connections) (simp add: contains_def map_of_entries)
  show "sub_of j n (add_monitor_connection i np d s) \<longleftrightarrow> sub_of j n s
       \<or> j = i \<and> contains n s \<and> n \<notin> set np \<and> (is_video_service_name n \<longrightarrow> n = get_service_name Monitor d)"
  proof (cases "map_of (hub_services s) n")
    case (Some v)
    with hub_inv_lookup [OF assms Some] show ?thesis
      by (auto simp: add_monitor_connection_def hub_inv_connections) (auto simp: sub_of_def contains_def map_of_entries svc_ops_subed Let_def split: if_splits)
  qed (simp add: add_monitor_connection_def hub_inv_connections, simp add: sub_of_def contains_def map_of_entries)
qed

lemma remove_connection_ok:
  assumes "hub_inv s"
  shows "hub_inv (remove_connection i s)" "contains n (remove_connection i s) = contains n s"
    "sub_of j n (remove_connection i s) \<longleftrightarrow> j \<noteq> i \<and> sub_of j n s"
proof -
  have "hub_inv (s\<lparr>hub_services := map (\<lambda>(k, v). (k, on_unsubscribe i v)) (hub_services s)\<rparr>)"
    by (rule hub_inv_entries [OF assms]) (simp_all add: svc_ops_inv)
  then show "hub_inv (remove_connection i s)" by (simp add: remove_connection_def hub_inv_def)
  show "contains n (remove_connection i s) = contains n s"
    by (simp add: remove_connection_def contains_def map_of_entries)
  show "sub_of j n (remove_connection i s) \<longleftrightarrow> j \<noteq> i \<and> sub_of j n s"
  proof (cases "map_of (hub_services s) n")
    case (Some v)
    with hub_inv_lookup [OF assms Some] show ?thesis
      by (auto simp: remove_connection_def sub_of_def map_of_entries svc_ops_subed)
  qed (simp add: remove_connection_def sub_of_def map_of_entries)
qed

lemma capture_loop:
  assumes "hub_inv s"
  shows "hub_inv (fold (\<lambda>name s. if P name then subscribe name i (Q name) s else s) ns s)
    \<and> (\<forall>n. contains n (fold (\<lambda>name s. if P name then subscribe name i (Q name) s else s) ns s) = contains n s)
    \<and> (\<forall>j n. sub_of j n (fold (\<lambda>name s. if P name then subscribe name i (Q name) s else s) ns s)
          = (if j = i \<and> n \<in> set ns \<and> P n \<and> contains n s then Q n else sub_of j n s))"
  using assms
proof (induction ns arbitrary: s)
  case (Cons a ns)
  have "hub_inv (if P a then subscribe a i (Q a) s else s)" using Cons.prems by (simp add: subscribe_inv)
  from Cons.IH [OF this] Cons.prems show ?case
    by (auto simp: contains_subscribe sub_of_subscribe)
qed simp

lemma capture_displays_ok:
  assumes "hub_inv s"
  shows "hub_inv (capture_displays i src ds inc exc s)" "contains n (capture_displays i src ds inc exc s) = contains n s"
    "sub_of j n (capture_displays i src ds inc exc s) =
       (if j = i \<and> is_video_service_name n \<and> contains n s
        then if n \<in> get_service_name src ` set ds then inc \<or> sub_of i n s else \<not> exc \<and> sub_of i n s
        else sub_of j n s)"
proof -
  let ?N = "set (map (get_service_name src) ds)"
  let ?P = "\<lambda>n. is_video_service_name n \<and> (if n \<in> ?N then inc else exc)" and ?Q = "\<lambda>n. n \<in> ?N"
  have eq: "capture_displays i src ds inc exc s =
      fold (\<lambda>name s. if ?P name then subscribe name i (?Q name) s else s) (map fst (hub_services s)) s"
    unfolding capture_displays_def Let_def
    by (rule fold_cong) auto
  note loop = capture_loop [OF assms, of ?P i ?Q "map fst (hub_services s)"]
  show "hub_inv (capture_displays i src ds inc exc s)" "contains n (capture_displays i src ds inc exc s) = contains n s"
    using loop unfolding eq by blast+
  have "n \<in> set (map fst (hub_services s)) \<longleftrightarrow> contains n s" by (simp add: contains_def map_of_eq_None_iff)
  then show "sub_of j n (capture_displays i src ds inc exc s) =
       (if j = i \<and> is_video_service_name n \<and> contains n s
        then if n \<in> get_service_name src ` set ds then inc \<or> sub_of i n s else \<not> exc \<and> sub_of i n s
        else sub_of j n s)"
    using loop unfolding eq by auto
qed

end
