(* ===== verification/SessionState.thy ===== *)
theory SessionState
  imports LoginFrame TerminalService ServerHub
begin

text \<open>
  The state of an authorized session of \<open>Connection\<close> in \<open>src/server/connection.rs\<close>: the permissions
  given by the host's user, the options asked for by the peer, and the services of the server the
  connection is subscribed to. Modelled are the permission switches of the connection manager, the
  options of the peer, voice calls, the choice of displays, privacy mode, and the start of a session
  after its login, as on Linux with file copy and paste. The theorems relate permissions and
  subscriptions.
\<close>

section \<open>State\<close>

record conn_session =
  conn :: connection
  p_clipboard :: bool
  p_audio :: bool
  p_file :: bool
  p_restart :: bool
  p_recording :: bool
  p_block_input :: bool
  p_privacy_mode :: bool
  c_show_remote_cursor :: bool
  c_follow_remote_cursor :: bool
  c_follow_remote_window :: bool
  c_show_my_cursor :: bool
  c_disable_audio :: bool
  c_disable_clipboard :: bool
  c_disable_keyboard :: bool
  c_enable_file_transfer :: bool
  multi_ui_session :: bool
  services_subed :: bool
  voice_calling :: bool
  voice_call_request_timestamp :: "int option"
  display_idx :: nat
  auto_disconnect_timer :: "(nat \<times> nat) option"
  terminal_generic_service :: bool

datatype permission_kind =
  PermKeyboard | PermClipboard | PermAudio | PermFile | PermRestart | PermRecording | PermBlockInput | PermPrivacyMode

datatype privacy_state =
  PrvOnSucceeded | PrvOnFailedDenied | PrvOnFailedPlugin | PrvOnFailed | PrvOffSucceeded | PrvOffByPeer | PrvOffFailed | PrvNotSupported

text \<open>What a step does beyond the state: messages to the peer and to the connection manager, and calls into the platform.\<close>

datatype session_effect =
    E_Permission permission_kind bool
  | E_CmSwitchPermission string bool
  | E_Privacy privacy_state string string
  | E_PrivacyTurnOn string int
  | E_PrivacyTurnOff int
  | E_EmptyFileClipboard int
  | E_VoiceDevice bool
  | E_VoiceResponse int bool
  | E_CmStartVoiceCall
  | E_CmCloseVoiceCall
  | E_CmVoiceIncoming
  | E_BlockInput bool
  | E_BlockInputError bool
  | E_EncoderUpdate int
  | E_EncoderNewOnlyVP9 int
  | E_Whiteboard int bool
  | E_CursorUnsupported
  | E_DisplayChanged nat
  | E_Resolution nat int int
  | E_ReadDir string bool
  | E_LoginResponse bool
  | E_TerminalResponse "terminal_response list"
  | E_TerminalError string

record 'm host =
  hw :: world
  hub :: "'m server"
  terms :: term_state
  eff :: "session_effect list"

text \<open>What the code reads of the configuration, the desktop and the platform.\<close>

record session_env =
  lenv :: login_env
  tenv :: term_env
  shell :: shell_start
  one_way_clipboard :: bool
  one_way_file_transfer :: bool
  monitor_count :: nat
  camera_count :: nat
  primary_camera_exists :: bool
  auto_disconnect :: "nat option option"
  privacy_supported :: bool
  privacy_conn_id :: "int option"
  privacy_impl_key :: "string option"
  privacy_is_current :: "string \<Rightarrow> bool"
  privacy_turn_on :: "string \<Rightarrow> int \<Rightarrow> (string, bool) result option"
  privacy_check_err :: string
  privacy_turn_off :: "(string, unit) result option"
  display_count :: "nat option"
  display_server_error :: string
  login_displays :: "(string, nat) result"
  is_dir :: "string \<Rightarrow> bool"
  whiteboard_supported :: bool
  generated_service_id :: string

type_synonym 'm sst = "conn_session \<times> 'm host"

definition sid :: "conn_session \<Rightarrow> int" where
  "sid s = c_id (conn s)"

definition tell :: "session_effect list \<Rightarrow> 'm host \<Rightarrow> 'm host" where
  "tell es h = h\<lparr>eff := eff h @ es\<rparr>"

definition sub_hub :: "conn_session \<Rightarrow> string \<Rightarrow> bool \<Rightarrow> 'm host \<Rightarrow> 'm host" where
  "sub_hub s name b h = h\<lparr>hub := subscribe name (sid s) b (hub h)\<rparr>"

section \<open>Permissions\<close>

definition peer_keyboard_enabled :: "conn_session \<Rightarrow> bool" where
  "peer_keyboard_enabled s \<longleftrightarrow> keyboard (conn s) \<and> \<not> c_disable_keyboard s"

definition clipboard_enabled :: "conn_session \<Rightarrow> bool" where
  "clipboard_enabled s \<longleftrightarrow> p_clipboard s \<and> \<not> c_disable_clipboard s"

definition can_sub_clipboard_service :: "session_env \<Rightarrow> conn_session \<Rightarrow> bool" where
  "can_sub_clipboard_service env s \<longleftrightarrow> clipboard_enabled s \<and> peer_keyboard_enabled s \<and> \<not> one_way_clipboard env"

definition audio_enabled :: "conn_session \<Rightarrow> bool" where
  "audio_enabled s \<longleftrightarrow> p_audio s \<and> \<not> c_disable_audio s"

definition file_transfer_enabled :: "conn_session \<Rightarrow> bool" where
  "file_transfer_enabled s \<longleftrightarrow> p_file s \<and> c_enable_file_transfer s"

definition can_sub_file_clipboard_service :: "session_env \<Rightarrow> conn_session \<Rightarrow> bool" where
  "can_sub_file_clipboard_service env s \<longleftrightarrow> clipboard_enabled s \<and> file_transfer_enabled s \<and> \<not> one_way_file_transfer env"

definition is_remote :: "conn_session \<Rightarrow> bool" where
  "is_remote s \<longleftrightarrow> file_transfer (conn s) = None \<and> \<not> port_forward_socket (conn s) \<and> \<not> view_camera (conn s) \<and> \<not> terminal (conn s)"

definition is_authed_remote_conn :: "conn_session \<Rightarrow> bool" where
  "is_authed_remote_conn s \<longleftrightarrow> authed_conn_id (conn s) = Some Remote"

definition is_authed_view_camera_conn :: "conn_session \<Rightarrow> bool" where
  "is_authed_view_camera_conn s \<longleftrightarrow> authed_conn_id (conn s) = Some ViewCamera"

definition vid_source :: "conn_session \<Rightarrow> video_source" where
  "vid_source s = (if view_camera (conn s) then Camera else Monitor)"

definition video_source_count :: "session_env \<Rightarrow> video_source \<Rightarrow> nat" where
  "video_source_count env src = (case src of Monitor \<Rightarrow> monitor_count env | Camera \<Rightarrow> camera_count env)"

lemmas permission_defs = peer_keyboard_enabled_def clipboard_enabled_def can_sub_clipboard_service_def audio_enabled_def
  file_transfer_enabled_def can_sub_file_clipboard_service_def

section \<open>Timers\<close>

definition get_auto_disconenct_timer :: "session_env \<Rightarrow> nat \<Rightarrow> (nat \<times> nat) option" where
  "get_auto_disconenct_timer env t =
     (case auto_disconnect env of
        None \<Rightarrow> None
      | Some parsed \<Rightarrow> let minute = unwrap_or parsed 10 in Some (t, if minute = 0 then 10 else minute))"

definition update_auto_disconnect_timer :: "nat \<Rightarrow> conn_session \<Rightarrow> conn_session" where
  "update_auto_disconnect_timer t s =
     s\<lparr>auto_disconnect_timer := map_option (\<lambda>(_, minute). (t, minute)) (auto_disconnect_timer s)\<rparr>"

section \<open>Subscribing at the start of a session\<close>

definition try_sub_camera_displays :: "session_env \<Rightarrow> conn_session \<Rightarrow> 'm host \<Rightarrow> 'm host" where
  "try_sub_camera_displays env s h =
     h\<lparr>hub := add_camera_connection (primary_camera_exists env) (sid s)
               (try_add_primary_camera_service (primary_camera_exists env) (hub h))\<rparr>"

definition noperms :: "session_env \<Rightarrow> conn_session \<Rightarrow> string list" where
  "noperms env s =
     (if \<not> peer_keyboard_enabled s \<and> \<not> c_show_remote_cursor s then [NAME_CURSOR] else [])
     @ (if \<not> c_show_remote_cursor s then [NAME_POS] else [])
     @ (if \<not> c_follow_remote_window s then [NAME_WINDOW_FOCUS] else [])
     @ (if \<not> can_sub_clipboard_service env s then [NAME_CLIPBOARD] else [])
     @ (if \<not> can_sub_file_clipboard_service env s then [FILE_NAME] else [])
     @ (if \<not> audio_enabled s then [NAME_AUDIO] else [])"

definition try_sub_monitor_services :: "session_env \<Rightarrow> nat \<Rightarrow> 'm sst \<Rightarrow> 'm sst" where
  "try_sub_monitor_services env t st =
     (case st of (s, h) \<Rightarrow>
        if is_remote s \<and> \<not> services_subed s
        then let s' = s\<lparr>services_subed := True\<rparr>
             in (s'\<lparr>auto_disconnect_timer := get_auto_disconenct_timer env t\<rparr>,
                 h\<lparr>hub := add_monitor_connection (sid s) (noperms env s') (display_idx s)
                            (try_add_monitor_service (display_idx s) (hub h))\<rparr>)
        else st)"

section \<open>Privacy mode\<close>

definition turn_off_privacy_result_to_msg :: "(string, unit) result option \<Rightarrow> string \<Rightarrow> session_effect" where
  "turn_off_privacy_result_to_msg r impl_key =
     (case r of
        Some (Inr _) \<Rightarrow> E_Privacy PrvOffSucceeded [] impl_key
      | Some (Inl e) \<Rightarrow> E_Privacy PrvOffFailed e impl_key
      | None \<Rightarrow> E_Privacy PrvOffFailed ''Not supported'' impl_key)"

definition privacy_unsupported :: string where
  "privacy_unsupported = ''Unsupported. 1 Multi-screen is not supported. 2 Please confirm the license is activated.''"

definition turn_off_privacy :: "session_env \<Rightarrow> string \<Rightarrow> 'm sst \<Rightarrow> 'm sst" where
  "turn_off_privacy env impl_key st =
     (case st of (s, h) \<Rightarrow>
        (s, if \<not> privacy_supported env then tell [E_Privacy PrvNotSupported privacy_unsupported impl_key] h
            else tell [E_PrivacyTurnOff (sid s), turn_off_privacy_result_to_msg (privacy_turn_off env) impl_key] h))"

definition INVALID_PRIVACY_MODE_CONN_ID :: int where "INVALID_PRIVACY_MODE_CONN_ID = 0"

definition turn_on_privacy :: "session_env \<Rightarrow> string \<Rightarrow> 'm sst \<Rightarrow> 'm sst" where
  "turn_on_privacy env impl_key st =
     (case st of (s, h) \<Rightarrow>
        (s, if \<not> is_authed_remote_conn s \<or> \<not> p_privacy_mode s then tell [E_Privacy PrvOnFailedDenied [] impl_key] h
            else if \<not> privacy_supported env then tell [E_Privacy PrvNotSupported privacy_unsupported impl_key] h
            else
              let before = (case privacy_impl_key env of
                    Some k \<Rightarrow> if in_privacy_mode (lenv env) \<and> \<not> privacy_is_current env k then [E_Privacy PrvOffSucceeded [] k] else []
                  | None \<Rightarrow> []);
                  turn_on = [E_PrivacyTurnOn impl_key (sid s)]
              in tell (before @ turn_on @
                   (case privacy_turn_on env impl_key (sid s) of
                      Some (Inr True) \<Rightarrow>
                        (if privacy_check_err env = [] then [E_Privacy PrvOnSucceeded [] impl_key]
                         else [E_PrivacyTurnOff (sid s), E_Privacy PrvOnFailed (privacy_check_err env) impl_key])
                    | Some (Inr False) \<Rightarrow> [E_Privacy PrvOnFailedPlugin [] impl_key]
                    | Some (Inl e) \<Rightarrow>
                        (if in_privacy_mode (lenv env) then [E_PrivacyTurnOff INVALID_PRIVACY_MODE_CONN_ID] else [])
                        @ [E_Privacy PrvOnFailed e impl_key]
                    | None \<Rightarrow> [E_Privacy PrvOffFailed ''Not supported'' impl_key])) h))"

definition toggle_privacy_mode :: "session_env \<Rightarrow> bool \<Rightarrow> string \<Rightarrow> 'm sst \<Rightarrow> 'm sst" where
  "toggle_privacy_mode env on impl_key st = (if on then turn_on_privacy env impl_key st else turn_off_privacy env impl_key st)"

section \<open>Voice calls\<close>

definition handle_voice_call :: "bool \<Rightarrow> 'm sst \<Rightarrow> 'm sst" where
  "handle_voice_call accepted st =
     (case st of (s, h) \<Rightarrow>
        case voice_call_request_timestamp s of
          None \<Rightarrow> st
        | Some ts \<Rightarrow>
            (let s = s\<lparr>voice_call_request_timestamp := None, voice_calling := accepted\<rparr>;
                 h = tell ((if accepted then [E_VoiceDevice False, E_CmStartVoiceCall] else [E_CmCloseVoiceCall])
                           @ [E_VoiceResponse ts accepted]) h
             in (s, if is_authed_view_camera_conn s then sub_hub s NAME_AUDIO (audio_enabled s \<and> accepted) h else h)))"

definition close_voice_call :: "'m sst \<Rightarrow> 'm sst" where
  "close_voice_call st =
     (case st of (s, h) \<Rightarrow>
        let s = s\<lparr>voice_calling := False\<rparr>;
            h = tell [E_VoiceDevice True, E_CmCloseVoiceCall] h
        in (s, if is_authed_view_camera_conn s then sub_hub s NAME_AUDIO False h else h))"

section \<open>Permission switches of the connection manager\<close>

text \<open>The subscription to audio that follows a change of its permission or option.\<close>

definition resub_audio :: "conn_session \<Rightarrow> 'm host \<Rightarrow> 'm host" where
  "resub_audio s h =
     (if is_authed_view_camera_conn s
      then if voice_calling s \<or> \<not> audio_enabled s then sub_hub s NAME_AUDIO (audio_enabled s) h else h
      else sub_hub s NAME_AUDIO (audio_enabled s) h)"

definition switch_privacy_permission :: "session_env \<Rightarrow> bool \<Rightarrow> 'm sst \<Rightarrow> 'm sst" where
  "switch_privacy_permission env enabled st =
     (case st of (s, h) \<Rightarrow>
        let done = (\<lambda>h. (s\<lparr>p_privacy_mode := enabled\<rparr>, tell [E_Permission PermPrivacyMode enabled] h))
        in if \<not> enabled \<and> in_privacy_mode (lenv env) \<and> privacy_conn_id env = Some (sid s)
           then let impl_key = unwrap_or (privacy_impl_key env) [];
                    h = tell [E_PrivacyTurnOff (sid s)] h
                in case privacy_turn_off env of
                     Some (Inr _) \<Rightarrow> done (tell [E_Privacy PrvOffByPeer [] impl_key] h)
                   | r \<Rightarrow> (s, tell [turn_off_privacy_result_to_msg r impl_key, E_CmSwitchPermission ''privacy_mode'' (p_privacy_mode s)] h)
           else done h)"

definition switch_permission :: "session_env \<Rightarrow> string \<Rightarrow> bool \<Rightarrow> 'm sst \<Rightarrow> 'm sst" where
  "switch_permission env name enabled st =
     (case st of (s, h) \<Rightarrow>
        if name = ''keyboard''
        then let s = s\<lparr>conn := (conn s)\<lparr>keyboard := enabled\<rparr>\<rparr>
             in (s, sub_hub s NAME_CURSOR (enabled \<or> c_show_remote_cursor s)
                     (sub_hub s FILE_NAME (can_sub_file_clipboard_service env s)
                       (sub_hub s NAME_CLIPBOARD (can_sub_clipboard_service env s) (tell [E_Permission PermKeyboard enabled] h))))
        else if name = ''clipboard''
        then let s = s\<lparr>p_clipboard := enabled\<rparr>
             in (s, sub_hub s NAME_CLIPBOARD (can_sub_clipboard_service env s) (tell [E_Permission PermClipboard enabled] h))
        else if name = ''audio''
        then let s = s\<lparr>p_audio := enabled\<rparr>; h = tell [E_Permission PermAudio enabled] h
             in (s, if authorized (conn s) then resub_audio s h else h)
        else if name = ''file''
        then let s = s\<lparr>p_file := enabled\<rparr>;
                 h = tell (E_Permission PermFile enabled # (if enabled then [] else [E_EmptyFileClipboard (sid s)])) h
             in (s, sub_hub s FILE_NAME (can_sub_file_clipboard_service env s) h)
        else if name = ''restart'' then (s\<lparr>p_restart := enabled\<rparr>, tell [E_Permission PermRestart enabled] h)
        else if name = ''recording'' then (s\<lparr>p_recording := enabled\<rparr>, tell [E_Permission PermRecording enabled] h)
        else if name = ''block_input'' then (s\<lparr>p_block_input := enabled\<rparr>, tell [E_Permission PermBlockInput enabled] h)
        else if name = ''privacy_mode'' then switch_privacy_permission env enabled st
        else st)"

section \<open>Displays\<close>

definition refresh_video_display :: "nat option \<Rightarrow> 'm sst \<Rightarrow> 'm sst" where
  "refresh_video_display display st =
     (case st of (s, h) \<Rightarrow>
        (s, h\<lparr>hub := set_video_service_opt (map_option (\<lambda>d. (vid_source s, d)) display) ''refresh'' SERVICE_OPTION_VALUE_TRUE (hub h)\<rparr>))"

definition change_resolution :: "session_env \<Rightarrow> nat option \<Rightarrow> int \<Rightarrow> int \<Rightarrow> 'm sst \<Rightarrow> 'm sst" where
  "change_resolution env d width height st =
     (case st of (s, h) \<Rightarrow>
        (s, if keyboard (conn s)
            then case display_count env of
                   None \<Rightarrow> h
                 | Some n \<Rightarrow> let i = unwrap_or d (display_idx s) in if i < n then tell [E_Resolution i width height] h else h
            else h))"

definition switch_display_to :: "session_env \<Rightarrow> nat \<Rightarrow> 'm sst \<Rightarrow> 'm sst \<times> bool" where
  "switch_display_to env idx st =
     (case st of (s, h) \<Rightarrow>
        if idx \<ge> video_source_count env (vid_source s) then (st, False)
        else
          let u = try_add_video_service (vid_source s) idx (hub h);
              u = (if get_version_number (lenv env) (version (lr (conn s))) \<ge> get_version_number (lenv env) ''1.2.4'' then u
                   else subscribe (get_service_name (vid_source s) (display_idx s)) (sid s) False u);
              u = subscribe (get_service_name (vid_source s) idx) (sid s) True u
          in ((s\<lparr>display_idx := idx\<rparr>, h\<lparr>hub := u\<rparr>), True))"

definition handle_switch_display :: "session_env \<Rightarrow> nat \<Rightarrow> int \<Rightarrow> int \<Rightarrow> 'm sst \<Rightarrow> 'm sst" where
  "handle_switch_display env idx width height st =
     (if display_idx (fst st) \<noteq> idx
      then case switch_display_to env idx st of
             (st, False) \<Rightarrow> st
           | (st, True) \<Rightarrow>
               (let st = (if \<not> view_camera (conn (fst st)) \<and> width \<noteq> 0 \<and> height \<noteq> 0
                          then change_resolution env None width height st else st)
                in (fst st, tell [E_DisplayChanged (display_idx (fst st))] (snd st)))
      else st)"

definition conn_capture_displays :: "session_env \<Rightarrow> nat list \<Rightarrow> nat list \<Rightarrow> nat list \<Rightarrow> 'm sst \<Rightarrow> 'm sst" where
  "conn_capture_displays env add sub dset st =
     (case st of (s, h) \<Rightarrow>
        let src = vid_source s;
            valid = filter (\<lambda>d. d < video_source_count env src);
            valid_add = valid add; valid_sub = valid sub; valid_set = valid dset
        in if add \<noteq> [] \<and> valid_add = [] \<or> add = [] \<and> sub \<noteq> [] \<and> valid_sub = []
             \<or> add = [] \<and> sub = [] \<and> dset \<noteq> [] \<and> valid_set = []
           then st
           else
             let u = fold (try_add_video_service src) valid_set (fold (try_add_video_service src) valid_add (hub h));
                 u = (if add \<noteq> [] then capture_displays (sid s) src valid_add True False u
                      else if sub \<noteq> [] then capture_displays (sid s) src valid_sub False True u
                      else capture_displays (sid s) src valid_set True True u);
                 multi = get_subbed_displays_count (sid s) u > 1
             in (s\<lparr>multi_ui_session := multi\<rparr>,
                 h\<lparr>hub := (if c_follow_remote_window s then subscribe NAME_WINDOW_FOCUS (sid s) (\<not> multi) u else u)\<rparr>))"

section \<open>Terminals\<close>

definition update_terminal_persistence :: "bool \<Rightarrow> 'm sst \<Rightarrow> 'm sst" where
  "update_terminal_persistence persistent st =
     (case st of (s, h) \<Rightarrow>
        (s\<lparr>conn := (conn s)\<lparr>c_terminal_persistent := persistent\<rparr>\<rparr>,
         h\<lparr>terms := fst (set_persistent (terminal_service_id (conn s)) persistent (terms h))\<rparr>))"

definition init_terminal_service :: "session_env \<Rightarrow> nat \<Rightarrow> 'm sst \<Rightarrow> 'm sst" where
  "init_terminal_service env t st =
     (case st of (s, h) \<Rightarrow>
        case terminal_user_tok (conn s) of
          None \<Rightarrow> st
        | Some tok \<Rightarrow>
            (let c = conn s;
                 c = (if terminal_service_id c = [] then c\<lparr>terminal_service_id := generated_service_id env\<rparr> else c)
             in (s\<lparr>conn := c, terminal_generic_service := True\<rparr>,
                 h\<lparr>terms := fst (get_or_create_service t (terminal_service_id c) (c_terminal_persistent c)
                                  (to_terminal_service_token tok \<noteq> None) (terms h))\<rparr>)))"

definition handle_terminal_action :: "session_env \<Rightarrow> terminal_action \<Rightarrow> 'm sst \<Rightarrow> 'm sst" where
  "handle_terminal_action env action st =
     (case st of (s, h) \<Rightarrow>
        case terminal_user_tok (conn s) of
          None \<Rightarrow> st
        | Some _ \<Rightarrow>
            (case handle_action (tenv env) (shell env) (terminal_service_id (conn s)) action (terms h) of
               (ts, Inr (Some r)) \<Rightarrow> (s, tell [E_TerminalResponse [r]] (h\<lparr>terms := ts\<rparr>))
             | (ts, Inr None) \<Rightarrow> (s, h\<lparr>terms := ts\<rparr>)
             | (ts, Inl e) \<Rightarrow> (s, tell [E_TerminalError (''Failed to handle action: '' @ e)] (h\<lparr>terms := ts\<rparr>))))"

section \<open>Options of the peer\<close>

text \<open>A boolean option of the wire: \<open>None\<close> when it is not set or not known.\<close>

definition set_bool :: "int \<Rightarrow> bool option" where
  "set_bool n =
     (case bool_option_enum_value n of Inr BO_Yes \<Rightarrow> Some True | Inr BO_No \<Rightarrow> Some False | _ \<Rightarrow> None)"

definition upd_qos :: "(video_qos \<Rightarrow> video_qos) \<Rightarrow> 'm host \<Rightarrow> 'm host" where
  "upd_qos f h = h\<lparr>hw := (hw h)\<lparr>w_reg := (w_reg (hw h))\<lparr>qos := f (qos (w_reg (hw h)))\<rparr>\<rparr>\<rparr>"

definition update_quality :: "int \<Rightarrow> unit option_message \<Rightarrow> 'm sst \<Rightarrow> 'm sst option" where
  "update_quality time o' st =
     (case st of (s, h) \<Rightarrow>
        let n = (case image_quality_enum_value (image_quality o') of
                   Inl _ \<Rightarrow> - 1
                 | Inr IQ_NotSet \<Rightarrow> if custom_image_quality o' > 0 then custom_image_quality o' else - 1
                 | Inr _ \<Rightarrow> image_quality o')
        in if n > 0
           then map_option (\<lambda>q. (s, upd_qos (\<lambda>_. q) h)) (user_image_quality time (sid s) n (qos (w_reg (hw h))))
           else Some st)"

definition update_video_options :: "unit option_message \<Rightarrow> 'm sst \<Rightarrow> 'm sst" where
  "update_video_options o' st =
     (case st of (s, h) \<Rightarrow>
        let h = (if custom_fps o' > 0 then upd_qos (user_custom_fps (sid s) (nat (custom_fps o'))) h else h);
            h = (if supported_decoding o' \<noteq> None then tell [E_EncoderUpdate (sid s)] h else h);
            s = (case set_bool (lock_after_session_end o') of Some b \<Rightarrow> s\<lparr>conn := (conn s)\<lparr>c_lock_after_session_end := b\<rparr>\<rparr> | None \<Rightarrow> s)
        in (s, h))"

definition update_cursor_options :: "unit option_message \<Rightarrow> 'm sst \<Rightarrow> 'm sst" where
  "update_cursor_options o' st =
     (let st = (case set_bool (show_remote_cursor o') of
                  None \<Rightarrow> st
                | Some b \<Rightarrow>
                    (let s = (fst st)\<lparr>c_show_remote_cursor := b\<rparr>
                     in (s, sub_hub s NAME_POS (c_show_remote_cursor s)
                              (sub_hub s NAME_CURSOR (peer_keyboard_enabled s \<or> c_show_remote_cursor s) (snd st)))));
          st = (case set_bool (follow_remote_cursor o') of
                  None \<Rightarrow> st
                | Some b \<Rightarrow> ((fst st)\<lparr>c_follow_remote_cursor := b\<rparr>, snd st))
      in case set_bool (follow_remote_window o') of
           None \<Rightarrow> st
         | Some b \<Rightarrow>
             (let s = (fst st)\<lparr>c_follow_remote_window := b\<rparr>
              in (s, sub_hub s NAME_WINDOW_FOCUS (c_follow_remote_window s) (snd st))))"

definition update_media_options :: "session_env \<Rightarrow> unit option_message \<Rightarrow> 'm sst \<Rightarrow> 'm sst" where
  "update_media_options env o' st =
     (let st = (case set_bool (disable_audio o') of
                  None \<Rightarrow> st
                | Some b \<Rightarrow> (let s = (fst st)\<lparr>c_disable_audio := b\<rparr> in (s, resub_audio s (snd st))));
          st = (case set_bool (enable_file_transfer o') of
                  None \<Rightarrow> st
                | Some b \<Rightarrow>
                    (let s = (fst st)\<lparr>c_enable_file_transfer := b\<rparr>;
                         h = (if c_enable_file_transfer s then snd st else tell [E_EmptyFileClipboard (sid s)] (snd st))
                     in (s, sub_hub s FILE_NAME (can_sub_file_clipboard_service env s) h)));
          st = (case set_bool (disable_clipboard o') of
                  None \<Rightarrow> st
                | Some b \<Rightarrow>
                    (let s = (fst st)\<lparr>c_disable_clipboard := b\<rparr>
                     in (s, sub_hub s NAME_CLIPBOARD (can_sub_clipboard_service env s) (snd st))))
      in case set_bool (disable_keyboard o') of
           None \<Rightarrow> st
         | Some b \<Rightarrow>
             (let s = (fst st)\<lparr>c_disable_keyboard := b\<rparr>
              in (s, sub_hub s NAME_CURSOR (peer_keyboard_enabled s \<or> c_show_remote_cursor s)
                       (sub_hub s FILE_NAME (can_sub_file_clipboard_service env s)
                         (sub_hub s NAME_CLIPBOARD (can_sub_clipboard_service env s) (snd st))))))"

definition update_control_options :: "session_env \<Rightarrow> unit option_message \<Rightarrow> 'm sst \<Rightarrow> 'm sst" where
  "update_control_options env o' st =
     (let ver = get_version_number (lenv env);
          st = (if ver (version (lr (conn (fst st)))) < ver ''1.2.4'' \<and> keyboard (conn (fst st))
                then case set_bool (privacy_mode o') of
                       Some True \<Rightarrow> turn_on_privacy env [] st
                     | Some False \<Rightarrow> turn_off_privacy env [] st
                     | None \<Rightarrow> st
                else st);
          (s, h) = st
      in case set_bool (block_input o') of
           None \<Rightarrow> st
         | Some b \<Rightarrow> (s, tell [if keyboard (conn s) \<and> p_block_input s then E_BlockInput b else E_BlockInputError b] h))"

definition update_shared_options :: "session_env \<Rightarrow> unit option_message \<Rightarrow> 'm sst \<Rightarrow> 'm sst" where
  "update_shared_options env o' st =
     (let st = (case set_bool (terminal_persistent o') of None \<Rightarrow> st | Some b \<Rightarrow> update_terminal_persistence b st)
      in case set_bool (show_my_cursor o') of
           None \<Rightarrow> st
         | Some b \<Rightarrow>
             (let s = (fst st)\<lparr>c_show_my_cursor := b\<rparr>
              in (s, tell (if whiteboard_supported env then [E_Whiteboard (sid s) b]
                           else if b then [E_CursorUnsupported] else []) (snd st))))"

definition update_options :: "session_env \<Rightarrow> int \<Rightarrow> unit option_message \<Rightarrow> 'm sst \<Rightarrow> 'm sst option" where
  "update_options env time o' st =
     map_option (\<lambda>st. update_shared_options env o' (update_control_options env o'
        (update_media_options env o' (update_cursor_options o' (update_video_options o' st)))))
       (update_quality time o' st)"

section \<open>The start of a session\<close>

text \<open>
  What \<open>send_logon_response_and_keep_alive\<close> does once the tables of authorized connections are
  entered: the login response, the options of the login, and the first subscriptions.
\<close>

definition apply_login_options :: "session_env \<Rightarrow> int \<Rightarrow> 'm sst \<Rightarrow> 'm sst option" where
  "apply_login_options env time st =
     (case st of (s, h) \<Rightarrow>
        case update_scoped_login_options (authed_conn_id (conn s)) (options_in_login (conn s)) of
          (rest, scoped) \<Rightarrow>
            (let st = (s\<lparr>conn := (conn s)\<lparr>options_in_login := rest\<rparr>\<rparr>, h)
             in case scoped of None \<Rightarrow> Some st | Some o' \<Rightarrow> update_options env time o' st))"

definition update_codec_on_login :: "conn_session \<Rightarrow> session_effect" where
  "update_codec_on_login s =
     (case lr_option (lr (conn s)) of
        Some o' \<Rightarrow> if supported_decoding o' \<noteq> None then E_EncoderUpdate (sid s) else E_EncoderNewOnlyVP9 (sid s)
      | None \<Rightarrow> E_EncoderNewOnlyVP9 (sid s))"

text \<open>What follows the login response, by the kind of the session.\<close>

definition start_kind :: "session_env \<Rightarrow> nat \<Rightarrow> bool \<Rightarrow> 'm sst \<Rightarrow> 'm sst" where
  "start_kind env t ok st =
     (case st of (s, h) \<Rightarrow>
        let no_keyboard = s\<lparr>conn := (conn s)\<lparr>keyboard := False\<rparr>\<rparr>
        in case file_transfer (conn s) of
             Some (dir, show_hidden) \<Rightarrow>
               (no_keyboard, tell [E_ReadDir (if dir \<noteq> [] \<and> is_dir env dir then dir else []) show_hidden] h)
           | None \<Rightarrow>
               if terminal (conn s) then init_terminal_service env t (no_keyboard, h)
               else if view_camera (conn s)
               then (no_keyboard, tell [E_Permission PermKeyboard False] (try_sub_camera_displays env s h))
               else if ok then try_sub_monitor_services env t st
               else st)"

definition login_display :: "session_env \<Rightarrow> conn_session \<Rightarrow> conn_session \<times> bool" where
  "login_display env s =
     (if file_transfer (conn s) = None \<and> \<not> terminal (conn s) \<and> \<not> view_camera (conn s)
      then case login_displays env of Inl _ \<Rightarrow> (s, False) | Inr i \<Rightarrow> (s\<lparr>display_idx := i\<rparr>, True)
      else (s, True))"

definition begin_session :: "session_env \<Rightarrow> nat \<Rightarrow> 'm sst \<Rightarrow> 'm sst option" where
  "begin_session env t st =
     (case st of (s, h) \<Rightarrow>
        if port_forward_socket (conn s) then Some (s, tell [E_LoginResponse True] h)
        else if is_remote s \<and> display_server_error env \<noteq> [] then Some (s, tell [E_LoginResponse False] h)
        else
          let (s, ok) = login_display env s;
              h = tell ((if file_transfer (conn s) \<noteq> None \<or> terminal (conn s) then [] else [update_codec_on_login s])
                        @ [E_LoginResponse ok]) h
          in map_option (start_kind env t ok) (apply_login_options env (int t) (s, h)))"

end
