(* ===== verification/SessionInvariant.thy ===== *)
theory SessionInvariant
  imports SessionState
begin

text \<open>
  Permissions and subscriptions of a session agree: the operations of \<^verbatim>\<open>SessionState\<close> keep a remote
  desktop session subscribed to exactly the services its permissions and options allow, a camera
  session to audio only during a voice call, and act on the host only with the permission for it.
\<close>

section \<open>The hub during a session\<close>

lemma hub_tell [simp]: "hub (tell es h) = hub h"
  by (simp add: tell_def)

lemma eff_tell [simp]: "eff (tell es h) = eff h @ es"
  by (simp add: tell_def)

lemma eff_sub_hub [simp]: "eff (sub_hub s n b h) = eff h"
  by (simp add: sub_hub_def)

lemma hub_upd_qos [simp]: "hub (upd_qos f h) = hub h" "eff (upd_qos f h) = eff h"
  by (simp_all add: upd_qos_def)

lemma hub_sub_hub [simp]: "hub (sub_hub s n b h) = subscribe n (sid s) b (hub h)"
  by (simp add: sub_hub_def)

lemma names_distinct [simp]:
  "NAME_AUDIO \<noteq> NAME_CLIPBOARD" "NAME_AUDIO \<noteq> FILE_NAME" "NAME_AUDIO \<noteq> NAME_CURSOR" "NAME_AUDIO \<noteq> NAME_POS" "NAME_AUDIO \<noteq> NAME_WINDOW_FOCUS"
  "NAME_CLIPBOARD \<noteq> NAME_AUDIO" "NAME_CLIPBOARD \<noteq> FILE_NAME" "NAME_CLIPBOARD \<noteq> NAME_CURSOR" "NAME_CLIPBOARD \<noteq> NAME_POS" "NAME_CLIPBOARD \<noteq> NAME_WINDOW_FOCUS"
  "FILE_NAME \<noteq> NAME_AUDIO" "FILE_NAME \<noteq> NAME_CLIPBOARD" "FILE_NAME \<noteq> NAME_CURSOR" "FILE_NAME \<noteq> NAME_POS" "FILE_NAME \<noteq> NAME_WINDOW_FOCUS"
  "NAME_CURSOR \<noteq> NAME_AUDIO" "NAME_CURSOR \<noteq> NAME_CLIPBOARD" "NAME_CURSOR \<noteq> FILE_NAME" "NAME_CURSOR \<noteq> NAME_POS" "NAME_CURSOR \<noteq> NAME_WINDOW_FOCUS"
  "NAME_POS \<noteq> NAME_AUDIO" "NAME_POS \<noteq> NAME_CLIPBOARD" "NAME_POS \<noteq> FILE_NAME" "NAME_POS \<noteq> NAME_CURSOR" "NAME_POS \<noteq> NAME_WINDOW_FOCUS"
  "NAME_WINDOW_FOCUS \<noteq> NAME_AUDIO" "NAME_WINDOW_FOCUS \<noteq> NAME_CLIPBOARD" "NAME_WINDOW_FOCUS \<noteq> FILE_NAME" "NAME_WINDOW_FOCUS \<noteq> NAME_CURSOR"
  "NAME_WINDOW_FOCUS \<noteq> NAME_POS"
  by (simp_all add: service_names)

definition plain_names :: "string set" where
  "plain_names = {NAME_AUDIO, NAME_CLIPBOARD, FILE_NAME, NAME_CURSOR, NAME_POS, NAME_WINDOW_FOCUS}"

lemma plain_not_video: "n \<in> plain_names \<Longrightarrow> \<not> is_video_service_name n"
  by (auto simp: plain_names_def service_names is_video_service_name_def service_name_prefix_def)

lemma video_name: "is_video_service_name (get_service_name src d)"
  by (cases src) (simp_all add: is_video_service_name_def get_service_name_def)

lemma plain_not_service [simp]: "n \<in> plain_names \<Longrightarrow> n \<noteq> get_service_name src d"
  using plain_not_video video_name by blast

lemma plain_names [simp]: "NAME_AUDIO \<in> plain_names" "NAME_CLIPBOARD \<in> plain_names" "FILE_NAME \<in> plain_names" "NAME_CURSOR \<in> plain_names"
  "NAME_POS \<in> plain_names" "NAME_WINDOW_FOCUS \<in> plain_names"
  by (simp_all add: plain_names_def)

text \<open>Two hubs that agree on the services that are not video services.\<close>

definition same_plain :: "'m server \<Rightarrow> 'm server \<Rightarrow> bool" where
  "same_plain u u' \<longleftrightarrow> (hub_inv u \<longrightarrow> hub_inv u')
     \<and> (hub_inv u \<longrightarrow> (\<forall>n \<in> plain_names. contains n u' = contains n u \<and> (\<forall>i. sub_of i n u' = sub_of i n u)))"

lemma same_plain_refl [simp]: "same_plain u u"
  by (simp add: same_plain_def)

lemma same_plain_trans: "same_plain u v \<Longrightarrow> same_plain v w \<Longrightarrow> same_plain u w"
  by (auto simp: same_plain_def)

lemma same_plain_try_add: "same_plain u (try_add_video_service src d u)"
  by (auto simp: same_plain_def try_add_video)

lemma same_plain_try_adds: "same_plain u (fold (try_add_video_service src) ds u)"
  by (induction ds arbitrary: u) (auto intro: same_plain_trans same_plain_try_add)

lemma same_plain_subscribe_video: "same_plain u (subscribe (get_service_name src d) i b u)"
  by (auto simp: same_plain_def subscribe_inv contains_subscribe sub_of_subscribe)

lemma same_plain_capture: "same_plain u (capture_displays i src ds inc exc u)"
  by (auto simp: same_plain_def capture_displays_ok plain_not_video)

lemma same_plain_set_opt: "same_plain u (set_video_service_opt d opt val u)"
proof -
  let ?f = "\<lambda>k v. if (case d of Some (src, d) \<Rightarrow> k \<noteq> get_service_name src d | None \<Rightarrow> False) then v
            else if is_video_service_name k then fst (set_option opt val v) else v"
  have "hub_inv u \<Longrightarrow> hub_inv (set_video_service_opt d opt val u)" unfolding set_video_service_opt_def
    by (rule hub_inv_entries [where f = ?f]) (auto simp: svc_ops_inv)
  moreover have "map_of (hub_services (set_video_service_opt d opt val u)) n = map_of (hub_services u) n" if "n \<in> plain_names" for n
  proof -
    have "map_option (?f n) x = x" for x using plain_not_video [OF that] by (cases x) auto
    then show ?thesis unfolding set_video_service_opt_def by (simp add: map_of_entries [where f = ?f])
  qed
  ultimately show ?thesis by (auto simp: same_plain_def sub_of_def contains_def)
qed

section \<open>Subscriptions and permissions\<close>

text \<open>
  The services a remote desktop session may be subscribed to, and those it has to be subscribed to
  once it has begun (\<open>full\<close>), if the server has them. They differ for the cursor, where the code
  reads the peer's own option in one place and not in another, for the focus of windows, which is not
  sent while several displays are shown, and for the file clipboard. A camera session hears audio
  only during a voice call.
\<close>

definition allowed :: "session_env \<Rightarrow> conn_session \<Rightarrow> string \<Rightarrow> bool" where
  "allowed env s n \<longleftrightarrow>
     (if n = NAME_CLIPBOARD then can_sub_clipboard_service env s
      else if n = NAME_AUDIO then audio_enabled s
      else if n = NAME_POS then c_show_remote_cursor s
      else if n = NAME_CURSOR then keyboard (conn s) \<or> c_show_remote_cursor s
      else if n = NAME_WINDOW_FOCUS then c_follow_remote_window s
      else file_transfer_enabled s)"

definition required :: "session_env \<Rightarrow> conn_session \<Rightarrow> string \<Rightarrow> bool" where
  "required env s n \<longleftrightarrow>
     (if n = NAME_CLIPBOARD then can_sub_clipboard_service env s
      else if n = NAME_AUDIO then audio_enabled s
      else if n = NAME_POS then c_show_remote_cursor s
      else if n = NAME_CURSOR then peer_keyboard_enabled s \<or> c_show_remote_cursor s
      else False)"

definition remote_subs :: "bool \<Rightarrow> session_env \<Rightarrow> conn_session \<Rightarrow> 'm server \<Rightarrow> bool" where
  "remote_subs full env s u \<longleftrightarrow> (\<forall>n \<in> plain_names. (sub_of (sid s) n u \<longrightarrow> allowed env s n)
     \<and> (full \<and> contains n u \<and> required env s n \<longrightarrow> sub_of (sid s) n u))"

definition camera_subs :: "conn_session \<Rightarrow> 'm server \<Rightarrow> bool" where
  "camera_subs s u \<longleftrightarrow> (sub_of (sid s) NAME_AUDIO u \<longrightarrow> audio_enabled s \<and> voice_calling s)"

definition subs_ok :: "bool \<Rightarrow> session_env \<Rightarrow> 'm sst \<Rightarrow> bool" where
  "subs_ok full env st \<longleftrightarrow> (case st of (s, h) \<Rightarrow> hub_inv (hub h) \<and> authorized (conn s)
     \<and> (authed_conn_id (conn s) = Some Remote \<longrightarrow> remote_subs full env s (hub h))
     \<and> (authed_conn_id (conn s) = Some ViewCamera \<longrightarrow> camera_subs s (hub h)))"

lemmas session_defs = permission_defs sid_def is_authed_view_camera_conn_def is_authed_remote_conn_def resub_audio_def Let_def
lemmas allowed_defs = plain_names_def allowed_def required_def permission_defs

text \<open>
  A change of the session with requests to the hub: a service that is asked for gets what is now
  allowed and required, and for the others the change allows no less and requires no more.
\<close>

definition covers :: "session_env \<Rightarrow> conn_session \<Rightarrow> conn_session \<Rightarrow> (string \<rightharpoonup> bool) \<Rightarrow> bool" where
  "covers env s s' m \<longleftrightarrow> (\<forall>n \<in> plain_names. case m n of
       Some b \<Rightarrow> (b \<longrightarrow> allowed env s' n) \<and> (required env s' n \<longrightarrow> b)
     | None \<Rightarrow> (allowed env s n \<longrightarrow> allowed env s' n) \<and> (required env s' n \<longrightarrow> required env s n))"

definition audio_covers :: "conn_session \<Rightarrow> conn_session \<Rightarrow> (string \<rightharpoonup> bool) \<Rightarrow> bool" where
  "audio_covers s s' m \<longleftrightarrow> (case m NAME_AUDIO of
       Some b \<Rightarrow> b \<longrightarrow> audio_enabled s' \<and> voice_calling s'
     | None \<Rightarrow> audio_enabled s \<and> voice_calling s \<longrightarrow> audio_enabled s' \<and> voice_calling s')"

definition role :: "conn_session \<Rightarrow> int \<times> auth_conn_type option \<times> bool" where
  "role s = (sid s, authed_conn_id (conn s), authorized (conn s))"

lemma subs_request:
  assumes "subs_ok full env (s, h)" "role s' = role s" "hub h' = hub.request (sid s) rs (hub h)"
    "authed_conn_id (conn s) = Some Remote \<Longrightarrow> covers env s s' (map_of (rev rs))"
    "authed_conn_id (conn s) = Some ViewCamera \<Longrightarrow> audio_covers s s' (map_of (rev rs))"
  shows "subs_ok full env (s', h')"
proof -
  have inv: "hub_inv (hub h)" and auth: "authorized (conn s)" using assms(1) by (simp_all add: subs_ok_def)
  have r: "sid s' = sid s" "authed_conn_id (conn s') = authed_conn_id (conn s)" "authorized (conn s')" using assms(2) auth by (simp_all add: role_def)
  note req = hub.request_subd [OF inv, of "sid s" _ "sid s" rs] hub.request_has [of _ "sid s" rs "hub h"]
  have "remote_subs full env s' (hub h')" if t: "authed_conn_id (conn s) = Some Remote"
    unfolding remote_subs_def
  proof
    fix n assume n: "n \<in> plain_names"
    from assms(1) t n have "(sub_of (sid s) n (hub h) \<longrightarrow> allowed env s n) \<and> (full \<and> contains n (hub h) \<and> required env s n \<longrightarrow> sub_of (sid s) n (hub h))"
      by (simp add: subs_ok_def remote_subs_def)
    with assms(4) [OF t] n sub_of_contains [of "sid s" n "hub h"] show "(sub_of (sid s') n (hub h') \<longrightarrow> allowed env s' n)
      \<and> (full \<and> contains n (hub h') \<and> required env s' n \<longrightarrow> sub_of (sid s') n (hub h'))"
      by (cases "map_of (rev rs) n") (auto simp: covers_def assms(3) r req)
  qed
  moreover have "camera_subs s' (hub h')" if t: "authed_conn_id (conn s) = Some ViewCamera"
    using assms(1,5) t sub_of_contains [of "sid s" NAME_AUDIO "hub h"]
    by (auto simp: camera_subs_def subs_ok_def audio_covers_def assms(3) r req split: option.splits)
  ultimately show ?thesis by (simp add: subs_ok_def assms(3) r hub.request_inv [OF inv])
qed

text \<open>What the subscriptions depend on.\<close>

definition grants :: "conn_session \<Rightarrow> (int \<times> auth_conn_type option \<times> bool) \<times> (bool \<times> bool \<times> bool \<times> bool \<times> bool)
    \<times> (bool \<times> bool \<times> bool \<times> bool \<times> bool \<times> bool)" where
  "grants s = (role s, (keyboard (conn s), p_clipboard s, p_audio s, p_file s, voice_calling s),
     (c_disable_clipboard s, c_disable_audio s, c_disable_keyboard s, c_enable_file_transfer s, c_show_remote_cursor s, c_follow_remote_window s))"

lemmas grants_defs = grants_def role_def sid_def

lemma subs_ok_frame:
  assumes "subs_ok full env (s, h)" "same_plain (hub h) (hub h')" "grants s' = grants s"
  shows "subs_ok full env (s', h')"
proof -
  have "hub_inv (hub h)" using assms(1) by (simp add: subs_ok_def)
  with assms(2) have "hub_inv (hub h')" "n \<in> plain_names \<Longrightarrow> contains n (hub h') = contains n (hub h)"
    "n \<in> plain_names \<Longrightarrow> sub_of i n (hub h') = sub_of i n (hub h)" for i n
    by (auto simp: same_plain_def)
  moreover have "allowed env s' = allowed env s" "required env s' = required env s" "audio_enabled s' = audio_enabled s"
    using assms(3) by (auto simp: fun_eq_iff allowed_def required_def permission_defs grants_def)
  ultimately show ?thesis using assms(1,3) by (simp add: subs_ok_def remote_subs_def camera_subs_def grants_def role_def)
qed

lemma subs_ok_same: "subs_ok full env (s, h) \<Longrightarrow> grants s' = grants s \<Longrightarrow> subs_ok full env (s', h)"
  by (rule subs_ok_frame [OF _ same_plain_refl])

lemma subs_ok_hub: "subs_ok full env (s, h) \<Longrightarrow> same_plain (hub h) u \<Longrightarrow> subs_ok full env (s, h\<lparr>hub := u\<rparr>)"
  by (rule subs_ok_frame) simp_all

lemma subs_ok_tell [simp]: "subs_ok full env (s, tell es h) = subs_ok full env (s, h)"
  by (simp add: subs_ok_def)

lemma subs_ok_qos [simp]: "subs_ok full env (s, upd_qos f h) = subs_ok full env (s, h)"
  by (simp add: subs_ok_def)

section \<open>Every operation keeps them\<close>

lemmas request_simps = hub.request_def role_def sid_def covers_def audio_covers_def allowed_defs

lemma switch_keyboard_ok:
  assumes "subs_ok full env (s, h)"
  shows "subs_ok full env (switch_permission env ''keyboard'' b (s, h))"
  unfolding switch_permission_def by (simp add: Let_def)
    (rule subs_request [OF assms, where rs = "[(NAME_CLIPBOARD, can_sub_clipboard_service env (s\<lparr>conn := (conn s)\<lparr>keyboard := b\<rparr>\<rparr>)),
        (FILE_NAME, can_sub_file_clipboard_service env (s\<lparr>conn := (conn s)\<lparr>keyboard := b\<rparr>\<rparr>)), (NAME_CURSOR, b \<or> c_show_remote_cursor s)]"];
      simp add: request_simps; blast?)

lemma switch_clipboard_ok:
  assumes "subs_ok full env (s, h)"
  shows "subs_ok full env (switch_permission env ''clipboard'' b (s, h))"
  unfolding switch_permission_def by (simp add: Let_def)
    (rule subs_request [OF assms, where rs = "[(NAME_CLIPBOARD, can_sub_clipboard_service env (s\<lparr>p_clipboard := b\<rparr>))]"];
      simp add: request_simps)

lemma resub_audio_ok:
  assumes "subs_ok full env (s, h)" "role s' = role s" "hub h' = hub h" "covers env s s' [NAME_AUDIO \<mapsto> audio_enabled s']" "voice_calling s' = voice_calling s"
    "audio_enabled s' \<and> \<not> voice_calling s \<and> authed_conn_id (conn s) = Some ViewCamera \<Longrightarrow> \<not> sub_of (sid s) NAME_AUDIO (hub h)"
  shows "subs_ok full env (s', resub_audio s' h')"
proof (cases "authed_conn_id (conn s) = Some ViewCamera \<and> audio_enabled s' \<and> \<not> voice_calling s")
  case True
  with assms show ?thesis by (auto simp: resub_audio_def is_authed_view_camera_conn_def role_def subs_ok_def camera_subs_def)
next
  case False
  then have "resub_audio s' h' = sub_hub s' NAME_AUDIO (audio_enabled s') h'"
    using assms(2,5) by (auto simp: resub_audio_def is_authed_view_camera_conn_def role_def)
  then show ?thesis
    using False assms(2-5)
    by (intro subs_request [OF assms(1), where rs = "[(NAME_AUDIO, audio_enabled s')]"])
      (auto simp: hub.request_def audio_covers_def role_def)
qed

lemma camera_silent: "subs_ok full env (s, h) \<Longrightarrow> authed_conn_id (conn s) = Some ViewCamera \<Longrightarrow> \<not> voice_calling s \<Longrightarrow> \<not> sub_of (sid s) NAME_AUDIO (hub h)"
  by (auto simp: subs_ok_def camera_subs_def)

lemma switch_audio_ok:
  assumes "subs_ok full env (s, h)"
  shows "subs_ok full env (switch_permission env ''audio'' b (s, h))"
proof -
  have "authorized (conn s)" using assms by (simp add: subs_ok_def)
  moreover have "subs_ok full env (s\<lparr>p_audio := b\<rparr>, resub_audio (s\<lparr>p_audio := b\<rparr>) (tell [E_Permission PermAudio b] h))"
    by (rule resub_audio_ok [OF assms]) (use camera_silent [OF assms] in \<open>auto simp: request_simps\<close>)
  ultimately show ?thesis unfolding switch_permission_def by (simp add: Let_def)
qed

lemma switch_file_ok:
  assumes "subs_ok full env (s, h)"
  shows "subs_ok full env (switch_permission env ''file'' b (s, h))"
proof -
  have "subs_ok full env (s\<lparr>p_file := b\<rparr>, sub_hub (s\<lparr>p_file := b\<rparr>) FILE_NAME (can_sub_file_clipboard_service env (s\<lparr>p_file := b\<rparr>)) (tell es h))" for es
    by (rule subs_request [OF assms, where rs = "[(FILE_NAME, can_sub_file_clipboard_service env (s\<lparr>p_file := b\<rparr>))]"]; simp add: request_simps)
  then show ?thesis unfolding switch_permission_def by (simp add: Let_def)
qed

lemma switch_other_ok:
  assumes "subs_ok full env (s, h)" "name \<notin> {''keyboard'', ''clipboard'', ''audio'', ''file''}"
  shows "subs_ok full env (switch_permission env name b (s, h))"
proof -
  have "subs_ok full env (s\<lparr>p_privacy_mode := v\<rparr>, h)" "subs_ok full env (s\<lparr>p_restart := v\<rparr>, h)" "subs_ok full env (s\<lparr>p_recording := v\<rparr>, h)"
    "subs_ok full env (s\<lparr>p_block_input := v\<rparr>, h)" for v
    by (rule subs_ok_same [OF assms(1)], simp add: grants_def role_def sid_def)+
  with assms show ?thesis
    by (simp add: switch_permission_def switch_privacy_permission_def Let_def split: option.split sum.split)
qed

lemma switch_permission_ok:
  assumes "subs_ok full env st"
  shows "subs_ok full env (switch_permission env name b st)"
proof -
  obtain s h where st: "st = (s, h)" by (meson surj_pair)
  note ok = assms [unfolded st]
  show ?thesis unfolding st
    by (cases "name \<in> {''keyboard'', ''clipboard'', ''audio'', ''file''}")
      (auto intro: switch_file_ok [OF ok] switch_audio_ok [OF ok] switch_clipboard_ok [OF ok] switch_keyboard_ok [OF ok] switch_other_ok [OF ok])
qed

lemma handle_voice_call_ok:
  assumes "subs_ok full env (s, h)"
  shows "subs_ok full env (handle_voice_call b (s, h))"
proof (cases "voice_call_request_timestamp s")
  case (Some t)
  let ?s = "s\<lparr>voice_call_request_timestamp := None, voice_calling := b\<rparr>"
  have cam: "subs_ok full env (?s, sub_hub ?s NAME_AUDIO (audio_enabled ?s \<and> b) (tell es h))" if "is_authed_view_camera_conn s" for es
    by (rule subs_request [OF assms, where rs = "[(NAME_AUDIO, audio_enabled ?s \<and> b)]"])
      (use that in \<open>simp_all add: request_simps is_authed_view_camera_conn_def\<close>)
  have other: "subs_ok full env (?s, tell es h)" if "\<not> is_authed_view_camera_conn s" for es
    by (rule subs_request [OF assms, where rs = "[]"]) (use that in \<open>simp_all add: request_simps is_authed_view_camera_conn_def\<close>)
  have "is_authed_view_camera_conn ?s = is_authed_view_camera_conn s" by (simp add: is_authed_view_camera_conn_def)
  with cam other show ?thesis unfolding handle_voice_call_def by (simp add: Let_def Some)
qed (use assms in \<open>simp add: handle_voice_call_def\<close>)

lemma close_voice_call_ok:
  assumes "subs_ok full env (s, h)"
  shows "subs_ok full env (close_voice_call (s, h))"
proof (cases "is_authed_view_camera_conn s")
  case True
  then show ?thesis unfolding close_voice_call_def
    by (simp add: Let_def is_authed_view_camera_conn_def)
      (rule subs_request [OF assms, where rs = "[(NAME_AUDIO, False)]"]; simp add: request_simps)
next
  case False
  then show ?thesis unfolding close_voice_call_def
    by (simp add: Let_def is_authed_view_camera_conn_def)
      (rule subs_request [OF assms, where rs = "[]"]; simp add: request_simps)
qed

lemma refresh_video_display_ok: "subs_ok full env st \<Longrightarrow> subs_ok full env (refresh_video_display d st)"
  by (cases st) (simp add: refresh_video_display_def subs_ok_hub same_plain_set_opt)

lemma change_resolution_ok: "subs_ok full env st \<Longrightarrow> subs_ok full env (change_resolution env d w h st)"
  by (cases st) (simp add: change_resolution_def Let_def split: option.split)

lemma switch_display_to_ok: "subs_ok full env st \<Longrightarrow> subs_ok full env (fst (switch_display_to env d st))"
proof (cases st)
  case (Pair s h)
  define u where "u = try_add_video_service (vid_source s) d (hub h)"
  define v where "v = (if get_version_number (lenv env) (version (lr (conn s))) \<ge> get_version_number (lenv env) ''1.2.4'' then u
    else subscribe (get_service_name (vid_source s) (display_idx s)) (sid s) False u)"
  have "same_plain (hub h) v"
    unfolding v_def u_def by (simp add: same_plain_try_add same_plain_trans [OF same_plain_try_add same_plain_subscribe_video])
  then have "same_plain (hub h) (subscribe (get_service_name (vid_source s) d) (sid s) True v)"
    using same_plain_subscribe_video same_plain_trans by blast
  moreover assume "subs_ok full env st"
  ultimately show ?thesis
    unfolding Pair switch_display_to_def by (auto simp: Let_def u_def [symmetric] v_def [symmetric] grants_defs intro: subs_ok_frame)
qed

lemma handle_switch_display_ok:
  assumes "subs_ok full env st"
  shows "subs_ok full env (handle_switch_display env d w h st)"
proof -
  obtain st' b where s: "switch_display_to env d st = (st', b)" by (meson surj_pair)
  have "subs_ok full env st'" using switch_display_to_ok [OF assms, of d] s by simp
  moreover from this have "subs_ok full env (change_resolution env None w h st')" by (rule change_resolution_ok)
  ultimately show ?thesis using assms unfolding handle_switch_display_def s by (cases b) (simp_all add: Let_def)
qed

lemma capture_displays_session_ok: "subs_ok full env st \<Longrightarrow> subs_ok full env (conn_capture_displays env add sub dset st)"
proof (cases st)
  case (Pair s h)
  let ?src = "vid_source s" and ?v = "filter (\<lambda>d. d < video_source_count env (vid_source s))"
  define u where "u = (let u = fold (try_add_video_service ?src) (?v dset) (fold (try_add_video_service ?src) (?v add) (hub h))
     in if add \<noteq> [] then capture_displays (sid s) ?src (?v add) True False u
        else if sub \<noteq> [] then capture_displays (sid s) ?src (?v sub) False True u
        else capture_displays (sid s) ?src (?v dset) True True u)"
  define multi where "multi = (get_subbed_displays_count (sid s) u > Suc 0)"
  have "same_plain (hub h) u" unfolding u_def Let_def
    by (simp add: same_plain_trans [OF same_plain_trans [OF same_plain_try_adds same_plain_try_adds] same_plain_capture]
        same_plain_trans [OF same_plain_try_adds same_plain_capture])
  moreover assume "subs_ok full env st"
  ultimately have 1: "subs_ok full env (s\<lparr>multi_ui_session := multi\<rparr>, h\<lparr>hub := u\<rparr>)"
    unfolding Pair by (auto simp: grants_defs intro: subs_ok_frame)
  have 2: "subs_ok full env (s\<lparr>multi_ui_session := multi\<rparr>, h\<lparr>hub := subscribe NAME_WINDOW_FOCUS (sid s) (\<not> multi) u\<rparr>)"
    if "c_follow_remote_window s"
    by (rule subs_request [OF 1, where rs = "[(NAME_WINDOW_FOCUS, \<not> multi)]"]) (use that in \<open>simp_all add: request_simps\<close>)
  from 1 2 \<open>subs_ok full env st\<close> show ?thesis unfolding Pair
    by (simp add: conn_capture_displays_def Let_def u_def [unfolded Let_def, symmetric] multi_def [symmetric])
qed

lemma privacy_ok: "subs_ok full env st \<Longrightarrow> subs_ok full env (turn_on_privacy env k st)" "subs_ok full env st \<Longrightarrow> subs_ok full env (turn_off_privacy env k st)"
  by (cases st, simp add: turn_on_privacy_def turn_off_privacy_def Let_def)+

lemma toggle_privacy_ok: "subs_ok full env st \<Longrightarrow> subs_ok full env (toggle_privacy_mode env b k st)"
  by (simp add: toggle_privacy_mode_def privacy_ok)

lemma terminal_ok:
  "subs_ok full env st \<Longrightarrow> subs_ok full env (update_terminal_persistence b st)"
  "subs_ok full env st \<Longrightarrow> subs_ok full env (init_terminal_service env t st)"
  "subs_ok full env st \<Longrightarrow> subs_ok full env (handle_terminal_action env a st)"
  by (cases st, auto simp: update_terminal_persistence_def init_terminal_service_def handle_terminal_action_def Let_def grants_defs
      intro: subs_ok_frame split: option.split sum.split prod.split)+


section \<open>Options of the peer\<close>

lemma opt_ok: "subs_ok full env st \<Longrightarrow> (\<And>b. subs_ok full env (f b)) \<Longrightarrow> subs_ok full env (case x of None \<Rightarrow> st | Some b \<Rightarrow> f b)"
  by (cases x) simp_all

lemma let_ok: "subs_ok full env st \<Longrightarrow> (\<And>st. subs_ok full env st \<Longrightarrow> subs_ok full env (f st)) \<Longrightarrow> subs_ok full env (Let st f)"
  by (simp add: Let_def)

lemma pair_ok: "subs_ok full env st \<Longrightarrow> subs_ok full env (fst st, snd st)"
  by simp

lemma update_quality_ok: "subs_ok full env st \<Longrightarrow> update_quality t o' st = Some st' \<Longrightarrow> subs_ok full env st'"
  by (cases st) (auto simp: update_quality_def Let_def split: if_splits sum.splits)

lemma update_video_options_ok:
  assumes "subs_ok full env st"
  shows "subs_ok full env (update_video_options o' st)"
proof -
  obtain s h where st: "st = (s, h)" by (meson surj_pair)
  have "subs_ok full env (s\<lparr>conn := (conn s)\<lparr>c_lock_after_session_end := b\<rparr>\<rparr>, h)" for b
    by (rule subs_ok_same [OF assms [unfolded st]]) (simp_all add: grants_defs)
  with assms show ?thesis by (simp add: st update_video_options_def Let_def split: option.split)
qed

lemma option_show_cursor_ok:
  assumes "subs_ok full env st"
  shows "subs_ok full env (let s = (fst st)\<lparr>c_show_remote_cursor := b\<rparr>
    in (s, sub_hub s NAME_POS (c_show_remote_cursor s) (sub_hub s NAME_CURSOR (peer_keyboard_enabled s \<or> c_show_remote_cursor s) (snd st))))"
  unfolding Let_def
  by (rule subs_request [OF pair_ok [OF assms], where rs = "[(NAME_CURSOR, peer_keyboard_enabled (fst st) \<or> b), (NAME_POS, b)]"];
      simp add: request_simps; blast?)

lemma option_follow_cursor_ok: "subs_ok full env st \<Longrightarrow> subs_ok full env ((fst st)\<lparr>c_follow_remote_cursor := b\<rparr>, snd st)"
  by (rule subs_ok_same [OF pair_ok]) (simp_all add: grants_defs)

lemma option_follow_window_ok:
  assumes "subs_ok full env st"
  shows "subs_ok full env (let s = (fst st)\<lparr>c_follow_remote_window := b\<rparr> in (s, sub_hub s NAME_WINDOW_FOCUS (c_follow_remote_window s) (snd st)))"
  unfolding Let_def
  by (rule subs_request [OF pair_ok [OF assms], where rs = "[(NAME_WINDOW_FOCUS, b)]"]) (simp_all add: request_simps)

lemma update_cursor_options_ok: "subs_ok full env st \<Longrightarrow> subs_ok full env (update_cursor_options o' st)"
  unfolding update_cursor_options_def
  by (assumption | rule let_ok opt_ok option_show_cursor_ok option_follow_cursor_ok option_follow_window_ok)+

lemma option_audio_ok:
  assumes "subs_ok full env st"
  shows "subs_ok full env (let s = (fst st)\<lparr>c_disable_audio := b\<rparr> in (s, resub_audio s (snd st)))"
  unfolding Let_def
  by (rule resub_audio_ok [OF pair_ok [OF assms]]) (use camera_silent [OF pair_ok [OF assms]] in \<open>auto simp: request_simps\<close>)

lemma option_file_ok:
  assumes "subs_ok full env st"
  shows "subs_ok full env (let s = (fst st)\<lparr>c_enable_file_transfer := b\<rparr>;
                         h = (if c_enable_file_transfer s then snd st else tell [E_EmptyFileClipboard (sid s)] (snd st))
                     in (s, sub_hub s FILE_NAME (can_sub_file_clipboard_service env s) h))"
  unfolding Let_def
  by (rule subs_request [OF pair_ok [OF assms], where rs = "[(FILE_NAME, can_sub_file_clipboard_service env ((fst st)\<lparr>c_enable_file_transfer := b\<rparr>))]"])
    (simp_all add: request_simps)

lemma option_clipboard_ok:
  assumes "subs_ok full env st"
  shows "subs_ok full env (let s = (fst st)\<lparr>c_disable_clipboard := b\<rparr> in (s, sub_hub s NAME_CLIPBOARD (can_sub_clipboard_service env s) (snd st)))"
  unfolding Let_def
  by (rule subs_request [OF pair_ok [OF assms], where rs = "[(NAME_CLIPBOARD, can_sub_clipboard_service env ((fst st)\<lparr>c_disable_clipboard := b\<rparr>))]"])
    (simp_all add: request_simps)

lemma option_keyboard_ok:
  assumes "subs_ok full env st"
  shows "subs_ok full env (let s = (fst st)\<lparr>c_disable_keyboard := b\<rparr>
              in (s, sub_hub s NAME_CURSOR (peer_keyboard_enabled s \<or> c_show_remote_cursor s)
                       (sub_hub s FILE_NAME (can_sub_file_clipboard_service env s)
                         (sub_hub s NAME_CLIPBOARD (can_sub_clipboard_service env s) (snd st)))))"
  unfolding Let_def
  by (rule subs_request [OF pair_ok [OF assms], where rs = "[(NAME_CLIPBOARD, can_sub_clipboard_service env ((fst st)\<lparr>c_disable_keyboard := b\<rparr>)),
        (FILE_NAME, can_sub_file_clipboard_service env ((fst st)\<lparr>c_disable_keyboard := b\<rparr>)),
        (NAME_CURSOR, peer_keyboard_enabled ((fst st)\<lparr>c_disable_keyboard := b\<rparr>) \<or> c_show_remote_cursor (fst st))]"];
      simp add: request_simps; blast?)

lemma update_media_options_ok: "subs_ok full env st \<Longrightarrow> subs_ok full env (update_media_options env o' st)"
  unfolding update_media_options_def
  by (assumption | rule let_ok opt_ok option_audio_ok option_file_ok option_clipboard_ok option_keyboard_ok)+

lemma update_control_options_ok: "subs_ok full env st \<Longrightarrow> subs_ok full env (update_control_options env o' st)"
  unfolding update_control_options_def Let_def case_prod_beta
  by (simp add: privacy_ok split: option.split bool.split)

lemma option_my_cursor_ok:
  assumes "subs_ok full env st"
  shows "subs_ok full env (let s = (fst st)\<lparr>c_show_my_cursor := b\<rparr>
    in (s, tell (if whiteboard_supported env then [E_Whiteboard (sid s) b] else if b then [E_CursorUnsupported] else []) (snd st)))"
  unfolding Let_def subs_ok_tell
  by (rule subs_ok_same [OF pair_ok [OF assms]]) (simp_all add: grants_defs)

lemma update_shared_options_ok: "subs_ok full env st \<Longrightarrow> subs_ok full env (update_shared_options env o' st)"
  unfolding update_shared_options_def
  by (assumption | rule let_ok opt_ok terminal_ok option_my_cursor_ok)+

lemma update_options_ok:
  assumes "subs_ok full env st" "update_options env t o' st = Some st'"
  shows "subs_ok full env st'"
proof -
  from assms(2) obtain st1 where "update_quality t o' st = Some st1" "st' = update_shared_options env o' (update_control_options env o'
        (update_media_options env o' (update_cursor_options o' (update_video_options o' st1))))" by (auto simp: update_options_def)
  with update_quality_ok [OF assms(1)] show ?thesis
    by (simp add: update_shared_options_ok update_control_options_ok update_media_options_ok update_cursor_options_ok update_video_options_ok)
qed

section \<open>The start of a session\<close>

text \<open>What the options leave alone.\<close>

definition shape :: "conn_session \<Rightarrow> (int \<times> auth_conn_type option \<times> bool) \<times> ((string \<times> bool) option \<times> bool \<times> bool \<times> bool) \<times> bool \<times> nat" where
  "shape s = (role s, (file_transfer (conn s), view_camera (conn s), terminal (conn s), port_forward_socket (conn s)), services_subed s, display_idx s)"

lemmas shape_defs = shape_def role_def sid_def

lemma update_options_shape:
  assumes "update_options env t o' st = Some st'"
  shows "shape (fst st') = shape (fst st)"
proof -
  have 1: "shape (fst (update_video_options o' st)) = shape (fst st)" for st :: "'a sst"
    by (auto simp: update_video_options_def Let_def shape_defs split: option.split prod.split)
  have 2: "shape (fst (update_cursor_options o' st)) = shape (fst st)" for st :: "'a sst"
    by (auto simp: update_cursor_options_def Let_def shape_defs split: option.split)
  have 3: "shape (fst (update_media_options env o' st)) = shape (fst st)" for st :: "'a sst"
    by (auto simp: update_media_options_def Let_def shape_defs split: option.split)
  have p: "fst (turn_on_privacy env k st) = fst st" "fst (turn_off_privacy env k st) = fst st" for k and st :: "'a sst"
    by (simp_all add: turn_on_privacy_def turn_off_privacy_def case_prod_beta)
  have 4: "shape (fst (update_control_options env o' st)) = shape (fst st)" for st :: "'a sst"
    by (simp add: update_control_options_def Let_def p case_prod_beta split: option.split bool.split)
  have 5: "shape (fst (update_shared_options env o' st)) = shape (fst st)" for st :: "'a sst"
    by (auto simp: update_shared_options_def update_terminal_persistence_def Let_def shape_defs split: option.split prod.split)
  have 6: "fst st1 = fst st" if "update_quality t o' st = Some st1" for st1
    using that by (cases st) (auto simp: update_quality_def Let_def split: if_splits sum.splits)
  from assms 6 show ?thesis by (auto simp: update_options_def 1 2 3 4 5)
qed

lemma apply_login_options_ok:
  assumes "subs_ok full env st" "apply_login_options env t st = Some st'"
  shows "subs_ok full env st'" "shape (fst st') = shape (fst st)"
proof -
  obtain s h where st: "st = (s, h)" by (meson surj_pair)
  obtain rest scoped where sc: "update_scoped_login_options (authed_conn_id (conn s)) (options_in_login (conn s)) = (rest, scoped)"
    by (meson surj_pair)
  let ?st = "(s\<lparr>conn := (conn s)\<lparr>options_in_login := rest\<rparr>\<rparr>, h)"
  have ok: "subs_ok full env ?st" by (rule subs_ok_same [OF assms(1) [unfolded st]]) (simp add: grants_defs)
  have "subs_ok full env st' \<and> shape (fst st') = shape s"
  proof (cases scoped)
    case None
    with assms(2) ok show ?thesis by (auto simp: st sc apply_login_options_def shape_defs)
  next
    case (Some o')
    with assms(2) have u: "update_options env t o' ?st = Some st'" by (simp add: st sc apply_login_options_def)
    from update_options_ok [OF ok u] update_options_shape [OF u] show ?thesis by (simp add: shape_defs)
  qed
  then show "subs_ok full env st'" "shape (fst st') = shape (fst st)" by (simp_all add: st)
qed

lemma try_sub_monitor_ok:
  assumes "subs_ok False env (s, h)" "is_remote s" "\<not> services_subed s" "authed_conn_id (conn s) = Some Remote"
  shows "subs_ok True env (try_sub_monitor_services env t (s, h))"
proof -
  let ?s = "s\<lparr>services_subed := True\<rparr>"
  let ?u = "try_add_monitor_service (display_idx s) (hub h)"
  have inv: "hub_inv (hub h)" using assms(1) by (simp add: subs_ok_def)
  have same: "same_plain (hub h) ?u" unfolding try_add_monitor_service_def by (rule same_plain_try_add)
  then have invu: "hub_inv ?u" using inv by (simp add: same_plain_def)
  let ?s' = "?s\<lparr>auto_disconnect_timer := get_auto_disconenct_timer env t\<rparr>"
  have ok: "subs_ok False env (?s', h\<lparr>hub := ?u\<rparr>)" by (rule subs_ok_frame [OF assms(1)]) (simp_all add: same grants_defs)
  have "remote_subs True env ?s' (add_monitor_connection (sid s) (noperms env ?s) (display_idx s) ?u)"
    unfolding remote_subs_def
  proof
    fix n assume n: "n \<in> plain_names"
    from ok n assms(4) have w: "sub_of (sid ?s') n ?u \<longrightarrow> allowed env ?s' n" by (simp add: subs_ok_def remote_subs_def)
    have sid: "sid ?s' = sid s" by (simp add: sid_def)
    have np: "n \<notin> set (noperms env ?s) \<Longrightarrow> allowed env ?s' n" "required env ?s' n \<Longrightarrow> n \<notin> set (noperms env ?s)"
      using n by (auto simp: noperms_def allowed_defs)
    show "(sub_of (sid ?s') n (add_monitor_connection (sid s) (noperms env ?s) (display_idx s) ?u) \<longrightarrow> allowed env ?s' n)
      \<and> (True \<and> contains n (add_monitor_connection (sid s) (noperms env ?s) (display_idx s) ?u) \<and> required env ?s' n
          \<longrightarrow> sub_of (sid ?s') n (add_monitor_connection (sid s) (noperms env ?s) (display_idx s) ?u))"
      using w np plain_not_video [OF n] unfolding sid add_monitor_connection_ok [OF invu] by blast
  qed
  with assms show ?thesis
    by (simp add: try_sub_monitor_services_def subs_ok_def Let_def add_monitor_connection_ok [OF invu])
qed

lemma shape_kind:
  assumes "shape s' = shape s"
  shows "session_type (conn s') = session_type (conn s)" "is_remote s' = is_remote s" "sid s' = sid s" "authorized (conn s') = authorized (conn s)"
    "authed_conn_id (conn s') = authed_conn_id (conn s)" "services_subed s' = services_subed s" "file_transfer (conn s') = file_transfer (conn s)"
    "terminal (conn s') = terminal (conn s)" "view_camera (conn s') = view_camera (conn s)"
  using assms by (simp_all add: shape_defs session_type_def is_remote_def)

lemma no_keyboard_ok:
  assumes "subs_ok full env (s, h)" "authed_conn_id (conn s) \<noteq> Some Remote"
  shows "subs_ok full env (s\<lparr>conn := (conn s)\<lparr>keyboard := False\<rparr>\<rparr>, h)"
  by (rule subs_request [OF assms(1), where rs = "[]"]) (use assms(2) in \<open>simp_all add: request_simps\<close>)

lemma camera_displays_plain: "same_plain (hub h) (hub (try_sub_camera_displays env s h))"
proof -
  have a: "same_plain u (try_add_primary_camera_service b u)" for b and u :: "'a server"
    using same_plain_try_add [of u Camera PRIMARY_CAMERA_IDX] by (simp add: try_add_primary_camera_service_def try_add_video_service_def)
  have b: "same_plain u (add_camera_connection b i u)" for b i and u :: "'a server"
    unfolding same_plain_def add_camera_connection_def hub_inv_connections
    by (auto simp: contains_on_service on_service_inv svc_ops_inv sub_of_def on_service_lookup)
  show ?thesis unfolding try_sub_camera_displays_def using a b same_plain_trans by (simp, blast)
qed

text \<open>
  A session that begins: nothing is subscribed before, and the type of the session is the one that
  was entered at its login.
\<close>

definition fresh :: "'m sst \<Rightarrow> bool" where
  "fresh st \<longleftrightarrow> (case st of (s, h) \<Rightarrow> hub_inv (hub h) \<and> authorized (conn s) \<and> typed (conn s) \<and> \<not> services_subed s
     \<and> (\<forall>n \<in> plain_names. \<not> sub_of (sid s) n (hub h)))"

lemma fresh_ok: "fresh st \<Longrightarrow> subs_ok False env st"
  by (auto simp: fresh_def subs_ok_def remote_subs_def camera_subs_def)

lemma start_kind_ok:
  assumes "subs_ok False env (s, h)" "typed (conn s)" "\<not> port_forward_socket (conn s)" "\<not> services_subed s"
  shows "subs_ok False env (start_kind env t ok (s, h))"
    "session_type (conn s) = Remote \<Longrightarrow> ok \<Longrightarrow> subs_ok True env (start_kind env t ok (s, h))"
proof -
  have ty: "authed_conn_id (conn s) = Some (session_type (conn s))" using assms(1,2) by (simp add: subs_ok_def typed_def)
  have rem: "is_remote s" "file_transfer (conn s) = None" "\<not> terminal (conn s)" "\<not> view_camera (conn s)" if "session_type (conn s) = Remote"
    using that by (cases "file_transfer (conn s)"; simp add: session_type_def is_remote_def split: if_splits)+
  then have full: "subs_ok True env (try_sub_monitor_services env t (s, h))" if "session_type (conn s) = Remote"
    by (intro try_sub_monitor_ok [OF assms(1)]) (use that ty assms(4) in simp_all)
  with rem show "session_type (conn s) = Remote \<Longrightarrow> ok \<Longrightarrow> subs_ok True env (start_kind env t ok (s, h))"
    by (simp add: start_kind_def Let_def)
  have part: "subs_ok False env (try_sub_monitor_services env t (s, h))" if "session_type (conn s) = Remote"
    using full [OF that] by (auto simp: subs_ok_def remote_subs_def split: prod.splits)
  let ?s = "s\<lparr>conn := (conn s)\<lparr>keyboard := False\<rparr>\<rparr>"
  have kb: "subs_ok False env (?s, h)" if "session_type (conn s) \<noteq> Remote" using no_keyboard_ok [OF assms(1)] that ty by simp
  then have cam: "subs_ok False env (?s, try_sub_camera_displays env s h)" if "session_type (conn s) \<noteq> Remote"
    by (rule subs_ok_frame [OF _ camera_displays_plain]) (simp_all add: that)
  show "subs_ok False env (start_kind env t ok (s, h))"
  proof (cases "session_type (conn s) = Remote")
    case True
    with part assms(1) rem show ?thesis by (simp add: start_kind_def Let_def)
  next
    case False
    with assms(3) have "file_transfer (conn s) \<noteq> None \<or> terminal (conn s) \<or> view_camera (conn s)" by (auto simp: session_type_def split: if_splits)
    with kb [OF False] cam [OF False] terminal_ok(2) show ?thesis by (auto simp: start_kind_def Let_def split: option.splits)
  qed
qed

lemma login_display_ok:
  assumes "subs_ok full env (s, h)" "login_display env s = (s', ok)"
  shows "subs_ok full env (s', h)" "conn s' = conn s" "services_subed s' = services_subed s"
    "session_type (conn s) = Remote \<Longrightarrow> login_displays env = Inr i \<Longrightarrow> ok"
proof -
  have s': "s' = s \<or> (\<exists>i. s' = s\<lparr>display_idx := i\<rparr>)" using assms(2) by (auto simp: login_display_def split: if_splits sum.splits)
  then show "conn s' = conn s" "services_subed s' = services_subed s" by auto
  from s' have "grants s' = grants s" by (auto simp: grants_defs)
  with subs_ok_same [OF assms(1)] show "subs_ok full env (s', h)" by simp
  show "session_type (conn s) = Remote \<Longrightarrow> login_displays env = Inr i \<Longrightarrow> ok"
    using assms(2) by (auto simp: login_display_def split: if_splits)
qed

lemma begin_session_ok:
  assumes "fresh (s, h)" "begin_session env t (s, h) = Some st'"
  shows "subs_ok False env st'"
    "session_type (conn s) = Remote \<Longrightarrow> display_server_error env = [] \<Longrightarrow> login_displays env = Inr i \<Longrightarrow> subs_ok True env st'"
proof -
  have ty: "typed (conn s)" "\<not> services_subed s" using assms(1) by (simp_all add: fresh_def)
  have ok: "subs_ok False env (s, h)" using assms(1) by (rule fresh_ok)
  have *: "subs_ok False env st' \<and> (session_type (conn s) = Remote \<and> display_server_error env = [] \<and> login_displays env = Inr i \<longrightarrow> subs_ok True env st')"
  proof (cases "port_forward_socket (conn s) \<or> is_remote s \<and> display_server_error env \<noteq> []")
    case True
    with assms(2) ok show ?thesis by (auto simp: begin_session_def session_type_def split: if_splits)
  next
    case False
    obtain s1 okd where d: "login_display env s = (s1, okd)" by (meson surj_pair)
    note l = login_display_ok [OF ok d]
    let ?es = "(if file_transfer (conn s1) \<noteq> None \<or> terminal (conn s1) then [] else [update_codec_on_login s1]) @ [E_LoginResponse okd]"
    define es where "es = ?es"
    have "begin_session env t (s, h) = map_option (start_kind env t okd) (apply_login_options env (int t) (s1, tell es h))"
      using False d by (auto simp: begin_session_def Let_def es_def)
    with assms(2) obtain s2 h2 where a: "apply_login_options env (int t) (s1, tell es h) = Some (s2, h2)"
      and st': "st' = start_kind env t okd (s2, h2)" by auto
    have ok1: "subs_ok False env (s1, tell es h)" using l(1) by simp
    have sh: "shape s2 = shape s1" using apply_login_options_ok(2) [OF ok1 a] by simp
    note k = shape_kind [OF sh]
    have "typed (conn s2)" "\<not> port_forward_socket (conn s2)" "\<not> services_subed s2"
      using ty False l k sh by (auto simp: typed_def shape_defs)
    note st = start_kind_ok [OF apply_login_options_ok(1) [OF ok1 a] this]
    then show ?thesis unfolding st' using l(2,4) k(1) by auto
  qed
  then show "subs_ok False env st'"
    "session_type (conn s) = Remote \<Longrightarrow> display_server_error env = [] \<Longrightarrow> login_displays env = Inr i \<Longrightarrow> subs_ok True env st'" by blast+
qed

end
