(* ===== verification/ClipboardFiles.thy ===== *)
theory ClipboardFiles
  imports Prelude
begin

text \<open>
  Copy and paste of files, the side that owns the files: the list of copied files and its encoding
  (\<open>libs/clipboard/src/platform/unix/local_file.rs\<close>), the decoding at the other side
  (\<open>filetype.rs\<close>), and the service that answers requests for parts of files (\<open>serv_files.rs\<close>). A text
  is its list of Unicode scalar values, a path its list of names below the root. What the file
  system answers is the record \<open>clip_fs\<close>; the UTF-16 library is the record \<open>utf16\<close>. \<open>None\<close> as the
  result of an operation is a panic.
\<close>

unbundle bit_operations_syntax

section \<open>Texts and paths\<close>

type_synonym utext = "nat list"
type_synonym fpath = "utext list"

definition SLASH :: nat where "SLASH = 47"
definition BACKSLASH :: nat where "BACKSLASH = 92"

definition rel_text :: "fpath \<Rightarrow> utext" where
  "rel_text p = join_with SLASH p"

definition path_text :: "fpath \<Rightarrow> utext" where
  "path_text p = SLASH # rel_text p"

text \<open>\<open>Path::strip_prefix\<close> with the fallback of the code, as text.\<close>

definition stripped_text :: "fpath \<Rightarrow> fpath \<Rightarrow> utext" where
  "stripped_text root p = (if take (length root) p = root then rel_text (drop (length root) p) else path_text p)"

record utf16 =
  to_utf16le :: "utext \<Rightarrow> bytes"
  from_utf16le :: "bytes \<Rightarrow> utext option"

record fmeta =
  m_len :: nat
  m_is_dir :: bool
  m_is_file :: bool
  m_readonly :: bool
  m_modified :: "int option"
  m_mode :: nat

record clip_fs =
  stat :: "fpath \<Rightarrow> fmeta option"
  listing :: "fpath \<Rightarrow> utext option list option"
  content :: "fpath \<Rightarrow> bytes option"

datatype cliprdr_error = FileError utext | InvalidRequest string | ConversionFailure

section \<open>Local files\<close>

definition FLAGS_FD_ATTRIBUTES :: nat where "FLAGS_FD_ATTRIBUTES = 4"
definition FLAGS_FD_SIZE :: nat where "FLAGS_FD_SIZE = 64"
definition FLAGS_FD_LAST_WRITE :: nat where "FLAGS_FD_LAST_WRITE = 32"
definition FLAGS_FD_PROGRESSUI :: nat where "FLAGS_FD_PROGRESSUI = 16384"
definition FLAGS_FD_UNIX_MODE :: nat where "FLAGS_FD_UNIX_MODE = 8"
definition LDAP_EPOCH_DELTA :: nat where "LDAP_EPOCH_DELTA = 116444772610000000"

text \<open>The handle of an open file is the position its reader has reached.\<close>

record local_file =
  lf_root :: fpath
  lf_path :: fpath
  lf_handle :: "nat option"
  lf_offset :: nat
  lf_size :: nat
  lf_last_write :: int
  lf_is_dir :: bool
  lf_perm :: nat
  lf_read_only :: bool
  lf_hidden :: bool
  lf_system :: bool
  lf_archive :: bool
  lf_normal :: bool

definition starts_with_dot :: "utext \<Rightarrow> bool" where
  "starts_with_dot t = (case t of c # _ \<Rightarrow> c = 46 | [] \<Rightarrow> False)"

definition try_open :: "clip_fs \<Rightarrow> fpath \<Rightarrow> fpath \<Rightarrow> (cliprdr_error, local_file) result" where
  "try_open fs root path =
     (case stat fs path of
        None \<Rightarrow> Inl (FileError (path_text path))
      | Some mt \<Rightarrow>
          (let hidden = starts_with_dot (path_text path)
           in Inr \<lparr>lf_root = root, lf_path = path, lf_handle = None, lf_offset = 0, lf_size = m_len mt,
                lf_last_write = unwrap_or (m_modified mt) 0, lf_is_dir = m_is_dir mt, lf_perm = m_mode mt,
                lf_read_only = m_readonly mt, lf_hidden = hidden, lf_system = False, lf_archive = False,
                lf_normal = (\<not> (m_is_dir mt \<or> m_readonly mt \<or> hidden))\<rparr>))"

definition attribute_bits :: "local_file \<Rightarrow> nat" where
  "attribute_bits f =
     (if lf_read_only f then 1 else 0) + (if lf_hidden f then 2 else 0) + (if lf_system f then 4 else 0)
     + (if lf_is_dir f then 16 else 0) + (if lf_archive f then 32 else 0) + (if lf_normal f then 128 else 0)"

definition win32_time :: "int \<Rightarrow> nat" where
  "win32_time nanos = wrap_u64 (if nanos < 0 then 0 else nat nanos) div 100 + LDAP_EPOCH_DELTA"

definition fd_flags :: nat where
  "fd_flags = FLAGS_FD_SIZE + FLAGS_FD_LAST_WRITE + FLAGS_FD_ATTRIBUTES + FLAGS_FD_PROGRESSUI + FLAGS_FD_UNIX_MODE"

definition zeros :: "nat \<Rightarrow> bytes" where
  "zeros n = replicate n 0"

text \<open>A name of more than 520 bytes makes the length of the padding underflow.\<close>

definition as_bin :: "utf16 \<Rightarrow> local_file \<Rightarrow> bytes option" where
  "as_bin u f =
     (let name = to_utf16le u (stripped_text (lf_root f) (lf_path f))
      in if length name > 520 then None
         else Some (le_bytes 4 fd_flags @ zeros 32 @ le_bytes 4 (attribute_bits f) @ zeros 12 @ le_bytes 4 (lf_perm f)
                    @ le_bytes 8 (win32_time (lf_last_write f)) @ le_bytes 4 (lf_size f div 4294967296) @ le_bytes 4 (lf_size f)
                    @ name @ zeros (520 - length name)))"

definition load_handle :: "clip_fs \<Rightarrow> local_file \<Rightarrow> (cliprdr_error, local_file) result" where
  "load_handle fs f =
     (if \<not> lf_is_dir f \<and> lf_handle f = None
      then case content fs (lf_path f) of
             None \<Rightarrow> Inl (FileError (path_text (lf_path f)))
           | Some _ \<Rightarrow> Inr (f\<lparr>lf_handle := Some 0\<rparr>)
      else Inr f)"

definition invalidate_handle :: "local_file \<Rightarrow> local_file \<times> cliprdr_error" where
  "invalidate_handle f = (f\<lparr>lf_offset := 0, lf_handle := None\<rparr>, FileError (path_text (lf_path f)))"

text \<open>\<open>read_exact\<close> at the position of the reader; reading no bytes always succeeds.\<close>

definition read_exact :: "clip_fs \<Rightarrow> fpath \<Rightarrow> nat \<Rightarrow> nat \<Rightarrow> bytes option" where
  "read_exact fs p pos n =
     (case content fs p of
        None \<Rightarrow> None
      | Some d \<Rightarrow> if n = 0 \<or> pos + n \<le> length d then Some (take n (drop pos d)) else None)"

definition read_exact_at :: "clip_fs \<Rightarrow> local_file \<Rightarrow> nat \<Rightarrow> nat \<Rightarrow> local_file \<times> (cliprdr_error, bytes) result" where
  "read_exact_at fs f n offset =
     (case load_handle fs f of
        Inl e \<Rightarrow> (f, Inl e)
      | Inr f \<Rightarrow>
          (case lf_handle f of
             None \<Rightarrow> (f, Inl (FileError (path_text (lf_path f))))
           | Some pos \<Rightarrow>
               (let pos = (if offset \<noteq> lf_offset f then offset else pos)
                in case read_exact fs (lf_path f) pos n of
                     None \<Rightarrow> (let (f, e) = invalidate_handle f in (f, Inl e))
                   | Some buf \<Rightarrow>
                       (let new_offset = wrap_u64 (offset + n);
                            f = f\<lparr>lf_offset := new_offset, lf_handle := Some (pos + n)\<rparr>;
                            f = (if new_offset \<ge> lf_size f then f\<lparr>lf_offset := 0, lf_handle := None\<rparr> else f)
                        in (f, Inr buf)))))"

section \<open>The list of copied files\<close>

text \<open>
  The walk over a directory ends only when the file system ends it; \<open>None\<close> is a walk deeper than the
  fuel.
\<close>

type_synonym walk = "local_file list \<times> fpath list"

function (sequential) constr_file_lst :: "nat \<Rightarrow> clip_fs \<Rightarrow> fpath \<Rightarrow> fpath \<Rightarrow> walk \<Rightarrow> (cliprdr_error, walk) result option"
  and constr_entries :: "nat \<Rightarrow> clip_fs \<Rightarrow> fpath \<Rightarrow> fpath \<Rightarrow> utext option list \<Rightarrow> walk \<Rightarrow> (cliprdr_error, walk) result option" where
  "constr_file_lst 0 fs root path w = None"
| "constr_file_lst (Suc n) fs root path w =
     (case w of (files, visited) \<Rightarrow>
        if path \<in> set visited then Some (Inr w)
        else case try_open fs root path of
               Inl e \<Rightarrow> Some (Inl e)
             | Inr f \<Rightarrow>
                 (case stat fs path of
                    None \<Rightarrow> Some (Inl (FileError (path_text path)))
                  | Some mt \<Rightarrow>
                      if m_is_dir mt
                      then case listing fs path of
                             None \<Rightarrow> Some (Inl (FileError (path_text path)))
                           | Some es \<Rightarrow> constr_entries n fs root path es (files @ [f], path # visited)
                      else Some (Inr (files @ [f], path # visited))))"
| "constr_entries n fs root path [] w = Some (Inr w)"
| "constr_entries n fs root path (e # es) w =
     (case e of
        None \<Rightarrow> Some (Inl (FileError (path_text path)))
      | Some name \<Rightarrow>
          (case constr_file_lst n fs root (path @ [name]) w of
             None \<Rightarrow> None
           | Some (Inl err) \<Rightarrow> Some (Inl err)
           | Some (Inr w) \<Rightarrow> constr_entries n fs root path es w))"
  by pat_completeness auto

termination
  by (relation "measures [case_sum (\<lambda>(n, _). n) (\<lambda>(n, _). n), case_sum (\<lambda>_. 0) (\<lambda>(n, fs, root, path, es, w). Suc (length es))]") auto

fun constr_paths :: "nat \<Rightarrow> clip_fs \<Rightarrow> fpath \<Rightarrow> fpath list \<Rightarrow> walk \<Rightarrow> (cliprdr_error, walk) result option" where
  "constr_paths n fs root [] w = Some (Inr w)"
| "constr_paths n fs root (p # ps) w =
     (case constr_file_lst n fs root p w of
        None \<Rightarrow> None
      | Some (Inl err) \<Rightarrow> Some (Inl err)
      | Some (Inr w) \<Rightarrow> constr_paths n fs root ps w)"

definition construct_file_list :: "nat \<Rightarrow> clip_fs \<Rightarrow> fpath list \<Rightarrow> (cliprdr_error, local_file list) result option" where
  "construct_file_list n fs paths =
     (case paths of
        [] \<Rightarrow> Some (Inl (InvalidRequest ''empty file list''))
      | p # _ \<Rightarrow>
          if p = [] then Some (Inl (InvalidRequest ''empty parent''))
          else map_option (map_sum id fst) (constr_paths n fs (butlast p) paths ([], [])))"

section \<open>Decoding a list of files\<close>

datatype file_type = File | Directory | Symlink

definition PERM_READ :: nat where "PERM_READ = 292"
definition PERM_RW :: nat where "PERM_RW = 420"
definition PERM_SELF_RO :: nat where "PERM_SELF_RO = 256"
definition PERM_RWX :: nat where "PERM_RWX = 493"

record file_description =
  fd_conn_id :: int
  fd_name :: utext
  fd_kind :: file_type
  fd_modified :: nat
  fd_size :: nat
  fd_perm :: nat

text \<open>Reads of the byte buffer: \<open>None\<close> is the panic of reading past its end.\<close>

definition get_le :: "nat \<Rightarrow> bytes \<Rightarrow> (nat \<times> bytes) option" where
  "get_le n bs = (if length bs < n then None else Some (le_value (take n bs), drop n bs))"

definition advance :: "nat \<Rightarrow> bytes \<Rightarrow> bytes option" where
  "advance n bs = (if length bs < n then None else Some (drop n bs))"

fun trim_end_nul :: "utext \<Rightarrow> utext" where
  "trim_end_nul t = rev (dropWhile (\<lambda>c. c = 0) (rev t))"

definition has_bit :: "nat \<Rightarrow> nat \<Rightarrow> bool" where
  "has_bit v b \<longleftrightarrow> v div b mod 2 = 1"

definition choose_perm :: "nat \<Rightarrow> nat \<Rightarrow> nat \<Rightarrow> nat" where
  "choose_perm flags attributes perm =
     (if has_bit flags FLAGS_FD_UNIX_MODE then perm
      else if attributes = 128 then PERM_RWX
      else if has_bit attributes 1 then PERM_READ
      else if has_bit attributes 2 then PERM_SELF_RO
      else if has_bit attributes 16 then PERM_RWX
      else PERM_RW)"

text \<open>
  The time is in nanoseconds since 1970; its product wraps in a release build. A file description is
  the error of the text decoder first, then the missing attributes.
\<close>

definition modified_nanos :: "nat \<Rightarrow> nat \<Rightarrow> nat" where
  "modified_nanos flags t =
     (if has_bit flags FLAGS_FD_LAST_WRITE \<and> t \<ge> LDAP_EPOCH_DELTA then wrap_u64 ((t - LDAP_EPOCH_DELTA) * 100) else 0)"

definition parse_file_descriptor :: "utf16 \<Rightarrow> int \<Rightarrow> bytes \<Rightarrow> (bytes \<times> (cliprdr_error, file_description) result) option" where
  "parse_file_descriptor u conn_id bs =
     Option.bind (get_le 4 bs) (\<lambda>(flags, bs).
     Option.bind (advance 32 bs) (\<lambda>bs.
     Option.bind (get_le 4 bs) (\<lambda>(attributes, bs).
     Option.bind (advance 12 bs) (\<lambda>bs.
     Option.bind (get_le 4 bs) (\<lambda>(perm, bs).
     Option.bind (get_le 8 bs) (\<lambda>(last_write_time, bs).
     Option.bind (get_le 4 bs) (\<lambda>(size_high, bs).
     Option.bind (get_le 4 bs) (\<lambda>(size_low, bs).
     Option.bind (advance 520 bs) (\<lambda>rest.
       Some (rest,
         case from_utf16le u (take 520 bs) of
           None \<Rightarrow> Inl ConversionFailure
         | Some t \<Rightarrow>
             if \<not> has_bit flags FLAGS_FD_ATTRIBUTES
             then Inl (InvalidRequest ''file description must have valid attributes'')
             else Inr \<lparr>fd_conn_id = conn_id,
                    fd_name = trim_end_nul (map (\<lambda>c. if c = BACKSLASH then SLASH else c) t),
                    fd_kind = (if has_bit attributes 16 then Directory else File),
                    fd_modified = modified_nanos flags last_write_time,
                    fd_size = size_high * 4294967296 + size_low,
                    fd_perm = choose_perm flags attributes (perm mod 65536)\<rparr>))))))))))"

fun parse_all :: "nat \<Rightarrow> utf16 \<Rightarrow> int \<Rightarrow> bytes \<Rightarrow> (cliprdr_error, file_description list) result option" where
  "parse_all 0 u conn_id bs = Some (Inr [])"
| "parse_all (Suc n) u conn_id bs =
     (case parse_file_descriptor u conn_id bs of
        None \<Rightarrow> None
      | Some (bs, Inl e) \<Rightarrow> Some (Inl e)
      | Some (bs, Inr d) \<Rightarrow>
          (case parse_all n u conn_id bs of
             None \<Rightarrow> None
           | Some (Inl e) \<Rightarrow> Some (Inl e)
           | Some (Inr ds) \<Rightarrow> Some (Inr (d # ds))))"

definition parse_file_descriptors :: "utf16 \<Rightarrow> bytes \<Rightarrow> int \<Rightarrow> (cliprdr_error, file_description list) result option" where
  "parse_file_descriptors u pdu conn_id =
     (if length pdu < 4 then Some (Inl (InvalidRequest ''file descriptor request with infficient length''))
      else case get_le 4 pdu of
             None \<Rightarrow> None
           | Some (count, rest) \<Rightarrow>
               if rest = [] \<and> count = 0 then Some (Inr [])
               else if length rest \<noteq> 592 * count
               then Some (Inl (InvalidRequest ''file descriptor request with invalid length''))
               else parse_all count u conn_id rest)"

section \<open>The file service\<close>

datatype file_contents_request = Size int nat | Range int nat nat nat

record file_sig =
  sig_size :: nat
  sig_mtime :: "int option"
  sig_is_dir :: bool

record clip_files =
  cf_files :: "fpath list"
  cf_sigs :: "file_sig list"
  cf_list :: "local_file list"
  cf_first :: nat
  cf_pdu :: bytes

definition usize_max :: nat where "usize_max = 18446744073709551615"

definition fingerprint :: "clip_fs \<Rightarrow> fpath list \<Rightarrow> file_sig list" where
  "fingerprint fs files =
     map (\<lambda>p. case stat fs p of
                Some mt \<Rightarrow> \<lparr>sig_size = m_len mt, sig_mtime = m_modified mt, sig_is_dir = m_is_dir mt\<rparr>
              | None \<Rightarrow> \<lparr>sig_size = 0, sig_mtime = None, sig_is_dir = False\<rparr>) files"

definition clear_files :: "clip_files \<Rightarrow> clip_files" where
  "clear_files cf = \<lparr>cf_files = [], cf_sigs = [], cf_list = [], cf_first = usize_max, cf_pdu = []\<rparr>"

definition first_file :: "clip_fs \<Rightarrow> local_file list \<Rightarrow> nat" where
  "first_file fs files =
     (let n = length (takeWhile (\<lambda>f. case stat fs (lf_path f) of Some mt \<Rightarrow> m_is_dir mt | None \<Rightarrow> False) files)
      in if n < length files then n else usize_max)"

fun all_bins :: "utf16 \<Rightarrow> local_file list \<Rightarrow> bytes option" where
  "all_bins u [] = Some []"
| "all_bins u (f # fs) =
     (case as_bin u f of None \<Rightarrow> None | Some b \<Rightarrow> map_option (\<lambda>bs. b @ bs) (all_bins u fs))"

definition build_file_list_pdu :: "utf16 \<Rightarrow> clip_files \<Rightarrow> clip_files option" where
  "build_file_list_pdu u cf =
     map_option (\<lambda>bs. cf\<lparr>cf_pdu := le_bytes 4 (length (cf_list cf)) @ bs\<rparr>) (all_bins u (cf_list cf))"

definition sync_files :: "nat \<Rightarrow> utf16 \<Rightarrow> clip_fs \<Rightarrow> fpath list \<Rightarrow> clip_files \<Rightarrow> (clip_files \<times> (cliprdr_error, unit) result) option" where
  "sync_files n u fs files cf =
     (let current = fingerprint fs files
      in if cf_files cf = files \<and> cf_sigs cf = current \<and> \<not> list_ex sig_is_dir current then Some (cf, Inr ())
         else case construct_file_list n fs files of
                None \<Rightarrow> None
              | Some (Inl e) \<Rightarrow> Some (cf, Inl e)
              | Some (Inr fl) \<Rightarrow>
                  map_option (\<lambda>cf. (cf, Inr ()))
                    (build_file_list_pdu u (cf\<lparr>cf_list := fl, cf_first := first_file fs fl, cf_files := files, cf_sigs := current\<rparr>)))"

section \<open>Messages\<close>

datatype clipboard_file =
    NotifyCallback string string string
  | MonitorReady
  | FormatList "(int \<times> string) list"
  | FormatListResponse int
  | FormatDataRequest int
  | FormatDataResponse int bytes
  | FileContentsRequest int int int int int int bool int
  | FileContentsResponse int int bytes
  | TryEmpty
  | Files "(utext \<times> nat) list"

text \<open>The same on the wire; \<open>CliprdrNone\<close> is a message without a union.\<close>

datatype cliprdr =
    CliprdrReady
  | CliprdrFormatList "(int \<times> string) list"
  | CliprdrFormatListResponse int
  | CliprdrFormatDataRequest int
  | CliprdrFormatDataResponse int bytes
  | CliprdrFileContentsRequest int int int int int int bool int
  | CliprdrFileContentsResponse int int bytes
  | CliprdrTryEmpty
  | CliprdrFiles "(utext \<times> nat) list"
  | CliprdrNone

datatype clip_msg = ClipBox string string string | ClipWire cliprdr

definition is_stopping_allowed :: "clipboard_file \<Rightarrow> bool" where
  "is_stopping_allowed c = (case c of MonitorReady \<Rightarrow> True | FormatList _ \<Rightarrow> True | FormatDataRequest _ \<Rightarrow> True | _ \<Rightarrow> False)"

definition is_beginning_message :: "clipboard_file \<Rightarrow> bool" where
  "is_beginning_message c = (case c of MonitorReady \<Rightarrow> True | FormatList _ \<Rightarrow> True | _ \<Rightarrow> False)"

text \<open>A file listed with size zero is measured again.\<close>

definition measured :: "(utext \<Rightarrow> nat option) \<Rightarrow> utext \<times> nat \<Rightarrow> (utext \<times> nat) option" where
  "measured len f = (if snd f = 0 then map_option (\<lambda>n. (fst f, n)) (len (fst f)) else Some f)"

definition clip_2_msg :: "(utext \<Rightarrow> nat option) \<Rightarrow> clipboard_file \<Rightarrow> clip_msg" where
  "clip_2_msg len c =
     (case c of
        NotifyCallback ty title tx \<Rightarrow> ClipBox ty title tx
      | MonitorReady \<Rightarrow> ClipWire CliprdrReady
      | FormatList fl \<Rightarrow> ClipWire (CliprdrFormatList fl)
      | FormatListResponse f \<Rightarrow> ClipWire (CliprdrFormatListResponse f)
      | FormatDataRequest i \<Rightarrow> ClipWire (CliprdrFormatDataRequest i)
      | FormatDataResponse f d \<Rightarrow> ClipWire (CliprdrFormatDataResponse f d)
      | FileContentsRequest st li fl lo hi cb have cid \<Rightarrow> ClipWire (CliprdrFileContentsRequest st li fl lo hi cb have cid)
      | FileContentsResponse f st d \<Rightarrow> ClipWire (CliprdrFileContentsResponse f st d)
      | TryEmpty \<Rightarrow> ClipWire CliprdrTryEmpty
      | Files fs \<Rightarrow> ClipWire (CliprdrFiles (List.map_filter (measured len) fs)))"

definition msg_2_clip :: "cliprdr \<Rightarrow> clipboard_file option" where
  "msg_2_clip m =
     (case m of
        CliprdrReady \<Rightarrow> Some MonitorReady
      | CliprdrFormatList fl \<Rightarrow> Some (FormatList fl)
      | CliprdrFormatListResponse f \<Rightarrow> Some (FormatListResponse f)
      | CliprdrFormatDataRequest i \<Rightarrow> Some (FormatDataRequest i)
      | CliprdrFormatDataResponse f d \<Rightarrow> Some (FormatDataResponse f d)
      | CliprdrFileContentsRequest st li fl lo hi cb have cid \<Rightarrow> Some (FileContentsRequest st li fl lo hi cb have cid)
      | CliprdrFileContentsResponse f st d \<Rightarrow> Some (FileContentsResponse f st d)
      | CliprdrTryEmpty \<Rightarrow> Some TryEmpty
      | CliprdrFiles _ \<Rightarrow> None
      | CliprdrNone \<Rightarrow> None)"

section \<open>Answering requests\<close>

definition get_files_for_audit :: "clip_fs \<Rightarrow> clip_files \<Rightarrow> file_contents_request \<Rightarrow> clipboard_file option" where
  "get_files_for_audit fs cf req =
     (case req of
        Range _ idx offset _ \<Rightarrow>
          if idx = cf_first cf \<and> offset = 0
          then let files = map (\<lambda>f. (path_text (lf_path f), lf_size f))
                     (filter (\<lambda>f. case stat fs (lf_path f) of Some mt \<Rightarrow> m_is_file mt | None \<Rightarrow> False) (cf_list cf))
               in if files = [] then None else Some (Files files)
          else None
      | Size _ _ \<Rightarrow> None)"

text \<open>Opening the next file of the list ahead of its request.\<close>

fun hot_reload :: "clip_fs \<Rightarrow> local_file list \<Rightarrow> (cliprdr_error, local_file list) result" where
  "hot_reload fs [] = Inr []"
| "hot_reload fs (f # files) =
     (if lf_is_dir f then map_sum id (\<lambda>files. f # files) (hot_reload fs files)
      else map_sum id (\<lambda>f. f # files) (load_handle fs f))"

definition show_err :: "string \<Rightarrow> nat \<Rightarrow> int \<Rightarrow> cliprdr_error" where
  "show_err what idx conn_id = InvalidRequest (what @ show_nat idx @ '' requested from conn: '' @ show_int conn_id)"

text \<open>
  Serving one request. An allocation of more than \<open>isize::MAX\<close> bytes panics. The sums are \<open>u64\<close> sums
  that wrap in a release build.
\<close>

definition serve_file_contents ::
  "clip_fs \<Rightarrow> int \<Rightarrow> file_contents_request \<Rightarrow> clip_files \<Rightarrow> (clip_files \<times> (cliprdr_error, clipboard_file) result) option" where
  "serve_file_contents fs conn_id req cf =
     (let finish = (\<lambda>cf idx resp.
            case hot_reload fs (drop (idx + 1) (cf_list cf)) of
              Inl e \<Rightarrow> (cf, Inl e)
            | Inr rest \<Rightarrow> (cf\<lparr>cf_list := take (idx + 1) (cf_list cf) @ rest\<rparr>, Inr resp))
      in case req of
           Size st idx \<Rightarrow>
             if idx \<ge> length (cf_list cf) then Some (cf, Inl (show_err ''invalid file index '' idx conn_id))
             else Some (finish cf idx (FileContentsResponse 1 st (le_bytes 8 (lf_size (cf_list cf ! idx)))))
         | Range st idx offset len \<Rightarrow>
             if idx \<ge> length (cf_list cf) then Some (cf, Inl (show_err ''invalid file index '' idx conn_id))
             else
               let f = cf_list cf ! idx
               in if offset > lf_size f then Some (cf, Inl (InvalidRequest (''invalid reading offset requested from conn: '' @ show_int conn_id)))
                  else
                    let read_size = (if wrap_u64 (offset + len) > lf_size f then lf_size f - offset else len)
                    in if read_size \<ge> 9223372036854775808 then None
                       else case read_exact_at fs f read_size offset of
                              (f, Inl e) \<Rightarrow> Some (cf\<lparr>cf_list := (cf_list cf)[idx := f]\<rparr>, Inl e)
                            | (f, Inr buf) \<Rightarrow> Some (finish (cf\<lparr>cf_list := (cf_list cf)[idx := f]\<rparr>) idx (FileContentsResponse 1 st buf)))"

text \<open>\<open>as u64\<close> and \<open>as usize\<close> of an \<open>i32\<close> extend its sign.\<close>

definition i32_as_u64 :: "int \<Rightarrow> nat" where
  "i32_as_u64 n = (if n < 0 then nat (n + 18446744073709551616) else nat n)"

definition request_offset :: "int \<Rightarrow> int \<Rightarrow> nat" where
  "request_offset high low = unat (push_bit 32 (of_nat (i32_as_u64 high) :: 64 word) OR of_nat (i32_as_u64 low))"

definition read_file_contents ::
  "clip_fs \<Rightarrow> int \<Rightarrow> int \<Rightarrow> int \<Rightarrow> int \<Rightarrow> int \<Rightarrow> int \<Rightarrow> int \<Rightarrow> clip_files
     \<Rightarrow> (clip_files \<times> (cliprdr_error, clipboard_file) result list) option" where
  "read_file_contents fs conn_id st list_index dw_flags low high cb cf =
     (if dw_flags \<noteq> 1 \<and> dw_flags \<noteq> 2
      then Some (cf, [Inl (InvalidRequest (''got invalid FileContentsRequest, dw_flats: '' @ show_int dw_flags))])
      else
        let idx = i32_as_u64 list_index;
            req = (if dw_flags = 1 then Size st idx else Range st idx (request_offset high low) (i32_as_u64 cb));
            audit = (case get_files_for_audit fs cf req of Some c \<Rightarrow> [Inr c] | None \<Rightarrow> [])
        in map_option (\<lambda>(cf, r). (cf, audit @ [r])) (serve_file_contents fs conn_id req cf))"

definition FILEDESCRIPTOR_FORMAT_ID :: int where "FILEDESCRIPTOR_FORMAT_ID = 49334"
definition FILEDESCRIPTORW_FORMAT_NAME :: string where "FILEDESCRIPTORW_FORMAT_NAME = ''FileGroupDescriptorW''"
definition FILECONTENTS_FORMAT_ID :: int where "FILECONTENTS_FORMAT_ID = 49267"
definition FILECONTENTS_FORMAT_NAME :: string where "FILECONTENTS_FORMAT_NAME = ''FileContents''"

definition get_format_list :: clipboard_file where
  "get_format_list = FormatList [(FILEDESCRIPTOR_FORMAT_ID, FILEDESCRIPTORW_FORMAT_NAME), (FILECONTENTS_FORMAT_ID, FILECONTENTS_FORMAT_NAME)]"

text \<open>What serving a message does beside the answers: the pasting side is in \<^verbatim>\<open>FuseTree\<close>.\<close>

datatype clip_effect = PasteFiles bytes int | PasteContents int int bytes | EmptyClipboard int

definition fail_contents :: "int \<Rightarrow> clipboard_file" where
  "fail_contents st = FileContentsResponse 2 st []"

definition serve_clip_messages ::
  "clip_fs \<Rightarrow> clipboard_file \<Rightarrow> int \<Rightarrow> clip_files \<Rightarrow> (clip_files \<times> clipboard_file list \<times> clip_effect list) option" where
  "serve_clip_messages fs clip conn_id cf =
     (case clip of
        FormatList fl \<Rightarrow>
          Some (cf, if list_ex (\<lambda>(_, n). n = FILECONTENTS_FORMAT_NAME) fl
                    then case find (\<lambda>(_, n). n = FILEDESCRIPTORW_FORMAT_NAME) fl of
                           None \<Rightarrow> []
                         | Some (i, _) \<Rightarrow> [FormatDataRequest i]
                    else [], [])
      | FormatDataRequest _ \<Rightarrow>
          Some (cf, if cf_pdu cf \<noteq> [] then [FormatDataResponse 1 (cf_pdu cf)] else [FormatDataResponse 2 []], [])
      | FormatDataResponse flags d \<Rightarrow> Some (cf, [], if flags \<noteq> 1 then [] else [PasteFiles d conn_id])
      | FileContentsRequest st li fl lo hi cb _ _ \<Rightarrow>
          map_option (\<lambda>(cf, rs). (cf, map (\<lambda>r. case r of Inr c \<Rightarrow> c | Inl _ \<Rightarrow> fail_contents st) rs, []))
            (read_file_contents fs conn_id st li fl lo hi cb cf)
      | FileContentsResponse flags st d \<Rightarrow> Some (cf, [], [PasteContents flags st d])
      | TryEmpty \<Rightarrow> Some (cf, [], [EmptyClipboard conn_id])
      | _ \<Rightarrow> Some (cf, [], []))"

section \<open>The list survives the wire\<close>

lemma get_le_bytes: "get_le n (le_bytes n v @ bs) = Some (le_value (le_bytes n v), bs)"
  by (simp add: get_le_def)

lemma advance_zeros: "advance n (zeros n @ bs) = Some bs"
  by (simp add: advance_def zeros_def)

lemma parse_total:
  assumes "length bs \<ge> 592"
  shows "\<exists>r. parse_file_descriptor u c bs = Some (drop 592 bs, r)"
proof -
  have "\<not> length bs < 4" "\<not> length bs - 4 < 32" "\<not> length bs - 36 < 4" "\<not> length bs - 40 < 12" "\<not> length bs - 52 < 4"
    "\<not> length bs - 56 < 8" "\<not> length bs - 64 < 4" "\<not> length bs - 68 < 4" "\<not> length bs - 72 < 520"
    using assms by linarith+
  then show ?thesis by (simp add: parse_file_descriptor_def get_le_def advance_def)
qed

lemma parse_all_total: "length bs = 592 * n \<Longrightarrow> parse_all n u c bs \<noteq> None"
proof (induction n arbitrary: bs)
  case (Suc n)
  then obtain r where "parse_file_descriptor u c bs = Some (drop 592 bs, r)"
    using parse_total [of bs u c] by auto
  with Suc.IH [of "drop 592 bs"] Suc.prems show ?case by (auto split: sum.splits option.splits)
qed simp

text \<open>What the other side makes of a file: the seconds before 1970 and the fractions of 100 ns are lost.\<close>

definition described :: "int \<Rightarrow> local_file \<Rightarrow> file_description" where
  "described conn_id f =
     \<lparr>fd_conn_id = conn_id,
      fd_name = map (\<lambda>c. if c = BACKSLASH then SLASH else c) (stripped_text (lf_root f) (lf_path f)),
      fd_kind = (if lf_is_dir f then Directory else File),
      fd_modified = nat (lf_last_write f) div 100 * 100,
      fd_size = lf_size f,
      fd_perm = lf_perm f mod 65536\<rparr>"

text \<open>Values in the range of their Rust types, and a name the decoder gives back.\<close>

definition in_range :: "utf16 \<Rightarrow> local_file \<Rightarrow> bool" where
  "in_range u f \<longleftrightarrow> lf_size f < 2 ^ 64 \<and> lf_perm f < 2 ^ 32 \<and> lf_last_write f < 2 ^ 64
     \<and> (let t = stripped_text (lf_root f) (lf_path f); n = 520 - length (to_utf16le u t)
        in (\<exists>k. from_utf16le u (to_utf16le u t @ zeros n) = Some (t @ replicate k 0)) \<and> (case rev t of c # _ \<Rightarrow> c \<noteq> 0 | [] \<Rightarrow> True))"

lemma trim_end_nul_pad:
  assumes "case rev t of c # _ \<Rightarrow> c \<noteq> 0 | [] \<Rightarrow> True"
  shows "trim_end_nul (map (\<lambda>c. if c = BACKSLASH then SLASH else c) (t @ replicate k 0)) =
     map (\<lambda>c. if c = BACKSLASH then SLASH else c) t"
proof -
  have "dropWhile (\<lambda>c. c = 0) (replicate k (0::nat) @ xs) = dropWhile (\<lambda>c. c = 0) xs" for xs
    by (induction k) auto
  moreover have "dropWhile (\<lambda>c. c = 0) (rev (map (\<lambda>c. if c = BACKSLASH then SLASH else c) t)) =
      rev (map (\<lambda>c. if c = BACKSLASH then SLASH else c) t)"
    using assms by (cases "rev t") (auto simp: rev_map SLASH_def)
  ultimately have "dropWhile (\<lambda>c. c = 0) (rev (map (\<lambda>c. if c = BACKSLASH then SLASH else c) t @ replicate k 0)) =
      rev (map (\<lambda>c. if c = BACKSLASH then SLASH else c) t)" by simp
  then show ?thesis unfolding trim_end_nul.simps by (simp add: map_replicate_const BACKSLASH_def)
qed

lemma attribute_bits: "attribute_bits f < 256" "has_bit (attribute_bits f) 16 = lf_is_dir f"
  by (simp_all add: attribute_bits_def has_bit_def)

lemma modified_win32:
  assumes "t < 2 ^ 64"
  shows "win32_time t < 256 ^ 8" "modified_nanos fd_flags (win32_time t) = nat t div 100 * 100"
proof -
  define m where "m = (if t < 0 then 0 else nat t)"
  have m: "m < 18446744073709551616" "m = nat t" using assms by (auto simp: m_def)
  then have w: "wrap_u64 m = m" by (simp add: wrap_u64_eq)
  have le: "m div 100 \<le> 184467440737095516" using m(1) by simp
  show "win32_time t < 256 ^ 8"
    using le unfolding win32_time_def m_def [symmetric] w LDAP_EPOCH_DELTA_def by simp
  have t: "win32_time t = m div 100 + LDAP_EPOCH_DELTA" unfolding win32_time_def m_def [symmetric] w ..
  have "m div 100 * 100 < 2 ^ 64" using m(1) by simp
  then have "wrap_u64 (m div 100 * 100) = m div 100 * 100" unfolding wrap_u64_eq by simp
  then show "modified_nanos fd_flags (win32_time t) = nat t div 100 * 100"
    unfolding modified_nanos_def t m(2) [symmetric]
    by (simp add: has_bit_def fd_flags_def FLAGS_FD_LAST_WRITE_def FLAGS_FD_SIZE_def FLAGS_FD_ATTRIBUTES_def FLAGS_FD_PROGRESSUI_def
        FLAGS_FD_UNIX_MODE_def)
qed

lemma size_split:
  assumes "n < 2 ^ 64"
  shows "le_value (le_bytes 4 (n div 4294967296)) * 4294967296 + le_value (le_bytes 4 n) = n"
proof -
  have "n div 4294967296 < 256 ^ 4" using assms by simp
  moreover have "le_value (le_bytes 4 n) = n mod 4294967296"
  proof -
    have "le_value (le_bytes k n) = n mod 256 ^ k" for k n
      by (induction k arbitrary: n) (simp_all add: mod_mult2_eq)
    from this [of 4 n] show ?thesis by simp
  qed
  ultimately show ?thesis by (simp add: le_value_le_bytes)
qed

lemma as_bin_length: "as_bin u f = Some b \<Longrightarrow> length b = 592"
  by (auto simp: as_bin_def Let_def zeros_def split: if_splits)

lemma parse_as_bin:
  assumes "in_range u f" "as_bin u f = Some b"
  shows "parse_file_descriptor u c (b @ rest) = Some (rest, Inr (described c f))"
proof -
  define t where "t = stripped_text (lf_root f) (lf_path f)"
  define name where "name = to_utf16le u t @ zeros (520 - length (to_utf16le u t))"
  from assms(2) have le: "length (to_utf16le u t) \<le> 520"
    and b: "b = le_bytes 4 fd_flags @ zeros 32 @ le_bytes 4 (attribute_bits f) @ zeros 12 @ le_bytes 4 (lf_perm f)
       @ le_bytes 8 (win32_time (lf_last_write f)) @ le_bytes 4 (lf_size f div 4294967296) @ le_bytes 4 (lf_size f) @ name"
    by (auto simp: as_bin_def t_def [symmetric] name_def Let_def split: if_splits)
  have len: "length name = 520" using le by (simp add: name_def zeros_def)
  from assms(1) obtain k where k: "from_utf16le u name = Some (t @ replicate k 0)" and e: "case rev t of c # _ \<Rightarrow> c \<noteq> 0 | [] \<Rightarrow> True"
    by (auto simp: in_range_def t_def [symmetric] name_def Let_def)
  have r: "lf_size f < 2 ^ 64" "lf_perm f < 256 ^ 4" "lf_last_write f < 2 ^ 64" using assms(1) by (simp_all add: in_range_def)
  have v: "le_value (le_bytes 4 fd_flags) = fd_flags" "le_value (le_bytes 4 (attribute_bits f)) = attribute_bits f"
    "le_value (le_bytes 4 (lf_perm f)) = lf_perm f" "le_value (le_bytes 8 (win32_time (lf_last_write f))) = win32_time (lf_last_write f)"
    using attribute_bits(1) [of f] r modified_win32(1) [OF r(3)]
    by (simp_all add: le_value_le_bytes fd_flags_def FLAGS_FD_LAST_WRITE_def FLAGS_FD_SIZE_def FLAGS_FD_ATTRIBUTES_def
        FLAGS_FD_PROGRESSUI_def FLAGS_FD_UNIX_MODE_def)
  have flags: "has_bit fd_flags FLAGS_FD_ATTRIBUTES" "has_bit fd_flags FLAGS_FD_UNIX_MODE"
    by (simp_all add: has_bit_def fd_flags_def FLAGS_FD_LAST_WRITE_def FLAGS_FD_SIZE_def FLAGS_FD_ATTRIBUTES_def FLAGS_FD_PROGRESSUI_def
        FLAGS_FD_UNIX_MODE_def)
  have adv: "advance 520 (name @ rest) = Some rest" "take 520 name = name" "take (520 - length name) rest = []" using len by (simp_all add: advance_def)
  note nm = trim_end_nul_pad [OF e, of k]
  show ?thesis
    unfolding b append_assoc parse_file_descriptor_def
    by (simp add: get_le_bytes advance_zeros adv k nm flags choose_perm_def v
        size_split [OF r(1)] modified_win32(2) [OF r(3)] attribute_bits(2) described_def t_def [symmetric] del: trim_end_nul.simps map_append map_replicate)
qed

lemma all_bins_length: "all_bins u fs = Some bs \<Longrightarrow> length bs = 592 * length fs"
proof (induction fs arbitrary: bs)
  case (Cons f fs)
  then show ?case by (auto simp: as_bin_length split: option.splits)
qed simp

lemma parse_all_bins:
  assumes "list_all (in_range u) fs" "all_bins u fs = Some bs"
  shows "parse_all (length fs) u c bs = Some (Inr (map (described c) fs))"
  using assms
proof (induction fs arbitrary: bs)
  case (Cons f fs)
  then obtain b bs' where "as_bin u f = Some b" "all_bins u fs = Some bs'" "bs = b @ bs'"
    by (auto split: option.splits)
  with Cons parse_as_bin [of u f b c bs'] show ?case by simp
qed simp

text \<open>
  The list of copied files survives the wire: the other side decodes exactly one description per
  file, in order, with its name (where a backslash has become a slash), kind, size, the mode bits it
  keeps, and its time to 100 ns.
\<close>

lemma pdu_roundtrip:
  assumes "build_file_list_pdu u cf = Some cf'" "list_all (in_range u) (cf_list cf)" "length (cf_list cf) < 2 ^ 32"
  shows "parse_file_descriptors u (cf_pdu cf') c = Some (Inr (map (described c) (cf_list cf)))"
proof -
  from assms(1) obtain bs where bs: "all_bins u (cf_list cf) = Some bs" "cf_pdu cf' = le_bytes 4 (length (cf_list cf)) @ bs"
    by (auto simp: build_file_list_pdu_def)
  have "le_value (le_bytes 4 (length (cf_list cf))) = length (cf_list cf)"
    using assms(3) by (simp add: le_value_le_bytes)
  with bs all_bins_length [OF bs(1)] parse_all_bins [OF assms(2) bs(1), of c] show ?thesis
    by (auto simp: parse_file_descriptors_def get_le_bytes)
qed

text \<open>
  No list of file descriptions that a peer sends makes the decoder panic, whatever its bytes.
\<close>

theorem descriptor_parser_total: "parse_file_descriptors u pdu c \<noteq> None"
  using parse_all_total [of "drop 4 pdu" "le_value (take 4 pdu)" u c]
  by (auto simp: parse_file_descriptors_def get_le_def)

lemma all_bins_None: "all_bins u fs = None \<longleftrightarrow> list_ex (\<lambda>f. length (to_utf16le u (stripped_text (lf_root f) (lf_path f))) > 520) fs"
  by (induction fs) (auto simp: as_bin_def Let_def split: option.splits)

text \<open>
  Building the list panics exactly when a file has a relative path of more than 520 bytes in
  UTF-16, that is of more than 260 characters.
\<close>

theorem long_path_panics:
  "build_file_list_pdu u cf = None \<longleftrightarrow>
     list_ex (\<lambda>f. length (to_utf16le u (stripped_text (lf_root f) (lf_path f))) > 520) (cf_list cf)"
  by (simp add: build_file_list_pdu_def all_bins_None)

text \<open>The attribute for hidden files is never set, since the test reads the whole path.\<close>

lemma hidden_never_set: "try_open fs root p = Inr f \<Longrightarrow> \<not> lf_hidden f"
  by (auto simp: try_open_def Let_def starts_with_dot_def path_text_def SLASH_def split: option.splits)

section \<open>Requests are answered exactly\<close>

text \<open>
  The reader of a file stands where the code believes it stands, so that a read without a seek reads
  the right place; sizes are \<open>u64\<close> values.
\<close>

definition handle_ok :: "local_file \<Rightarrow> bool" where
  "handle_ok f \<longleftrightarrow> (case lf_handle f of None \<Rightarrow> lf_offset f = 0 | Some pos \<Rightarrow> pos = lf_offset f) \<and> lf_size f < 2 ^ 64"

definition fs_sizes_ok :: "clip_fs \<Rightarrow> bool" where
  "fs_sizes_ok fs \<longleftrightarrow> (\<forall>p d. content fs p = Some d \<longrightarrow> length d < 2 ^ 63)"

lemma load_handle_ok: "handle_ok f \<Longrightarrow> load_handle fs f = Inr f' \<Longrightarrow> handle_ok f'"
  by (auto simp: load_handle_def handle_ok_def split: if_splits option.splits)

lemma load_handle_fields: "load_handle fs f = Inr f' \<Longrightarrow> lf_path f' = lf_path f \<and> lf_size f' = lf_size f \<and> lf_is_dir f' = lf_is_dir f \<and> lf_offset f' = lf_offset f"
  by (auto simp: load_handle_def split: if_splits option.splits)

lemma read_exact_at_ok:
  assumes "handle_ok f" "fs_sizes_ok fs" "read_exact_at fs f n off = (f', r)" "off \<le> lf_size f"
  shows "handle_ok f'" "lf_path f' = lf_path f" "lf_size f' = lf_size f"
    "r = Inr buf \<Longrightarrow> \<exists>d. content fs (lf_path f) = Some d \<and> (n = 0 \<or> off + n \<le> length d) \<and> buf = take n (drop off d)"
proof -
  have "handle_ok f' \<and> lf_path f' = lf_path f \<and> lf_size f' = lf_size f \<and>
    (r = Inr buf \<longrightarrow> (\<exists>d. content fs (lf_path f) = Some d \<and> (n = 0 \<or> off + n \<le> length d) \<and> buf = take n (drop off d)))"
  proof (cases "load_handle fs f")
    case (Inl e)
    with assms show ?thesis by (auto simp: read_exact_at_def)
  next
    case (Inr g)
    note g = load_handle_ok [OF assms(1) Inr] load_handle_fields [OF Inr]
    show ?thesis
    proof (cases "lf_handle g")
      case None
      with assms(3) Inr g show ?thesis by (auto simp: read_exact_at_def)
    next
      case (Some pos)
      then have pos: "(if off \<noteq> lf_offset g then off else pos) = off" using g(1) by (simp add: handle_ok_def)
      show ?thesis
      proof (cases "read_exact fs (lf_path g) off n")
        case None
        with assms(3) Inr Some g pos show ?thesis
          by (auto simp: read_exact_at_def Let_def invalidate_handle_def handle_ok_def)
      next
        case (Some b)
        then obtain d where d: "content fs (lf_path f) = Some d" "n = 0 \<or> off + n \<le> length d" "b = take n (drop off d)"
          using g(2) by (auto simp: read_exact_def split: option.splits if_splits)
        have "length d < 2 ^ 63" using assms(2) d(1) by (simp add: fs_sizes_ok_def)
        with d(2) assms(1,4) have w: "wrap_u64 (off + n) = off + n" by (auto simp: wrap_u64_eq handle_ok_def)
        from assms(3) Inr \<open>lf_handle g = Some pos\<close> Some pos
        have "f' = (if off + n \<ge> lf_size g then g\<lparr>lf_offset := 0, lf_handle := None\<rparr>
                    else g\<lparr>lf_offset := off + n, lf_handle := Some (off + n)\<rparr>)" "r = Inr b"
          by (auto simp: read_exact_at_def Let_def w split: if_splits)
        with g d show ?thesis by (auto simp: handle_ok_def)
      qed
    qed
  qed
  then show "handle_ok f'" "lf_path f' = lf_path f" "lf_size f' = lf_size f"
    "r = Inr buf \<Longrightarrow> \<exists>d. content fs (lf_path f) = Some d \<and> (n = 0 \<or> off + n \<le> length d) \<and> buf = take n (drop off d)"
    by blast+
qed

lemma hot_reload_ok:
  "list_all handle_ok files \<Longrightarrow> hot_reload fs files = Inr files' \<Longrightarrow>
   list_all handle_ok files' \<and> map lf_path files' = map lf_path files \<and> map lf_size files' = map lf_size files"
proof (induction files arbitrary: files')
  case (Cons f files)
  show ?case
  proof (cases "lf_is_dir f")
    case True
    with Cons show ?thesis by (cases "hot_reload fs files") auto
  next
    case False
    with Cons.prems load_handle_ok [of f fs] load_handle_fields [of fs f] show ?thesis
      by (cases "load_handle fs f") auto
  qed
qed simp

definition range_size :: "local_file \<Rightarrow> nat \<Rightarrow> nat \<Rightarrow> nat" where
  "range_size f off len = (if wrap_u64 (off + len) > lf_size f then lf_size f - off else len)"

lemma list_all_nth_update: "list_all P xs \<Longrightarrow> P y \<Longrightarrow> list_all P (xs[i := y])"
  by (auto simp: list_all_iff dest!: set_update_subset_insert [THEN subsetD])

lemma finish_ok:
  assumes "list_all handle_ok fl" "hot_reload fs (drop (Suc i) fl) = Inr rest"
  shows "list_all handle_ok (take (Suc i) fl @ rest)" "map lf_path (take (Suc i) fl @ rest) = map lf_path fl"
    "map lf_size (take (Suc i) fl @ rest) = map lf_size fl"
proof -
  have "list_all handle_ok (drop (Suc i) fl)" "list_all handle_ok (take (Suc i) fl)"
    using assms(1) by (auto simp: list_all_iff dest: in_set_dropD in_set_takeD)
  note ok = this hot_reload_ok [OF this(1) assms(2)]
  have m: "map g fl = map g (take (Suc i) fl) @ map g (drop (Suc i) fl)" for g :: "local_file \<Rightarrow> 'b"
    by (metis append_take_drop_id map_append)
  show "list_all handle_ok (take (Suc i) fl @ rest)" using ok by simp
  show "map lf_path (take (Suc i) fl @ rest) = map lf_path fl" unfolding m [of lf_path] using ok by simp
  show "map lf_size (take (Suc i) fl @ rest) = map lf_size fl" unfolding m [of lf_size] using ok by simp
qed

lemma serve_ok:
  assumes "list_all handle_ok (cf_list cf)" "fs_sizes_ok fs" "serve_file_contents fs c req cf = Some (cf', r)"
  shows "list_all handle_ok (cf_list cf') \<and> map lf_path (cf_list cf') = map lf_path (cf_list cf)
    \<and> map lf_size (cf_list cf') = map lf_size (cf_list cf)
    \<and> (\<forall>st idx off len buf fl st'. req = Range st idx off len \<longrightarrow> r = Inr (FileContentsResponse fl st' buf) \<longrightarrow>
         idx < length (cf_list cf) \<and> off \<le> lf_size (cf_list cf ! idx) \<and> fl = 1 \<and> st' = st
         \<and> (\<exists>d. content fs (lf_path (cf_list cf ! idx)) = Some d \<and> (range_size (cf_list cf ! idx) off len = 0 \<or> off + range_size (cf_list cf ! idx) off len \<le> length d)
               \<and> buf = take (range_size (cf_list cf ! idx) off len) (drop off d)))"
proof (cases req)
  case (Size st idx)
  with assms show ?thesis
    using finish_ok [OF assms(1), of fs idx] by (auto simp: serve_file_contents_def Let_def split: if_splits sum.splits)
next
  case (Range st idx off len)
  show ?thesis
  proof (cases "idx < length (cf_list cf) \<and> off \<le> lf_size (cf_list cf ! idx)")
    case False
    with assms(1,3) Range show ?thesis by (auto simp: serve_file_contents_def Let_def split: if_splits)
  next
    case True
    let ?f = "cf_list cf ! idx" and ?n = "range_size (cf_list cf ! idx) off len"
    obtain f' rr where rd: "read_exact_at fs ?f ?n off = (f', rr)" by (meson surj_pair)
    have "handle_ok ?f" using assms(1) True by (simp add: list_all_length)
    note ok = read_exact_at_ok [OF this assms(2) rd conjunct2 [OF True]]
    let ?cf = "cf\<lparr>cf_list := (cf_list cf)[idx := f']\<rparr>"
    have l: "list_all handle_ok (cf_list ?cf)" "map lf_path (cf_list ?cf) = map lf_path (cf_list cf)"
      "map lf_size (cf_list ?cf) = map lf_size (cf_list cf)"
      using assms(1) ok(1-3) True by (auto simp: list_all_nth_update map_update list_update_same_conv)
    have "serve_file_contents fs c req cf = (if ?n \<ge> 9223372036854775808 then None else Some
        (case rr of Inl e \<Rightarrow> (?cf, Inl e) | Inr buf \<Rightarrow>
          (case hot_reload fs (drop (idx + 1) (cf_list ?cf)) of
             Inl e \<Rightarrow> (?cf, Inl e)
           | Inr rest \<Rightarrow> (?cf\<lparr>cf_list := take (idx + 1) (cf_list ?cf) @ rest\<rparr>, Inr (FileContentsResponse 1 st buf)))))"
      using True rd by (simp add: Range serve_file_contents_def Let_def range_size_def [symmetric] not_le not_less split: sum.split)
    with assms(3) have eq: "?n < 9223372036854775808"
      "(case rr of Inl e \<Rightarrow> (?cf, Inl e) | Inr buf \<Rightarrow>
          (case hot_reload fs (drop (idx + 1) (cf_list ?cf)) of
             Inl e \<Rightarrow> (?cf, Inl e)
           | Inr rest \<Rightarrow> (?cf\<lparr>cf_list := take (idx + 1) (cf_list ?cf) @ rest\<rparr>, Inr (FileContentsResponse 1 st buf)))) = (cf', r)"
      by (simp_all split: if_splits)
    show ?thesis
    proof (cases rr)
      case (Inl e)
      with eq(2) l Range show ?thesis by auto
    next
      case (Inr buf)
      show ?thesis
      proof (cases "hot_reload fs (drop (idx + 1) (cf_list ?cf))")
        case (Inl e)
        with eq(2) \<open>rr = Inr buf\<close> l Range show ?thesis by auto
      next
        case (Inr rest)
        then have "hot_reload fs (drop (Suc idx) (cf_list ?cf)) = Inr rest" by simp
        note fin = finish_ok [OF l(1) this]
        from eq(2) Inr \<open>rr = Inr buf\<close> have "cf' = ?cf\<lparr>cf_list := take (Suc idx) (cf_list ?cf) @ rest\<rparr>"
          "r = Inr (FileContentsResponse 1 st buf)" by auto
        with fin l ok(4) [OF \<open>rr = Inr buf\<close>] Range True show ?thesis by auto
      qed
    qed
  qed
qed

section \<open>The walk\<close>

definition preordered :: "fpath list \<Rightarrow> local_file list \<Rightarrow> bool" where
  "preordered sel files \<longleftrightarrow> (\<forall>i < length files. lf_path (files ! i) \<in> set sel
     \<or> (\<exists>j < i. lf_is_dir (files ! j) \<and> lf_path (files ! i) \<noteq> [] \<and> butlast (lf_path (files ! i)) = lf_path (files ! j)))"

lemma preordered_snoc:
  "preordered sel (files @ [f]) \<longleftrightarrow> preordered sel files \<and> (lf_path f \<in> set sel
     \<or> (\<exists>g \<in> set files. lf_is_dir g \<and> lf_path f \<noteq> [] \<and> butlast (lf_path f) = lf_path g))"
proof -
  have nth: "(files @ [f]) ! i = files ! i" if "i < length files" for i using that by (simp add: nth_append)
  have "(\<forall>i < length files. lf_path ((files @ [f]) ! i) \<in> set sel \<or> (\<exists>j < i. lf_is_dir ((files @ [f]) ! j)
      \<and> lf_path ((files @ [f]) ! i) \<noteq> [] \<and> butlast (lf_path ((files @ [f]) ! i)) = lf_path ((files @ [f]) ! j))) \<longleftrightarrow> preordered sel files"
    unfolding preordered_def by (rule all_cong) (simp add: nth cong: conj_cong)
  moreover have "(\<exists>j < length files. lf_is_dir ((files @ [f]) ! j) \<and> lf_path f \<noteq> [] \<and> butlast (lf_path f) = lf_path ((files @ [f]) ! j))
      \<longleftrightarrow> (\<exists>g \<in> set files. lf_is_dir g \<and> lf_path f \<noteq> [] \<and> butlast (lf_path f) = lf_path g)"
    by (metis in_set_conv_nth nth)
  ultimately show ?thesis unfolding preordered_def [of sel "files @ [f]"] length_append_singleton All_less_Suc nth_append_length by blast
qed

definition walk_ok :: "clip_fs \<Rightarrow> fpath \<Rightarrow> fpath list \<Rightarrow> walk \<Rightarrow> bool" where
  "walk_ok fs root sel w \<longleftrightarrow> set (snd w) = lf_path ` set (fst w) \<and> distinct (map lf_path (fst w))
     \<and> (\<forall>f \<in> set (fst w). try_open fs root (lf_path f) = Inr f) \<and> preordered sel (fst w)"

definition may_visit :: "fpath list \<Rightarrow> fpath \<Rightarrow> walk \<Rightarrow> bool" where
  "may_visit sel p w \<longleftrightarrow> p \<in> set sel \<or> (\<exists>g \<in> set (fst w). lf_is_dir g \<and> p \<noteq> [] \<and> butlast p = lf_path g)"

lemma try_open_fields: "try_open fs root p = Inr f \<Longrightarrow> lf_path f = p \<and> lf_handle f = None \<and> lf_offset f = 0
    \<and> (\<exists>mt. stat fs p = Some mt \<and> lf_is_dir f = m_is_dir mt \<and> lf_size f = m_len mt) \<and> lf_root f = root"
  by (auto simp: try_open_def Let_def split: option.splits)

lemma walk_result:
  "constr_file_lst n fs root p w = Some (Inr w') \<Longrightarrow> walk_ok fs root sel w \<Longrightarrow> may_visit sel p w \<Longrightarrow>
     walk_ok fs root sel w' \<and> set (fst w) \<subseteq> set (fst w') \<and> p \<in> set (snd w')"
  "constr_entries n fs root p es w = Some (Inr w') \<Longrightarrow> walk_ok fs root sel w \<Longrightarrow> (\<exists>g \<in> set (fst w). lf_is_dir g \<and> lf_path g = p) \<Longrightarrow>
     walk_ok fs root sel w' \<and> set (fst w) \<subseteq> set (fst w')"
proof (induction n fs root p w and n fs root p es w arbitrary: w' and w' rule: constr_file_lst_constr_entries.induct)
  case (2 n fs root path w)
  obtain files visited where w: "w = (files, visited)" by (meson surj_pair)
  show ?case
  proof (cases "path \<in> set visited")
    case True
    with 2 w show ?thesis by auto
  next
    case False
    from 2(2) False w obtain f where f: "try_open fs root path = Inr f" by (auto split: sum.splits)
    note tf = try_open_fields [OF f]
    then obtain mt where mt: "stat fs path = Some mt" "lf_is_dir f = m_is_dir mt" by blast
    have ok: "walk_ok fs root sel (files @ [f], path # visited)"
      using 2(3,4) False f tf by (auto simp: walk_ok_def w preordered_snoc may_visit_def)
    show ?thesis
    proof (cases "m_is_dir mt")
      case dir: True
      with 2(2) False w f mt obtain es where es: "listing fs path = Some es"
        "constr_entries n fs root path es (files @ [f], path # visited) = Some (Inr w')" by (auto split: option.splits)
      from 2(1) [OF w [symmetric] False f mt(1) dir es(1) es(2)] ok tf mt dir
      have "walk_ok fs root sel w'" "set (files @ [f]) \<subseteq> set (fst w')" by auto
      with tf w show ?thesis by (auto simp: walk_ok_def)
    next
      case plain: False
      with 2(2) False w f mt have "w' = (files @ [f], path # visited)" by simp
      with ok w show ?thesis by auto
    qed
  qed
next
  case (4 n fs root path e es w)
  from 4(3) obtain name w1 where e: "e = Some name" and w1: "constr_file_lst n fs root (path @ [name]) w = Some (Inr w1)"
    and rest: "constr_entries n fs root path es w1 = Some (Inr w')" by (auto split: option.splits sum.splits)
  have "may_visit sel (path @ [name]) w" using 4(5) by (auto simp: may_visit_def)
  from 4(1) [OF e w1 4(4) this] have 1: "walk_ok fs root sel w1" "set (fst w) \<subseteq> set (fst w1)" by auto
  with 4(5) have "\<exists>g \<in> set (fst w1). lf_is_dir g \<and> lf_path g = path" by blast
  from 4(2) [OF e w1 refl rest 1(1) this] 1 show ?case by blast
qed auto

lemma walk_paths:
  "constr_paths n fs root ps w = Some (Inr w') \<Longrightarrow> walk_ok fs root sel w \<Longrightarrow> set ps \<subseteq> set sel \<Longrightarrow>
     walk_ok fs root sel w' \<and> set (fst w) \<subseteq> set (fst w') \<and> set ps \<subseteq> set (snd w')"
proof (induction ps arbitrary: w)
  case (Cons p ps)
  then obtain w1 where w1: "constr_file_lst n fs root p w = Some (Inr w1)" "constr_paths n fs root ps w1 = Some (Inr w')"
    by (auto split: option.splits sum.splits)
  have "may_visit sel p w" using Cons.prems(3) by (simp add: may_visit_def)
  note 1 = walk_result(1) [OF w1(1) Cons.prems(2) this]
  with Cons.IH [OF w1(2)] Cons.prems(3) have 2: "walk_ok fs root sel w'" "set (fst w1) \<subseteq> set (fst w')" "set ps \<subseteq> set (snd w')" by auto
  with 1 have "set (snd w1) \<subseteq> set (snd w')" by (auto simp: walk_ok_def)
  with 1 2 show ?case by auto
qed simp

text \<open>A directory that has been entered has all its entries visited.\<close>

definition closed_from :: "clip_fs \<Rightarrow> local_file set \<Rightarrow> walk \<Rightarrow> bool" where
  "closed_from fs old w \<longleftrightarrow> (\<forall>f \<in> set (fst w) - old. lf_is_dir f \<longrightarrow>
     (\<exists>es. listing fs (lf_path f) = Some es \<and> (\<forall>name. Some name \<in> set es \<longrightarrow> lf_path f @ [name] \<in> set (snd w))))"

lemma closed_from_mono: "closed_from fs old w \<Longrightarrow> set (snd w) \<subseteq> set (snd w') \<Longrightarrow> fst w = fst w' \<Longrightarrow> closed_from fs old w'"
  by (fastforce simp: closed_from_def)

lemma closed_from_trans:
  assumes "closed_from fs old w" "closed_from fs (set (fst w)) w'" "set (snd w) \<subseteq> set (snd w')"
  shows "closed_from fs old w'"
  unfolding closed_from_def
proof (intro ballI impI)
  fix f assume f: "f \<in> set (fst w') - old" "lf_is_dir f"
  show "\<exists>es. listing fs (lf_path f) = Some es \<and> (\<forall>name. Some name \<in> set es \<longrightarrow> lf_path f @ [name] \<in> set (snd w'))"
  proof (cases "f \<in> set (fst w)")
    case True
    with assms(1,3) f show ?thesis by (fastforce simp: closed_from_def)
  next
    case False
    with assms(2) f show ?thesis by (simp add: closed_from_def)
  qed
qed

lemma walk_closed:
  "constr_file_lst n fs root p w = Some (Inr w') \<Longrightarrow>
     closed_from fs (set (fst w)) w' \<and> set (snd w) \<subseteq> set (snd w') \<and> p \<in> set (snd w')"
  "constr_entries n fs root p es w = Some (Inr w') \<Longrightarrow>
     closed_from fs (set (fst w)) w' \<and> set (snd w) \<subseteq> set (snd w') \<and> (\<forall>name. Some name \<in> set es \<longrightarrow> p @ [name] \<in> set (snd w'))"
proof (induction n fs root p w and n fs root p es w arbitrary: w' and w' rule: constr_file_lst_constr_entries.induct)
  case (2 n fs root path w)
  obtain files visited where w: "w = (files, visited)" by (meson surj_pair)
  show ?case
  proof (cases "path \<in> set visited")
    case True
    with 2 w show ?thesis by (auto simp: closed_from_def)
  next
    case False
    from 2(2) False w obtain f where f: "try_open fs root path = Inr f" by (auto split: sum.splits)
    note tf = try_open_fields [OF f]
    then obtain mt where mt: "stat fs path = Some mt" "lf_is_dir f = m_is_dir mt" by blast
    show ?thesis
    proof (cases "m_is_dir mt")
      case dir: True
      with 2(2) False w f mt obtain es where es: "listing fs path = Some es"
        "constr_entries n fs root path es (files @ [f], path # visited) = Some (Inr w')" by (auto split: option.splits)
      from 2(1) [OF w [symmetric] False f mt(1) dir es(1) es(2)] es(1) tf w show ?thesis
        by (auto simp: closed_from_def)
    next
      case plain: False
      with 2(2) False w f mt have "w' = (files @ [f], path # visited)" by simp
      with plain mt w show ?thesis by (auto simp: closed_from_def)
    qed
  qed
next
  case (4 n fs root path e es w)
  from 4(3) obtain name w1 where e: "e = Some name" and w1: "constr_file_lst n fs root (path @ [name]) w = Some (Inr w1)"
    and rest: "constr_entries n fs root path es w1 = Some (Inr w')" by (auto split: option.splits sum.splits)
  note 1 = 4(1) [OF e w1] and 2 = 4(2) [OF e w1 refl rest]
  with closed_from_trans [of fs "set (fst w)" w1 w'] e show ?case by auto
qed (auto simp: closed_from_def)

lemma paths_closed:
  "constr_paths n fs root ps w = Some (Inr w') \<Longrightarrow> closed_from fs (set (fst w)) w' \<and> set (snd w) \<subseteq> set (snd w')"
proof (induction ps arbitrary: w)
  case (Cons p ps)
  then obtain w1 where w1: "constr_file_lst n fs root p w = Some (Inr w1)" "constr_paths n fs root ps w1 = Some (Inr w')"
    by (auto split: option.splits sum.splits)
  from walk_closed(1) [OF w1(1)] Cons.IH [OF w1(2)] closed_from_trans [of fs "set (fst w)" w1 w'] show ?case by auto
qed (simp add: closed_from_def)

lemma map_sum_Inr: "map_sum f g x = Inr y \<longleftrightarrow> (\<exists>z. x = Inr z \<and> y = g z)"
  by (cases x) auto

lemma construct_file_list_ok:
  assumes "construct_file_list n fs paths = Some (Inr fl)"
  obtains visited where "walk_ok fs (butlast (hd paths)) paths (fl, visited)" "set paths \<subseteq> set visited"
    "closed_from fs {} (fl, visited)"
proof -
  from assms obtain w where w: "constr_paths n fs (butlast (hd paths)) paths ([], []) = Some (Inr w)" "fl = fst w"
    by (cases paths) (auto simp: construct_file_list_def map_sum_Inr split: if_splits)
  have "walk_ok fs (butlast (hd paths)) paths ([], [])" by (simp add: walk_ok_def preordered_def)
  from walk_paths [OF w(1) this] paths_closed [OF w(1)] w(2) that [of "snd w"] show thesis by simp
qed

text \<open>
  C21. The list of copied files is complete and ordered: it holds each path once; every selected path
  is in it; with a directory every entry of it that can be read; and each path that was not itself
  selected follows the directory it is in. A selected path stands where the walk first met it, which
  is before its directory when the selection names it first: selecting \<open>d/a\<close> and then \<open>d\<close> lists
  \<open>d/a\<close> before \<open>d\<close>.
\<close>

theorem copied_list_complete:
  assumes "construct_file_list n fs paths = Some (Inr fl)"
  shows "distinct (map lf_path fl) \<and> set paths \<subseteq> lf_path ` set fl
    \<and> (\<forall>f \<in> set fl. lf_is_dir f \<longrightarrow> (\<exists>es. listing fs (lf_path f) = Some es \<and> (\<forall>name. Some name \<in> set es \<longrightarrow> lf_path f @ [name] \<in> lf_path ` set fl)))
    \<and> preordered paths fl"
  using assms by (rule construct_file_list_ok) (auto simp: walk_ok_def closed_from_def)

text \<open>
  The walk ends when the directories are not nested without end: fuel for the depth below the
  selected paths is enough.
\<close>

definition ranked :: "clip_fs \<Rightarrow> (fpath \<Rightarrow> nat) \<Rightarrow> bool" where
  "ranked fs rank \<longleftrightarrow> (\<forall>p es name. listing fs p = Some es \<longrightarrow> Some name \<in> set es \<longrightarrow> rank (p @ [name]) < rank p)"

lemma walk_ends:
  "ranked fs rank \<Longrightarrow> rank p < n \<Longrightarrow> constr_file_lst n fs root p w \<noteq> None"
  "ranked fs rank \<Longrightarrow> (\<forall>name. Some name \<in> set es \<longrightarrow> rank (p @ [name]) < n) \<Longrightarrow> constr_entries n fs root p es w \<noteq> None"
proof (induction n fs root p w and n fs root p es w rule: constr_file_lst_constr_entries.induct)
  case (2 n fs root path w)
  obtain files visited where w: "w = (files, visited)" by (meson surj_pair)
  show ?case
  proof (cases "\<exists>f mt es. path \<notin> set visited \<and> try_open fs root path = Inr f \<and> stat fs path = Some mt \<and> m_is_dir mt \<and> listing fs path = Some es")
    case True
    then obtain f mt es where a: "path \<notin> set visited" "try_open fs root path = Inr f" "stat fs path = Some mt" "m_is_dir mt"
      "listing fs path = Some es" by blast
    have "\<forall>name. Some name \<in> set es \<longrightarrow> rank (path @ [name]) < n"
      using 2(2,3) a(5) by (fastforce simp: ranked_def)
    from 2(1) [OF w [symmetric] a 2(2) this] a w show ?thesis by auto
  next
    case False
    with w show ?thesis by (auto split: sum.splits option.splits)
  qed
next
  case (4 n fs root path e es w)
  show ?case
  proof (cases e)
    case (Some name)
    with 4(1) [OF Some 4(3)] 4(4) obtain r where r: "constr_file_lst n fs root (path @ [name]) w = Some r" by auto
    show ?thesis
    proof (cases r)
      case (Inr w1)
      from 4(2) [OF Some r Inr 4(3)] 4(4) Some r Inr show ?thesis by auto
    qed (use Some r in simp)
  qed simp
qed auto

lemma paths_end:
  assumes "ranked fs rank" "\<forall>p \<in> set ps. rank p < n"
  shows "constr_paths n fs root ps w \<noteq> None"
  using assms(2)
proof (induction ps arbitrary: w)
  case (Cons p ps)
  then have "constr_file_lst n fs root p w \<noteq> None" by (intro walk_ends(1) [OF assms(1)]) simp
  then obtain r where "constr_file_lst n fs root p w = Some r" by blast
  with Cons show ?case by (auto split: sum.splits)
qed simp

text \<open>
  C29. Copying ends: with directories of finite depth below the selected paths the walk returns a list
  or the error of the file system.
\<close>

theorem copy_terminates:
  assumes "ranked fs rank" "\<forall>p \<in> set paths. rank p < n"
  shows "\<exists>r. construct_file_list n fs paths = Some r"
  using paths_end [OF assms] by (cases paths) (auto simp: construct_file_list_def)

lemma loop_walk:
  assumes "\<And>p. \<exists>mt. stat fs p = Some mt \<and> m_is_dir mt" "\<And>p. listing fs p = Some [Some name]"
    "\<And>q. q \<in> set (snd w) \<Longrightarrow> length q < length p"
  shows "constr_file_lst n fs root p w = None"
  using assms(3)
proof (induction n arbitrary: p w)
  case (Suc n)
  obtain mt where mt: "stat fs p = Some mt" "m_is_dir mt" using assms(1) by blast
  obtain files visited where w: "w = (files, visited)" by (meson surj_pair)
  have "p \<notin> set visited" using Suc.prems w by fastforce
  moreover obtain f where "try_open fs root p = Inr f" using mt by (simp add: try_open_def Let_def)
  moreover have "constr_file_lst n fs root (p @ [name]) (files @ [f], p # visited) = None" for f
    using Suc.prems w by (intro Suc.IH) (auto intro: less_SucI)
  ultimately show ?case using mt assms(2) w by simp
qed simp

text \<open>
  The set of visited paths does not stop a loop of the file system: a directory that holds a link
  to itself is entered under a new path each time, whatever the fuel.
\<close>

theorem visited_does_not_stop_loops:
  assumes "\<And>p. \<exists>mt. stat fs p = Some mt \<and> m_is_dir mt" "\<And>p. listing fs p = Some [Some name]" "p \<noteq> []"
  shows "construct_file_list n fs [p] = None"
  using loop_walk [OF assms(1,2), of "([], [])"] assms(3) by (simp add: construct_file_list_def)

section \<open>Runs of requests\<close>

text \<open>
  A run of requests is served on one file system: nothing is written to the copied files meanwhile.
  The source keeps a file open between requests and reads through its handle; with the files
  unchanged that is the content of the path, which is what the model reads.
\<close>

fun serve_all :: "clip_fs \<Rightarrow> int \<Rightarrow> file_contents_request list \<Rightarrow> clip_files \<Rightarrow> (clip_files \<times> (cliprdr_error, clipboard_file) result list) option" where
  "serve_all fs c [] cf = Some (cf, [])"
| "serve_all fs c (req # reqs) cf =
     (case serve_file_contents fs c req cf of
        None \<Rightarrow> None
      | Some (cf, r) \<Rightarrow> map_option (\<lambda>(cf, rs). (cf, r # rs)) (serve_all fs c reqs cf))"

text \<open>The metadata of a file agree with its contents, which are at most \<open>i64::MAX\<close> bytes.\<close>

definition fs_consistent :: "clip_fs \<Rightarrow> bool" where
  "fs_consistent fs \<longleftrightarrow> (\<forall>p mt. stat fs p = Some mt \<longrightarrow> m_len mt < 2 ^ 63 \<and> (\<forall>d. content fs p = Some d \<longrightarrow> length d = m_len mt))
     \<and> (\<forall>p d. content fs p = Some d \<longrightarrow> stat fs p \<noteq> None)"

lemma consistent_sizes: "fs_consistent fs \<Longrightarrow> fs_sizes_ok fs"
  by (fastforce simp: fs_consistent_def fs_sizes_ok_def)

lemma range_size_exact:
  assumes "off + len < 2 ^ 64" "off \<le> lf_size f" "length d = lf_size f"
  shows "take (range_size f off len) (drop off d) = take len (drop off d)"
proof -
  have "wrap_u64 (off + len) = off + len" using assms(1) by (simp add: wrap_u64_eq)
  with assms(2,3) show ?thesis by (simp add: range_size_def)
qed

lemma map_eq_nth: "map g xs = map g ys \<Longrightarrow> length xs = length ys \<and> (\<forall>j < length ys. g (xs ! j) = g (ys ! j))"
  by (auto simp: list_eq_iff_nth_eq)

lemma serve_all_exact:
  assumes "list_all handle_ok (cf_list cf)" "fs_consistent fs" "serve_all fs c reqs cf = Some (cf', rs)"
    "\<forall>f \<in> set (cf_list cf). \<exists>mt. stat fs (lf_path f) = Some mt \<and> lf_size f = m_len mt"
    "i < length reqs" "reqs ! i = Range st idx off len" "rs ! i = Inr (FileContentsResponse fl st' buf)" "off + len < 2 ^ 64"
  shows "idx < length (cf_list cf) \<and> fl = 1 \<and> st' = st
    \<and> (\<exists>d. content fs (lf_path (cf_list cf ! idx)) = Some d \<and> off \<le> length d \<and> buf = take len (drop off d))"
  using assms
proof (induction reqs arbitrary: cf rs i)
  case (Cons req reqs)
  from Cons.prems(3) obtain cf1 r rs' where 1: "serve_file_contents fs c req cf = Some (cf1, r)"
    "serve_all fs c reqs cf1 = Some (cf', rs')" "rs = r # rs'" by (auto split: option.splits)
  note ok = serve_ok [OF Cons.prems(1) consistent_sizes [OF Cons.prems(2)] 1(1)]
  then have "map lf_path (cf_list cf1) = map lf_path (cf_list cf)" "map lf_size (cf_list cf1) = map lf_size (cf_list cf)" by blast+
  note l = map_eq_nth [OF this(1)] map_eq_nth [OF this(2)]
  have sz: "lf_size (cf_list cf ! j) = length d" if "j < length (cf_list cf)" "content fs (lf_path (cf_list cf ! j)) = Some d" for j d
    using Cons.prems(4) [rule_format, OF nth_mem [OF that(1)]] Cons.prems(2) that(2) by (auto simp: fs_consistent_def)
  show ?case
  proof (cases i)
    case 0
    then have "req = Range st idx off len" "r = Inr (FileContentsResponse fl st' buf)" using Cons.prems(6,7) 1(3) by simp_all
    from ok [THEN conjunct2, THEN conjunct2, THEN conjunct2, rule_format, OF this]
    obtain d where d: "idx < length (cf_list cf)" "off \<le> lf_size (cf_list cf ! idx)" "fl = 1" "st' = st"
      "content fs (lf_path (cf_list cf ! idx)) = Some d" "buf = take (range_size (cf_list cf ! idx) off len) (drop off d)"
      by (elim conjE exE) simp
    note eq = sz [OF d(1,5)]
    from d eq range_size_exact [OF Cons.prems(8) d(2) eq [symmetric]] show ?thesis by simp
  next
    case (Suc k)
    have "\<forall>f \<in> set (cf_list cf1). \<exists>mt. stat fs (lf_path f) = Some mt \<and> lf_size f = m_len mt"
      using Cons.prems(4) l by (auto simp: all_set_conv_all_nth)
    from Cons.IH [OF conjunct1 [OF ok] Cons.prems(2) 1(2) this, of k] l Suc Cons.prems(5-8) 1(3) show ?thesis by auto
  qed
qed simp

lemma constructed_ok:
  assumes "construct_file_list n fs paths = Some (Inr fl)" "fs_consistent fs"
  shows "list_all handle_ok fl \<and> (\<forall>f \<in> set fl. \<exists>mt. stat fs (lf_path f) = Some mt \<and> lf_size f = m_len mt)"
  using assms(1)
proof (rule construct_file_list_ok)
  fix visited assume "walk_ok fs (butlast (hd paths)) paths (fl, visited)"
  then have f: "\<forall>f \<in> set fl. try_open fs (butlast (hd paths)) (lf_path f) = Inr f" by (simp add: walk_ok_def)
  have "handle_ok f \<and> (\<exists>mt. stat fs (lf_path f) = Some mt \<and> lf_size f = m_len mt)" if "f \<in> set fl" for f
    using try_open_fields [OF f [rule_format, OF that]] assms(2) by (fastforce simp: handle_ok_def fs_consistent_def)
  then show ?thesis by (auto simp: list_all_iff)
qed

text \<open>
  C10. Every part of a file that is served is exact: in any run of requests on a freshly copied list,
  whatever the order of files and offsets, a successful answer to a request for \<open>len\<close> bytes at
  \<open>off\<close> of file \<open>idx\<close> holds exactly those bytes of that file, cut at its end.
\<close>

theorem served_ranges_exact:
  assumes "construct_file_list n fs paths = Some (Inr (cf_list cf))" "fs_consistent fs"
    "serve_all fs c reqs cf = Some (cf', rs)" "i < length reqs" "reqs ! i = Range st idx off len"
    "rs ! i = Inr (FileContentsResponse fl st' buf)" "off + len < 2 ^ 64"
  shows "idx < length (cf_list cf) \<and> fl = 1 \<and> st' = st
    \<and> (\<exists>d. content fs (lf_path (cf_list cf ! idx)) = Some d \<and> off \<le> length d \<and> buf = take len (drop off d))"
  using serve_all_exact [OF _ assms(2,3) _ assms(4-7)] constructed_ok [OF assms(1,2)] by blast

section \<open>Signs\<close>

lemma i32_word: "- (2 ^ 31) \<le> n \<Longrightarrow> n < 2 ^ 31 \<Longrightarrow> (of_nat (i32_as_u64 n) :: 64 word) = of_int n"
proof -
  have "(of_int (n + 2 ^ 64) :: 64 word) = of_int n" by (subst of_int_add) simp
  then show "- (2 ^ 31) \<le> n \<Longrightarrow> n < 2 ^ 31 \<Longrightarrow> (of_nat (i32_as_u64 n) :: 64 word) = of_int n"
    by (simp add: i32_as_u64_def)
qed

lemma bit_negative:
  assumes "- (2 ^ 31) \<le> (n :: int)" "n < 0" "(k :: nat) \<ge> 31"
  shows "bit n k"
proof -
  have "(2 :: int) ^ 31 \<le> 2 ^ k" by (rule power_increasing) (use assms(3) in auto)
  then have "- (2 ^ k) \<le> n" using assms(1) by linarith
  then have "n div 2 ^ k = - 1" using assms(2) by (intro int_div_pos_eq [of n "2 ^ k" "- 1" "n + 2 ^ k"]) auto
  then show ?thesis by (simp add: bit_iff_odd)
qed

lemma request_offset_negative:
  assumes "- (2 ^ 31) \<le> lo" "lo < 0"
  shows "request_offset hi lo = nat (lo + 2 ^ 64)"
proof -
  have "push_bit 32 h OR of_int lo = (of_int lo :: 64 word)" for h
    by (rule bit_eqI) (use bit_negative [OF assms] in \<open>auto simp: bit_simps\<close>)
  then have "request_offset hi lo = unat (of_int lo :: 64 word)"
    using assms by (simp add: request_offset_def i32_word)
  also have "\<dots> = nat (lo mod 2 ^ 64)" by (simp add: unsigned_of_int take_bit_eq_mod)
  also have "lo mod 2 ^ 64 = lo + 2 ^ 64"
    using assms by (intro int_mod_pos_eq [of lo "2 ^ 64" "- 1" "lo + 2 ^ 64"]) auto
  finally show ?thesis .
qed

lemma request_offset_positive:
  assumes "off < 2 ^ 63" "off mod 2 ^ 32 < 2 ^ 31"
  shows "request_offset (int (off div 2 ^ 32)) (int (off mod 2 ^ 32)) = off"
proof -
  have "push_bit 32 (of_nat (off div 2 ^ 32)) OR of_nat (off mod 2 ^ 32) = (of_nat off :: 64 word)"
    unfolding drop_bit_eq_div [symmetric] take_bit_eq_mod [symmetric]
    by (rule bit_eqI) (auto simp: bit_simps)
  with assms show ?thesis by (simp add: request_offset_def i32_as_u64_def unsigned_of_nat take_bit_eq_mod)
qed

text \<open>
  C35. A range request (flag 2) for a file of the list aborts the process when its length is negative,
  its offset lies within the file and the offset is at least the negated length: the length is extended
  to 64 bits, its sum with the offset wraps below the size of the file, and a buffer of almost
  \<open>2 ^ 64\<close> bytes is allocated. With a smaller offset the sum does not wrap and the rest of the file
  is served instead.
\<close>

theorem negative_length_panics:
  assumes "i32_as_u64 li < length (cf_list cf)" "request_offset hi lo \<le> lf_size (cf_list cf ! i32_as_u64 li)"
    "lf_size (cf_list cf ! i32_as_u64 li) < 2 ^ 63" "- (2 ^ 31) \<le> cb" "cb < 0" "nat (- cb) \<le> request_offset hi lo"
  shows "serve_clip_messages fs (FileContentsRequest st li 2 lo hi cb h cid) conn_id cf = None"
proof -
  let ?off = "request_offset hi lo"
  have l: "i32_as_u64 cb = 2 ^ 64 - nat (- cb)" "i32_as_u64 cb \<ge> 9223372036854775808" using assms(4,5) by (auto simp: i32_as_u64_def)
  have "?off + i32_as_u64 cb = (?off - nat (- cb)) + 2 ^ 64" using l assms(4-6) by linarith
  moreover have "?off - nat (- cb) < 2 ^ 64" using assms(2,3) by simp
  ultimately have "wrap_u64 (?off + i32_as_u64 cb) = ?off - nat (- cb)" unfolding wrap_u64_eq by simp
  with assms(2) have "\<not> wrap_u64 (?off + i32_as_u64 cb) > lf_size (cf_list cf ! i32_as_u64 li)" by linarith
  with l(2) assms(1,2) show ?thesis
    by (simp add: serve_clip_messages_def read_file_contents_def serve_file_contents_def Let_def)
qed

text \<open>
  The low half of an offset is extended with its sign: every request for a place of a file
  whose offset has bit 31 set is refused, so that no file is served beyond its first 2 GiB.
\<close>

theorem offsets_beyond_2GiB_refused:
  assumes "i32_as_u64 li < length (cf_list cf)" "lf_size (cf_list cf ! i32_as_u64 li) < 2 ^ 63" "- (2 ^ 31) \<le> lo" "lo < 0"
  shows "\<exists>e audit. read_file_contents fs c st li 2 lo hi cb cf = Some (cf, audit @ [Inl e])"
proof -
  have "request_offset hi lo > lf_size (cf_list cf ! i32_as_u64 li)"
    using assms request_offset_negative [OF assms(3,4), of hi] by simp
  with assms(1) show ?thesis by (simp add: read_file_contents_def serve_file_contents_def Let_def)
qed

section \<open>The encoded list and the served list agree\<close>

text \<open>The state of the reader aside, serving leaves a file as it is.\<close>

definition core :: "local_file \<Rightarrow> local_file" where
  "core f = f\<lparr>lf_handle := None, lf_offset := 0\<rparr>"

lemma load_handle_core: "load_handle fs f = Inr f' \<Longrightarrow> core f' = core f"
  by (auto simp: load_handle_def core_def split: if_splits option.splits)

lemma read_exact_at_core:
  assumes "read_exact_at fs f n off = (f', r)"
  shows "core f' = core f"
proof (cases "load_handle fs f")
  case (Inr g)
  with assms load_handle_core [OF Inr] show ?thesis
    by (auto simp: read_exact_at_def Let_def invalidate_handle_def core_def split: option.splits if_splits)
qed (use assms in \<open>simp add: read_exact_at_def\<close>)

lemma hot_reload_core: "hot_reload fs files = Inr files' \<Longrightarrow> map core files' = map core files"
  by (induction files arbitrary: files') (auto simp: map_sum_Inr load_handle_core split: if_splits)

lemma serve_core:
  assumes "serve_file_contents fs c req cf = Some (cf', r)"
  shows "map core (cf_list cf') = map core (cf_list cf) \<and> cf_pdu cf' = cf_pdu cf"
proof -
  have fin: "map core (take (Suc i) fl) @ map core rest = map core fl" if "hot_reload fs (drop (Suc i) fl) = Inr rest" for i fl rest
    using hot_reload_core [OF that] by (metis append_take_drop_id map_append)
  have upd: "map core (fl[i := f]) = map core fl" if "read_exact_at fs (fl ! i) n off = (f, r)" "i < length fl" for fl i f n off r
    using read_exact_at_core [OF that(1)] that(2) by (simp add: map_update list_update_same_conv)
  from assms show ?thesis
    by (auto simp: serve_file_contents_def Let_def fin upd split: file_contents_request.splits if_splits sum.splits prod.splits)
qed

lemma as_bin_core: "as_bin u (core f) = as_bin u f"
  by (simp add: as_bin_def core_def attribute_bits_def Let_def)

lemma all_bins_core: "map core fs = map core gs \<Longrightarrow> all_bins u fs = all_bins u gs"
proof (induction fs arbitrary: gs)
  case (Cons f fs)
  then obtain g gs' where "gs = g # gs'" "core f = core g" "map core fs = map core gs'" by (cases gs) auto
  moreover from this(2) have "as_bin u f = as_bin u g" using as_bin_core [of u f] as_bin_core [of u g] by simp
  ultimately show ?case using Cons.IH [of gs'] by (simp cong: option.case_cong)
qed simp

datatype clip_op = SyncFiles "fpath list" | ClearFiles | ServeContents int file_contents_request

definition clip_step :: "nat \<Rightarrow> utf16 \<Rightarrow> clip_fs \<Rightarrow> clip_op \<Rightarrow> clip_files \<Rightarrow> clip_files option" where
  "clip_step n u fs op cf =
     (case op of
        SyncFiles files \<Rightarrow> map_option fst (sync_files n u fs files cf)
      | ClearFiles \<Rightarrow> Some (clear_files cf)
      | ServeContents c req \<Rightarrow> map_option fst (serve_file_contents fs c req cf))"

text \<open>Each step may find the file system in another state.\<close>

fun clip_run :: "nat \<Rightarrow> utf16 \<Rightarrow> (clip_fs \<times> clip_op) list \<Rightarrow> clip_files \<Rightarrow> clip_files option" where
  "clip_run n u [] cf = Some cf"
| "clip_run n u ((fs, op) # ops) cf = Option.bind (clip_step n u fs op cf) (clip_run n u ops)"

definition pdu_ok :: "utf16 \<Rightarrow> clip_files \<Rightarrow> bool" where
  "pdu_ok u cf \<longleftrightarrow> cf_pdu cf = [] \<and> cf_list cf = [] \<or> map_option (\<lambda>bs. le_bytes 4 (length (cf_list cf)) @ bs) (all_bins u (cf_list cf)) = Some (cf_pdu cf)"

lemma pdu_ok_core:
  assumes "pdu_ok u cf" "map core (cf_list cf') = map core (cf_list cf)" "cf_pdu cf' = cf_pdu cf"
  shows "pdu_ok u cf'"
  using assms all_bins_core [OF assms(2), of u] map_eq_imp_length_eq [OF assms(2)]
  by (auto simp: pdu_ok_def)

lemma clip_step_ok:
  assumes "pdu_ok u cf" "clip_step n u fs op cf = Some cf'"
  shows "pdu_ok u cf'"
proof (cases op)
  case (SyncFiles files)
  with assms show ?thesis
    by (auto simp: clip_step_def sync_files_def Let_def pdu_ok_def build_file_list_pdu_def split: if_splits option.splits sum.splits)
next
  case ClearFiles
  with assms show ?thesis by (auto simp: clip_step_def clear_files_def pdu_ok_def)
next
  case (ServeContents c req)
  with assms serve_core pdu_ok_core [OF assms(1)] show ?thesis by (fastforce simp: clip_step_def)
qed

lemma clip_run_ok: "pdu_ok u cf \<Longrightarrow> clip_run n u ops cf = Some cf' \<Longrightarrow> pdu_ok u cf'"
  by (induction n u ops cf rule: clip_run.induct) (auto simp: bind_eq_Some_conv dest: clip_step_ok)

text \<open>
  C20. The list a peer was sent and the list its requests are answered from agree, after any sequence
  of copies, clearings and requests on a changing file system: the \<open>i\<close>-th description that the peer
  decodes is that of the \<open>i\<close>-th file served.
\<close>

theorem sent_list_is_served_list:
  assumes "clip_run n u ops (clear_files cf0) = Some cf" "cf_pdu cf \<noteq> []" "list_all (in_range u) (cf_list cf)" "length (cf_list cf) < 2 ^ 32"
  shows "parse_file_descriptors u (cf_pdu cf) c = Some (Inr (map (described c) (cf_list cf)))"
proof -
  have "pdu_ok u (clear_files cf0)" by (simp add: pdu_ok_def clear_files_def)
  from clip_run_ok [OF this assms(1)] assms(2) have "build_file_list_pdu u cf = Some cf"
    by (cases cf) (auto simp: pdu_ok_def build_file_list_pdu_def)
  from pdu_roundtrip [OF this assms(3,4)] show ?thesis .
qed

section \<open>Concrete inputs\<close>

fun units16 :: "bytes \<Rightarrow> utext" where
  "units16 (a # b # r) = (unat a + 256 * unat b) # units16 r"
| "units16 _ = []"

definition ascii16 :: utf16 where
  "ascii16 = \<lparr>to_utf16le = (\<lambda>t. concat (map (\<lambda>c. le_bytes 2 c) t)),
     from_utf16le = (\<lambda>b. Some (units16 b))\<rparr>"

lemma units16_zeros: "units16 (zeros (2 * k)) = replicate k 0"
  by (induction k) (simp_all add: zeros_def)

definition two_files :: clip_fs where
  "two_files = \<lparr>
     stat = (\<lambda>p. if p = [[100]] then Some \<lparr>m_len = 0, m_is_dir = True, m_is_file = False, m_readonly = False, m_modified = Some 500, m_mode = 493\<rparr>
                 else if p = [[100], [97]] then Some \<lparr>m_len = 3, m_is_dir = False, m_is_file = True, m_readonly = False, m_modified = Some 700, m_mode = 420\<rparr>
                 else None),
     listing = (\<lambda>p. if p = [[100]] then Some [Some [97]] else None),
     content = (\<lambda>p. if p = [[100], [97]] then Some [1, 2, 3] else None)\<rparr>"

definition two_list :: "local_file list" where
  "two_list =
     [\<lparr>lf_root = [], lf_path = [[100]], lf_handle = None, lf_offset = 0, lf_size = 0, lf_last_write = 500, lf_is_dir = True, lf_perm = 493,
       lf_read_only = False, lf_hidden = False, lf_system = False, lf_archive = False, lf_normal = False\<rparr>,
      \<lparr>lf_root = [], lf_path = [[100], [97]], lf_handle = None, lf_offset = 0, lf_size = 3, lf_last_write = 700, lf_is_dir = False, lf_perm = 420,
       lf_read_only = False, lf_hidden = False, lf_system = False, lf_archive = False, lf_normal = True\<rparr>]"

definition two_cf :: clip_files where
  "two_cf = \<lparr>cf_files = [], cf_sigs = [], cf_list = two_list, cf_first = 1, cf_pdu = []\<rparr>"

lemma two_list: "construct_file_list 3 two_files [[[100]]] = Some (Inr two_list)"
  by (simp add: construct_file_list_def two_files_def two_list_def try_open_def starts_with_dot_def path_text_def SLASH_def unwrap_or_def
      numeral_3_eq_3)

theorem copied_list_complete_witness:
  "distinct (map lf_path two_list) \<and> [[100], [97]] \<in> lf_path ` set two_list \<and> preordered [[[100]]] two_list"
proof -
  have "two_list ! 0 \<in> set two_list" "lf_is_dir (two_list ! 0)" "lf_path (two_list ! 0) = [[100]]" "listing two_files [[100]] = Some [Some [97]]"
    by (simp_all add: two_list_def two_files_def)
  with copied_list_complete [OF two_list] show ?thesis by fastforce
qed

theorem copy_terminates_witness: "\<exists>r. construct_file_list 3 two_files [[[100]]] = Some r"
  by (rule copy_terminates [of _ "\<lambda>p. 2 - length p"]) (simp_all add: ranked_def two_files_def)

theorem visited_does_not_stop_loops_witness:
  "construct_file_list 50 (two_files\<lparr>stat := \<lambda>p. stat two_files [[100]], listing := \<lambda>p. Some [Some [108]]\<rparr>) [[[100]]] = None"
  by (rule visited_does_not_stop_loops [where name = "[108]"]) (simp_all add: two_files_def)

theorem served_ranges_exact_witness:
  "\<exists>cf' rs. serve_all two_files 7 [Range 5 1 1 9] two_cf = Some (cf', rs) \<and> rs ! 0 = Inr (FileContentsResponse 1 5 [2, 3])
     \<and> [2, 3] = take 9 (drop 1 [1, 2, 3 :: 8 word])"
proof -
  have c: "fs_consistent two_files" by (auto simp: fs_consistent_def two_files_def)
  obtain cf' where s: "serve_all two_files 7 [Range 5 1 1 9] two_cf = Some (cf', [Inr (FileContentsResponse 1 5 [2, 3])])"
    by (simp add: two_cf_def two_list_def two_files_def serve_file_contents_def Let_def read_exact_at_def load_handle_def read_exact_def
        wrap_u64_eq)
  have "1 < length (cf_list two_cf) \<and> (1 :: int) = 1 \<and> (5 :: int) = 5
    \<and> (\<exists>d. content two_files (lf_path (cf_list two_cf ! 1)) = Some d \<and> 1 \<le> length d \<and> [2, 3] = take 9 (drop 1 d))"
    by (rule served_ranges_exact [of 3 two_files "[[[100]]]" two_cf 7 "[Range 5 1 1 9]" cf' "[Inr (FileContentsResponse 1 5 [2, 3])]" 0])
      (use two_list c s in \<open>simp_all add: two_cf_def\<close>)
  with s show ?thesis by (auto simp: two_cf_def two_list_def two_files_def)
qed

theorem negative_length_panics_witness:
  "serve_clip_messages two_files (FileContentsRequest 5 1 2 3 0 (- 2) False 0) 7 two_cf = None"
  by (rule negative_length_panics) (simp_all add: two_cf_def two_list_def i32_as_u64_def request_offset_def)

theorem offsets_beyond_2GiB_refused_witness:
  "\<exists>e audit. read_file_contents two_files 7 5 1 2 (- 2147483648) 0 10 (two_cf\<lparr>cf_list := [two_list ! 0, (two_list ! 1)\<lparr>lf_size := 3000000000\<rparr>]\<rparr>)
     = Some (two_cf\<lparr>cf_list := [two_list ! 0, (two_list ! 1)\<lparr>lf_size := 3000000000\<rparr>]\<rparr>, audit @ [Inl e])"
  by (rule offsets_beyond_2GiB_refused) (simp_all add: two_cf_def two_list_def i32_as_u64_def)

lemma le_bytes_2: "le_bytes 2 v = [of_nat (v mod 256), of_nat (v div 256 mod 256)]"
  by (simp add: numeral_2_eq_2)

lemma ascii_range: "list_all (in_range ascii16) two_list"
proof -
  have "\<exists>k. units16 (to_utf16le ascii16 t @ zeros (2 * n)) = t @ replicate k 0" if "t = [100] \<or> t = [100, 47, 97]" for t n
    by (rule exI [of _ n]) (use that in \<open>auto simp: ascii16_def le_bytes_2 units16_zeros\<close>)
  from this [of "[100]" 259] this [of "[100, 47, 97]" 257] show ?thesis
    by (simp add: two_list_def in_range_def stripped_text_def rel_text_def SLASH_def Let_def ascii16_def)
qed

theorem sent_list_is_served_list_witness:
  "\<exists>cf. clip_run 3 ascii16 [(two_files, SyncFiles [[[100]]])] (clear_files two_cf) = Some cf
     \<and> parse_file_descriptors ascii16 (cf_pdu cf) 7 = Some (Inr (map (described 7) two_list))"
proof -
  obtain bs where bs: "all_bins ascii16 two_list = Some bs" by (simp add: two_list_def as_bin_def Let_def ascii16_def stripped_text_def rel_text_def)
  let ?cf = "\<lparr>cf_files = [[[100]]], cf_sigs = fingerprint two_files [[[100]]], cf_list = two_list, cf_first = first_file two_files two_list,
    cf_pdu = le_bytes 4 (length two_list) @ bs\<rparr>"
  have run: "clip_run 3 ascii16 [(two_files, SyncFiles [[[100]]])] (clear_files two_cf) = Some ?cf"
    using two_list bs by (simp add: clip_step_def sync_files_def clear_files_def Let_def build_file_list_pdu_def)
  have "cf_pdu ?cf \<noteq> []" by (simp add: two_list_def flip: length_0_conv)
  with sent_list_is_served_list [OF run this, of 7] ascii_range run show ?thesis by (auto simp: two_list_def)
qed

end
