(* ===== verification/SessionMessages.thy ===== *)
theory SessionMessages
  imports SessionInvariant ClipboardFiles
begin

text \<open>
  The messages of an authorized peer (\<open>on_message\<close> in \<open>src/server/connection.rs\<close> after the scope
  check, as on Linux): input, clipboards, the file clipboard, and the miscellaneous messages, run on
  the state of \<^verbatim>\<open>SessionState\<close>. With the permission switches of the connection manager they are the
  steps of a session. The theorems relate the subscriptions of a session to the permissions in force
  after every order of messages and switches, and say which permissions the effects on the host need.
\<close>

section \<open>Keys and buttons\<close>

datatype rdev_key =
  ShiftLeft | ShiftRight | ControlLeft | ControlRight | MetaLeft | MetaRight | Alt | AltGr | OtherKey nat

definition is_modifier_key :: "rdev_key \<Rightarrow> bool" where
  "is_modifier_key k = (case k of OtherKey _ \<Rightarrow> False | _ \<Rightarrow> True)"

datatype control_key =
  CK_Alt | CK_Shift | CK_Control | CK_Meta | CK_RAlt | CK_RShift | CK_RControl | CK_RWin | CK_Return | CK_NumpadEnter | CK_Other int

datatype key_union = ControlKey control_key | Chr nat | Unicode nat | Seq string | OtherUnion

datatype keyboard_mode = ModeLegacy | ModeMap | ModeTranslate | ModeAuto

text \<open>The mode is the result of \<open>enum_value\<close>.\<close>

record key_event =
  down :: bool
  press :: bool
  ke_union :: "key_union option"
  ke_mode :: "(int, keyboard_mode) result"

definition chr_of :: "key_event \<Rightarrow> nat" where
  "chr_of e = (case ke_union e of Some (Chr c) \<Rightarrow> c | _ \<Rightarrow> 0)"

definition is_modifier :: "key_event \<Rightarrow> bool" where
  "is_modifier e =
     (case ke_union e of
        Some (ControlKey c) \<Rightarrow> c \<in> {CK_Alt, CK_Shift, CK_Control, CK_Meta, CK_RAlt, CK_RShift, CK_RControl, CK_RWin}
      | _ \<Rightarrow> False)"

definition is_enter :: "key_event \<Rightarrow> bool" where
  "is_enter e = (case ke_union e of Some (ControlKey c) \<Rightarrow> c = CK_Return \<or> c = CK_NumpadEnter | _ \<Rightarrow> False)"

definition MOUSE_TYPE_UP :: int where "MOUSE_TYPE_UP = 2"
definition MOUSE_TYPE_MASK :: int where "MOUSE_TYPE_MASK = 7"
definition MOUSE_BUTTON_LEFT :: int where "MOUSE_BUTTON_LEFT = 1"

unbundle bit_operations_syntax

definition is_left_up :: "int \<Rightarrow> bool" where
  "is_left_up m \<longleftrightarrow> drop_bit 3 m = MOUSE_BUTTON_LEFT \<and> m AND MOUSE_TYPE_MASK = MOUSE_TYPE_UP"

text \<open>The key of an event in the modes that carry key codes, if it is a modifier.\<close>

definition modifier_of :: "(nat \<Rightarrow> rdev_key) \<Rightarrow> key_event \<Rightarrow> rdev_key option" where
  "modifier_of keycode_to_rdev_key e =
     (let key = (case ke_mode e of
            Inr ModeMap \<Rightarrow> Some (keycode_to_rdev_key (chr_of e))
          | Inr ModeTranslate \<Rightarrow>
              (case ke_union e of Some (Chr code) \<Rightarrow> Some (keycode_to_rdev_key (code mod 65536)) | _ \<Rightarrow> None)
          | _ \<Rightarrow> None)
      in case key of Some k \<Rightarrow> if is_modifier_key k then Some k else None | None \<Rightarrow> None)"

section \<open>State\<close>

datatype input_effect =
    I_ClickTime
  | I_MouseMoveTime
  | I_Mouse int bool bool
  | I_Pointer
  | I_Key key_event bool
  | I_Clipboard "string list"
  | I_CmChat string
  | I_PeerChat string
  | I_PeerVoiceCall bool
  | I_FrameFetched int
  | I_Reboot bool
  | I_AudioFormat
  | I_AudioFrame
  | I_Connect string string
  | I_DisplayInfo nat
  | I_Screenshot video_source nat string
  | I_Cliprdr clipboard_file
  | I_Clip clip_effect
  | I_PostFileAudit bool "(utext \<times> nat) list"

record 'm live =
  sess :: "'m sst"
  pressed_modifiers :: "rdev_key set"
  audio_sender :: bool
  clip :: clip_files

text \<open>
  What is read besides: the key codes of the platform (\<open>rdev::linux_key_from_code\<close>), the files,
  whether a message about a display can be made, the text of a UUID, and the clock in milliseconds.
\<close>

record live_env =
  senv :: session_env
  key_of :: "nat \<Rightarrow> rdev_key"
  files_of :: clip_fs
  display_info :: "nat \<Rightarrow> bool"
  uuid_text :: "bytes \<Rightarrow> string"
  get_time :: int

datatype peer_msg =
    PM_Mouse int
  | PM_Pointer
  | PM_Key key_event
  | PM_Clipboard string
  | PM_MultiClipboards "string list"
  | PM_Cliprdr cliprdr
  | PM_SwitchDisplay int int int
  | PM_CaptureDisplays "int list" "int list" "int list"
  | PM_TogglePrivacyMode bool string
  | PM_Chat string
  | PM_Option "unit option_message"
  | PM_RefreshVideo bool
  | PM_RefreshVideoDisplay int
  | PM_VideoReceived
  | PM_RestartRemoteDevice
  | PM_AudioFormat
  | PM_SwitchSides bytes
  | PM_ChangeResolution int int
  | PM_ChangeDisplayResolution int int int
  | PM_AutoAdjustFps nat
  | PM_ClientRecordStatus bool
  | PM_MessageQuery int
  | PM_AudioFrame
  | PM_VoiceCallRequest bool int
  | PM_VoiceCallResponse
  | PM_Screenshot int string
  | PM_TerminalAction terminal_action

section \<open>Handlers\<close>

type_synonym 'm handled = "'m live \<times> input_effect list \<times> bool"

definition touch :: "nat \<Rightarrow> 'm live \<Rightarrow> 'm live" where
  "touch t L = L\<lparr>sess := (update_auto_disconnect_timer t (fst (sess L)), snd (sess L))\<rparr>"

definition on_mouse_event :: "nat \<Rightarrow> int \<Rightarrow> 'm live \<Rightarrow> 'm live \<times> input_effect list" where
  "on_mouse_event t m L =
     (let s = fst (sess L)
      in if is_authed_view_camera_conn s then (L, [])
         else (touch t L,
               if peer_keyboard_enabled s
               then [if is_left_up m then I_ClickTime else I_MouseMoveTime, I_Mouse m True (c_show_my_cursor s)]
               else if c_show_my_cursor s then [I_Mouse m False True] else []))"

definition on_pointer_event :: "nat \<Rightarrow> 'm live \<Rightarrow> 'm live \<times> input_effect list" where
  "on_pointer_event t L =
     (let s = fst (sess L)
      in if is_authed_view_camera_conn s then (L, [])
         else (touch t L, if peer_keyboard_enabled s then [I_MouseMoveTime, I_Pointer] else []))"

definition on_key_event :: "live_env \<Rightarrow> nat \<Rightarrow> key_event \<Rightarrow> 'm live \<Rightarrow> 'm live \<times> input_effect list" where
  "on_key_event env t e L =
     (let s = fst (sess L)
      in if is_authed_view_camera_conn s then (L, [])
         else if \<not> peer_keyboard_enabled s then (touch t L, [])
         else
           let key = modifier_of (key_of env) e;
               is_press = ((press e \<or> down e) \<and> \<not> (is_modifier e \<or> key \<noteq> None));
               L = (case key of
                      Some k \<Rightarrow> L\<lparr>pressed_modifiers := (if is_press then insert k (pressed_modifiers L) else pressed_modifiers L - {k})\<rparr>
                    | None \<Rightarrow> L);
               as_press = (is_press \<and> (case ke_union e of Some (Unicode _) \<Rightarrow> False | Some (Seq _) \<Rightarrow> False | _ \<Rightarrow> True))
           in (touch t L, (if is_enter e then [I_ClickTime] else []) @ [I_MouseMoveTime, I_Key e as_press]))"

text \<open>
  What happens to the modifiers recorded by the connection when it is dropped. The table of pressed
  keys of \<open>src/server/input_service.rs\<close> is another record, kept by the code that injects the keys.
\<close>

definition release_pressed_modifiers :: "'m live \<Rightarrow> 'm live \<times> rdev_key set" where
  "release_pressed_modifiers L = (L\<lparr>pressed_modifiers := {}\<rparr>, pressed_modifiers L)"

definition on_clipboards :: "string list \<Rightarrow> 'm live \<Rightarrow> input_effect list" where
  "on_clipboards cbs L =
     (let s = fst (sess L)
      in if should_handle_text_clipboard_message (authed_conn_id (conn s)) \<and> clipboard_enabled s then [I_Clipboard cbs] else [])"

definition is_support_file_copy_paste :: "login_env \<Rightarrow> string \<Rightarrow> bool" where
  "is_support_file_copy_paste env ver \<longleftrightarrow> get_version_number env ver \<ge> get_version_number env ''1.3.8''"

definition on_cliprdr :: "live_env \<Rightarrow> cliprdr \<Rightarrow> 'm live \<Rightarrow> ('m live \<times> input_effect list) option" where
  "on_cliprdr env m L =
     (let s = fst (sess L)
      in case m of
           CliprdrFiles fs \<Rightarrow> Some (L, [I_PostFileAudit True fs])
         | _ \<Rightarrow>
             (case msg_2_clip m of
                None \<Rightarrow> Some (L, [])
              | Some c \<Rightarrow>
                  if is_support_file_copy_paste (lenv (senv env)) (version (lr (conn s)))
                  then map_option (\<lambda>(cf, out, es). (L\<lparr>clip := cf\<rparr>, map I_Clip es
                           @ map (\<lambda>r. case r of Files fs \<Rightarrow> I_PostFileAudit False fs | _ \<Rightarrow> I_Cliprdr r) out))
                         (serve_clip_messages (files_of env) c (sid s) (clip L))
                  else Some (L, [])))"

definition on_switch_sides_request :: "live_env \<Rightarrow> nat \<Rightarrow> bytes \<Rightarrow> 'm live \<Rightarrow> 'm handled" where
  "on_switch_sides_request env t uuid L =
     (let (s, h) = sess L; env' = lenv (senv env)
      in if \<not> flutter env' then (L, [], True)
         else case uuid_from_slice env' uuid of
           None \<Rightarrow> (L, [], True)
         | Some u \<Rightarrow>
             (let w = (hw h)\<lparr>w_tokens := insert_pending_switch_sides_uuid t (my_id (lr (conn s))) u (w_tokens (hw h))\<rparr>;
                  (c, w) = on_close env' ''switch sides'' False (conn s, w)
              in (L\<lparr>sess := (s\<lparr>conn := c\<rparr>, h\<lparr>hw := w\<rparr>)\<rparr>, [I_Connect (my_id (lr (conn s))) (uuid_text env u)], False)))"

definition on_voice_call_request :: "live_env \<Rightarrow> bool \<Rightarrow> int \<Rightarrow> 'm sst \<Rightarrow> 'm sst option" where
  "on_voice_call_request env is_connect ts st =
     (if is_connect
      then if get_time env = 0 then None
           else Some ((fst st)\<lparr>voice_call_request_timestamp := Some (if ts = 0 then get_time env else ts)\<rparr>, tell [E_CmVoiceIncoming] (snd st))
      else Some (close_voice_call st))"

definition on_option :: "session_env \<Rightarrow> nat \<Rightarrow> unit option_message \<Rightarrow> 'm sst \<Rightarrow> 'm sst option" where
  "on_option env t o' st =
     (let ty = authed_conn_id (conn (fst st))
      in if ty = Some Remote then update_options env (int t) o' st
         else case scoped_update_option_message ty o' of
                Some o'' \<Rightarrow> update_options env (int t) o'' st
              | None \<Rightarrow> Some st)"

text \<open>
  The messages. A display number is a signed integer on the wire and becomes an unsigned one.
  \<open>None\<close> is a panic, and the last component says whether the connection goes on.
\<close>

definition upd_sess :: "('m sst \<Rightarrow> 'm sst) \<Rightarrow> 'm live \<Rightarrow> 'm live" where
  "upd_sess f L = L\<lparr>sess := f (sess L)\<rparr>"

definition handle_message :: "live_env \<Rightarrow> nat \<Rightarrow> peer_msg \<Rightarrow> 'm live \<Rightarrow> 'm handled option" where
  "handle_message env t m L =
     (let s = fst (sess L); usize = i32_as_u64; quiet = (\<lambda>L. Some (L, [], True)); loud = (\<lambda>(L, es). Some (L, es, True))
      in case m of
           PM_Mouse b \<Rightarrow> loud (on_mouse_event t b L)
         | PM_Pointer \<Rightarrow> loud (on_pointer_event t L)
         | PM_Key e \<Rightarrow> loud (on_key_event env t e L)
         | PM_Clipboard cb \<Rightarrow> loud (L, on_clipboards [cb] L)
         | PM_MultiClipboards cbs \<Rightarrow> loud (L, on_clipboards cbs L)
         | PM_Cliprdr c \<Rightarrow> map_option (\<lambda>(L, es). (L, es, True)) (on_cliprdr env c L)
         | PM_SwitchDisplay d w h \<Rightarrow> quiet (upd_sess (handle_switch_display (senv env) (usize d) w h) L)
         | PM_CaptureDisplays add sub dset \<Rightarrow>
             quiet (upd_sess (conn_capture_displays (senv env) (map usize add) (map usize sub) (map usize dset)) L)
         | PM_TogglePrivacyMode on k \<Rightarrow> quiet (if view_camera (conn s) then L else upd_sess (toggle_privacy_mode (senv env) on k) L)
         | PM_Chat msg \<Rightarrow>
             loud (touch t (upd_sess (\<lambda>(s, h). (s\<lparr>conn := (conn s)\<lparr>chat_unanswered := True\<rparr>\<rparr>, h)) L), [I_CmChat msg])
         | PM_Option o' \<Rightarrow> map_option (\<lambda>st. (L\<lparr>sess := st\<rparr>, [], True)) (on_option (senv env) t o' (sess L))
         | PM_RefreshVideo r \<Rightarrow>
             quiet (if should_handle_render_broadcast_message (authed_conn_id (conn s))
                    then touch t (if r then upd_sess (refresh_video_display None) L else L) else L)
         | PM_RefreshVideoDisplay d \<Rightarrow>
             quiet (if should_handle_render_broadcast_message (authed_conn_id (conn s))
                    then touch t (upd_sess (refresh_video_display (Some (usize d))) L) else L)
         | PM_VideoReceived \<Rightarrow> loud (L, [I_FrameFetched (sid s)])
         | PM_RestartRemoteDevice \<Rightarrow> loud (L, if p_restart s then [I_Reboot True, I_Reboot False] else [])
         | PM_AudioFormat \<Rightarrow> loud (if c_disable_audio s then (L, []) else (L\<lparr>audio_sender := True\<rparr>, [I_AudioFormat]))
         | PM_SwitchSides uuid \<Rightarrow> Some (on_switch_sides_request env t uuid L)
         | PM_ChangeResolution w h \<Rightarrow> quiet (if view_camera (conn s) then L else upd_sess (change_resolution (senv env) None w h) L)
         | PM_ChangeDisplayResolution d w h \<Rightarrow>
             quiet (if view_camera (conn s) then L else upd_sess (change_resolution (senv env) (Some (usize d)) w h) L)
         | PM_AutoAdjustFps n \<Rightarrow> quiet (upd_sess (\<lambda>(s, h). (s, upd_qos (user_auto_adjust_fps (sid s) n) h)) L)
         | PM_ClientRecordStatus b \<Rightarrow> quiet (upd_sess (\<lambda>(s, h). (s, upd_qos (user_record (sid s) b) h)) L)
         | PM_MessageQuery d \<Rightarrow> loud (L, if display_info env (usize d) then [I_DisplayInfo (usize d)] else [])
         | PM_AudioFrame \<Rightarrow> loud (L, if \<not> c_disable_audio s \<and> audio_sender L then [I_AudioFrame] else [])
         | PM_VoiceCallRequest c ts \<Rightarrow> map_option (\<lambda>st. (L\<lparr>sess := st\<rparr>, [], True)) (on_voice_call_request env c ts (sess L))
         | PM_VoiceCallResponse \<Rightarrow> quiet L
         | PM_Screenshot d i \<Rightarrow>
             loud (upd_sess (refresh_video_display (Some (usize d))) L, [I_Screenshot (vid_source s) (usize d) i])
         | PM_TerminalAction a \<Rightarrow> quiet (upd_sess (handle_terminal_action (senv env) a) L))"

section \<open>A session as a sequence of events\<close>

text \<open>The message on the wire, for the scope check.\<close>

definition wire :: "peer_msg \<Rightarrow> unit message" where
  "wire m =
     (case m of
        PM_Mouse _ \<Rightarrow> Some (MouseEvent ())
      | PM_Pointer \<Rightarrow> Some (PointerDeviceEvent ())
      | PM_Key _ \<Rightarrow> Some (KeyEvent ())
      | PM_Clipboard _ \<Rightarrow> Some (Clipboard ())
      | PM_MultiClipboards _ \<Rightarrow> Some (MultiClipboards ())
      | PM_Cliprdr _ \<Rightarrow> Some (Cliprdr ())
      | PM_SwitchDisplay _ _ _ \<Rightarrow> Some (Misc (Some (SwitchDisplay ())))
      | PM_CaptureDisplays _ _ _ \<Rightarrow> Some (Misc (Some (CaptureDisplays ())))
      | PM_TogglePrivacyMode _ _ \<Rightarrow> Some (Misc (Some (TogglePrivacyMode ())))
      | PM_Chat _ \<Rightarrow> Some (Misc (Some (ChatMessage ())))
      | PM_Option o' \<Rightarrow> Some (Misc (Some (Option o')))
      | PM_RefreshVideo _ \<Rightarrow> Some (Misc (Some (RefreshVideo ())))
      | PM_RefreshVideoDisplay _ \<Rightarrow> Some (Misc (Some (RefreshVideoDisplay ())))
      | PM_VideoReceived \<Rightarrow> Some (Misc (Some (VideoReceived ())))
      | PM_RestartRemoteDevice \<Rightarrow> Some (Misc (Some (RestartRemoteDevice ())))
      | PM_AudioFormat \<Rightarrow> Some (Misc (Some (AudioFormat ())))
      | PM_SwitchSides _ \<Rightarrow> Some (Misc (Some (SwitchSidesRequest ())))
      | PM_ChangeResolution _ _ \<Rightarrow> Some (Misc (Some (ChangeResolution ())))
      | PM_ChangeDisplayResolution _ _ _ \<Rightarrow> Some (Misc (Some (ChangeDisplayResolution ())))
      | PM_AutoAdjustFps _ \<Rightarrow> Some (Misc (Some (AutoAdjustFps ())))
      | PM_ClientRecordStatus _ \<Rightarrow> Some (Misc (Some (ClientRecordStatus ())))
      | PM_MessageQuery _ \<Rightarrow> Some (Misc (Some (MessageQuery ())))
      | PM_AudioFrame \<Rightarrow> Some (AudioFrame ())
      | PM_VoiceCallRequest _ _ \<Rightarrow> Some (VoiceCallRequest ())
      | PM_VoiceCallResponse \<Rightarrow> Some (VoiceCallResponse ())
      | PM_Screenshot _ _ \<Rightarrow> Some (ScreenshotRequest ())
      | PM_TerminalAction _ \<Rightarrow> Some (TerminalAction ()))"

text \<open>A message of the peer: the checks of \<open>on_message\<close> first, and its handler when they let it through.\<close>

definition receive :: "live_env \<Rightarrow> nat \<Rightarrow> peer_msg \<Rightarrow> 'm live \<Rightarrow> 'm handled option" where
  "receive env t m L =
     (case on_message (lenv (senv env)) t (M_Other (wire m)) (conn (fst (sess L)), hw (snd (sess L))) of
        ((c, w), v) \<Rightarrow>
          let L = L\<lparr>sess := ((fst (sess L))\<lparr>conn := c\<rparr>, (snd (sess L))\<lparr>hw := w\<rparr>)\<rparr>
          in if v = Dispatch then handle_message env t m L else Some (L, [], v = Keep))"

text \<open>Data of the connection manager: permission switches and voice calls; the answer to a chat message.\<close>

datatype session_event =
    Peer peer_msg
  | SwitchPermission string bool
  | CmVoiceCallResponse bool
  | CmCloseVoiceCall
  | CmChat string

definition session_step :: "live_env \<Rightarrow> nat \<Rightarrow> session_event \<Rightarrow> 'm live \<Rightarrow> 'm handled option" where
  "session_step env t ev L =
     (case ev of
        Peer m \<Rightarrow> receive env t m L
      | SwitchPermission name b \<Rightarrow> Some (upd_sess (switch_permission (senv env) name b) L, [], True)
      | CmVoiceCallResponse b \<Rightarrow> Some (upd_sess (handle_voice_call b) L, [], True)
      | CmCloseVoiceCall \<Rightarrow> Some (upd_sess close_voice_call L, [I_PeerVoiceCall False], True)
      | CmChat msg \<Rightarrow> Some (upd_sess (\<lambda>(s, h). (s\<lparr>conn := (conn s)\<lparr>chat_unanswered := False\<rparr>\<rparr>, h)) L, [I_PeerChat msg], True))"

text \<open>
  A run of the connection's loop, with what it reads at every event; it ends when a handler says so.
\<close>

fun session_run :: "(live_env \<times> nat \<times> session_event) list \<Rightarrow> 'm live \<Rightarrow> 'm live option" where
  "session_run [] L = Some L"
| "session_run ((env, t, ev) # evs) L =
     (case session_step env t ev L of
        None \<Rightarrow> None
      | Some (L', _, keep) \<Rightarrow> if keep then session_run evs L' else Some L')"

section \<open>Subscriptions along a run\<close>

lemma subs_ok_env: "one_way_clipboard env = one_way_clipboard env' \<Longrightarrow> subs_ok full env st = subs_ok full env' st"
  by (simp add: subs_ok_def remote_subs_def allowed_def required_def can_sub_clipboard_service_def)

lemma live_sess [simp]: "sess (upd_sess f L) = f (sess L)" "clip (upd_sess f L) = clip L" "pressed_modifiers (upd_sess f L) = pressed_modifiers L"
  by (simp_all add: upd_sess_def)

lemma subs_ok_conn:
  assumes "subs_ok full env st" "grants s' = grants (fst st)" "hub h' = hub (snd st)"
  shows "subs_ok full env (s', h')"
  using subs_ok_frame [OF _ _ assms(2), of full env "snd st" h'] assms(1,3) by simp

lemma touch_ok [simp]: "subs_ok full env (sess (touch t L)) = subs_ok full env (sess L)"
proof -
  have "grants (update_auto_disconnect_timer t s) = grants s" for s by (simp add: update_auto_disconnect_timer_def grants_defs)
  then have "subs_ok full env (update_auto_disconnect_timer t s, h) \<longleftrightarrow> subs_ok full env (s, h)" for s and h :: "'a host"
    using subs_ok_same by metis
  then show ?thesis by (simp add: touch_def)
qed

lemma on_close_frame:
  "authorized (fst (on_close env r b st)) = authorized (fst st)" "authed_conn_id (fst (on_close env r b st)) = authed_conn_id (fst st)"
  "keyboard (fst (on_close env r b st)) = keyboard (fst st)" "c_id (fst (on_close env r b st)) = c_id (fst st)"
  by (cases st; simp add: on_close_def)+

text \<open>What the checks before the handlers leave alone.\<close>

lemma on_message_other:
  assumes "on_message env t (M_Other m) st = ((c, w), v)"
  shows "authorized c = authorized (fst st)" "authed_conn_id c = authed_conn_id (fst st)" "keyboard c = keyboard (fst st)" "c_id c = c_id (fst st)"
    "v = Dispatch \<Longrightarrow> (c, w) = st"
proof -
  obtain c0 w0 where st: "st = (c0, w0)" by (meson surj_pair)
  have frame: "authorized (fst r) = authorized c0 \<and> authed_conn_id (fst r) = authed_conn_id c0 \<and> keyboard (fst r) = keyboard c0 \<and> c_id (fst r) = c_id c0"
    if "on_scope_violation env family (c0, w0) = (r, u)" for family r u
    using that by (auto simp: on_scope_violation_def Let_def send_close_reason_no_retry_def on_close_frame split: prod.splits if_splits)
  show "authorized c = authorized (fst st)" "authed_conn_id c = authed_conn_id (fst st)" "keyboard c = keyboard (fst st)" "c_id c = c_id (fst st)"
    using assms frame unfolding st by (force simp: on_message_def is_login_def split: option.splits if_splits)+
  show "v = Dispatch \<Longrightarrow> (c, w) = st"
    using assms unfolding st
    by (auto simp: on_message_def on_scope_violation_def Let_def split: option.splits if_splits prod.splits)
qed

lemma chat_ok: "subs_ok full env st \<Longrightarrow> subs_ok full env (case st of (s, h) \<Rightarrow> (s\<lparr>conn := (conn s)\<lparr>chat_unanswered := b\<rparr>\<rparr>, h))"
  by (cases st) (auto intro: subs_ok_same simp: grants_defs)

lemma qos_step_ok: "subs_ok full env st \<Longrightarrow> subs_ok full env (case st of (s, h) \<Rightarrow> (s, upd_qos (f s) h))"
  by (cases st) simp

lemma on_option_ok: "subs_ok full env st \<Longrightarrow> on_option env t o' st = Some st' \<Longrightarrow> subs_ok full env st'"
  using update_options_ok [of full env st "int t" _ st'] by (auto simp: on_option_def Let_def split: if_splits option.splits)

lemma on_voice_call_request_ok:
  assumes "subs_ok full env st" "on_voice_call_request e b ts st = Some st'"
  shows "subs_ok full env st'"
proof (cases b)
  case True
  with assms(2) show ?thesis by (auto simp: on_voice_call_request_def split: if_splits intro!: subs_ok_conn [OF assms(1)]) (simp_all add: grants_defs)
next
  case False
  obtain s h where st: "st = (s, h)" by (meson surj_pair)
  with False assms show ?thesis using close_voice_call_ok [of full env s h] by (simp add: on_voice_call_request_def)
qed

lemma on_switch_sides_request_ok:
  assumes "subs_ok full (senv env) (sess L)"
  shows "subs_ok full (senv env) (sess (fst (on_switch_sides_request env t u L)))"
proof -
  obtain s h where st: "sess L = (s, h)" by (meson surj_pair)
  have "subs_ok full (senv env) (s\<lparr>conn := fst (on_close e r b (conn s, w))\<rparr>, h\<lparr>hw := w'\<rparr>)" for e r b w w'
    by (rule subs_ok_conn [OF assms]) (simp_all add: st grants_defs on_close_frame)
  with assms show ?thesis by (simp add: on_switch_sides_request_def st Let_def case_prod_beta split: option.splits)
qed

lemma on_cliprdr_sess: "on_cliprdr env c L = Some (L', es) \<Longrightarrow> sess L' = sess L"
  by (auto simp: on_cliprdr_def Let_def split: cliprdr.splits option.splits if_splits)

lemma handle_message_ok:
  assumes "subs_ok full (senv env) (sess L)" "handle_message env t m L = Some (L', es, keep)"
  shows "subs_ok full (senv env) (sess L')"
proof -
  note ok = assms(1)
  show ?thesis
  proof (cases m)
    case (PM_Mouse x1) then show ?thesis using assms by (auto simp: handle_message_def on_mouse_event_def Let_def split: if_splits)
  next
    case PM_Pointer then show ?thesis using assms by (auto simp: handle_message_def on_pointer_event_def Let_def split: if_splits)
  next
    case (PM_Key x) then show ?thesis using assms by (auto simp: handle_message_def on_key_event_def Let_def split: if_splits option.splits)
  next
    case (PM_SwitchSides x) with assms on_switch_sides_request_ok [OF ok, of t x] show ?thesis by (simp add: handle_message_def)
  next
    case (PM_Cliprdr x) with assms on_cliprdr_sess [of env x L] show ?thesis by (auto simp: handle_message_def Let_def)
  next
    case (PM_Option x) with assms(2) on_option_ok [OF ok] show ?thesis by (auto simp: handle_message_def Let_def)
  next
    case (PM_VoiceCallRequest x y) with assms(2) on_voice_call_request_ok [OF ok] show ?thesis by (auto simp: handle_message_def Let_def)
  next
    case (PM_Chat x) with assms(2) chat_ok [OF ok, of True] show ?thesis by (auto simp: handle_message_def Let_def)
  next
    case (PM_AutoAdjustFps x) with assms(2) qos_step_ok [OF ok, of "\<lambda>s. user_auto_adjust_fps (sid s) x"] show ?thesis by (auto simp: handle_message_def Let_def)
  next
    case (PM_ClientRecordStatus x) with assms(2) qos_step_ok [OF ok, of "\<lambda>s. user_record (sid s) x"] show ?thesis by (auto simp: handle_message_def Let_def)
  next
    case (PM_TerminalAction x) with assms(2) terminal_ok(3) [OF ok, of x] show ?thesis by (auto simp: handle_message_def Let_def)
  qed (use assms in \<open>auto simp: handle_message_def Let_def handle_switch_display_ok capture_displays_session_ok
     toggle_privacy_ok refresh_video_display_ok change_resolution_ok split: if_splits\<close>)
qed

lemma receive_ok:
  assumes "subs_ok full (senv env) (sess L)" "receive env t m L = Some (L', es, keep)"
  shows "subs_ok full (senv env) (sess L')"
proof -
  obtain s h where st: "sess L = (s, h)" by (meson surj_pair)
  obtain c w v where o: "on_message (lenv (senv env)) t (M_Other (wire m)) (conn s, hw h) = ((c, w), v)" by (metis surj_pair)
  have "subs_ok full (senv env) (s\<lparr>conn := c\<rparr>, h\<lparr>hw := w\<rparr>)"
    by (rule subs_ok_conn [OF assms(1)]) (use on_message_other [OF o] in \<open>simp_all add: st grants_defs\<close>)
  with assms(2) handle_message_ok [of full env "L\<lparr>sess := (s\<lparr>conn := c\<rparr>, h\<lparr>hw := w\<rparr>)\<rparr>" t m] show ?thesis
    by (auto simp: receive_def st o Let_def split: if_splits)
qed

lemma session_step_ok:
  assumes "subs_ok full (senv env) (sess L)" "session_step env t ev L = Some (L', es, keep)"
  shows "subs_ok full (senv env) (sess L')"
proof -
  obtain s h where st: "sess L = (s, h)" by (meson surj_pair)
  note ok = assms(1) [unfolded st]
  have chat: "subs_ok full (senv env) (s\<lparr>conn := (conn s)\<lparr>chat_unanswered := b\<rparr>\<rparr>, h)" for b
    by (rule subs_ok_same [OF ok]) (simp add: grants_defs)
  show ?thesis
    using assms(2) receive_ok [OF assms(1), of t _ L' es keep] chat [of False] handle_voice_call_ok [OF ok] close_voice_call_ok [OF ok] switch_permission_ok [OF ok]
    by (cases ev) (simp_all add: session_step_def, auto simp: st)
qed

lemma session_run_ok:
  assumes "subs_ok full env (sess L)" "session_run evs L = Some L'" "\<forall>(e, _, _) \<in> set evs. one_way_clipboard (senv e) = one_way_clipboard env"
  shows "subs_ok full env (sess L')"
  using assms
proof (induction evs L rule: session_run.induct)
  case (2 e t ev evs L)
  have same: "subs_ok full (senv e) (sess L) = subs_ok full env (sess L)" "subs_ok full (senv e) (sess L1) = subs_ok full env (sess L1)" for L1
    using "2.prems"(3) by (auto intro!: subs_ok_env)
  obtain L1 es keep where step: "session_step e t ev L = Some (L1, es, keep)"
    using "2.prems"(2) by (auto split: option.splits)
  have "subs_ok full env (sess L1)" using session_step_ok [OF _ step, of full] "2.prems"(1) unfolding same by blast
  with "2.IH" [OF step] "2.prems"(2,3) step show ?case by (auto split: if_splits)
qed simp

section \<open>Which effects need which permission\<close>

text \<open>What the peer's messages do to the host, by the permissions and the type of the session.\<close>

definition powers :: "conn_session \<Rightarrow> auth_conn_type option \<times> bool \<times> bool \<times> bool \<times> bool" where
  "powers s = (authed_conn_id (conn s), keyboard (conn s), p_block_input s, p_privacy_mode s, view_camera (conn s))"

definition act_permitted :: "conn_session \<Rightarrow> session_effect \<Rightarrow> bool" where
  "act_permitted s e =
     (case e of
        E_PrivacyTurnOn _ i \<Rightarrow> authed_conn_id (conn s) = Some Remote \<and> p_privacy_mode s
      | E_BlockInput _ \<Rightarrow> authed_conn_id (conn s) = Some Remote \<and> keyboard (conn s) \<and> p_block_input s
      | E_Resolution _ _ _ \<Rightarrow> keyboard (conn s) \<and> \<not> view_camera (conn s)
      | _ \<Rightarrow> True)"


definition emits :: "'m sst \<Rightarrow> 'm sst \<Rightarrow> bool" where
  "emits st st' \<longleftrightarrow> powers (fst st') = powers (fst st)
     \<and> (\<exists>es. eff (snd st') = eff (snd st) @ es \<and> list_all (act_permitted (fst st)) es)"

lemma act_permitted_powers: "powers s = powers s' \<Longrightarrow> act_permitted s = act_permitted s'"
  by (auto simp: fun_eq_iff powers_def act_permitted_def split: session_effect.split)

lemma emits_refl [simp]: "emits st st"
  by (simp add: emits_def)

lemma emits_trans: "emits st st1 \<Longrightarrow> emits st1 st2 \<Longrightarrow> emits st st2"
  unfolding emits_def using act_permitted_powers [of "fst st1" "fst st"] by (force simp: list_all_append)

lemma emits_tell: "powers s' = powers s \<Longrightarrow> list_all (act_permitted s) es \<Longrightarrow> eff h' = eff h @ es \<Longrightarrow> emits (s, h) (s', h')"
  by (auto simp: emits_def)

lemma emits_silent: "powers s' = powers s \<Longrightarrow> eff h' = eff h \<Longrightarrow> emits (s, h) (s', h')"
  by (auto simp: emits_def)

lemma emits_pair: "powers s' = powers (fst st) \<Longrightarrow> list_all (act_permitted (fst st)) es \<Longrightarrow> eff h' = eff (snd st) @ es \<Longrightarrow> emits st (s', h')"
  by (cases st) (simp add: emits_tell)

lemma privacy_emits: "emits st (turn_on_privacy env k st)" "emits st (turn_off_privacy env k st)"
  by (cases st; auto simp: turn_on_privacy_def turn_off_privacy_def is_authed_remote_conn_def Let_def act_permitted_def turn_off_privacy_result_to_msg_def
      intro!: emits_tell split: option.split sum.split bool.split)+

lemma change_resolution_emits: "\<not> view_camera (conn (fst st)) \<Longrightarrow> emits st (change_resolution env d w h st)"
  by (cases st) (auto simp: change_resolution_def Let_def act_permitted_def intro!: emits_tell split: option.split)

lemma display_emits:
  "emits st (refresh_video_display d st)" "emits st (fst (switch_display_to env i st))" "emits st (conn_capture_displays env add sub dset st)"
  by (cases st; simp add: refresh_video_display_def switch_display_to_def conn_capture_displays_def Let_def emits_silent powers_def)+

lemma switch_display_emits: "emits st (handle_switch_display env i w h st)"
proof (cases "display_idx (fst st) \<noteq> i \<and> snd (switch_display_to env i st)")
  case True
  then obtain st1 where st1: "switch_display_to env i st = (st1, True)" by (metis (full_types) prod.collapse)
  have 1: "emits st st1" using display_emits(2) [of st env i] st1 by simp
  let ?st2 = "if \<not> view_camera (conn (fst st1)) \<and> w \<noteq> 0 \<and> h \<noteq> 0 then change_resolution env None w h st1 else st1"
  have "emits st1 ?st2" by (simp add: change_resolution_emits)
  moreover have "emits ?st2 (fst ?st2, tell [E_DisplayChanged (display_idx (fst ?st2))] (snd ?st2))"
    by (rule emits_pair [where es = "[E_DisplayChanged (display_idx (fst ?st2))]"]) (simp_all add: act_permitted_def)
  moreover have "handle_switch_display env i w h st = (fst ?st2, tell [E_DisplayChanged (display_idx (fst ?st2))] (snd ?st2))"
    using True st1 by (simp add: handle_switch_display_def Let_def)
  ultimately show ?thesis using 1 emits_trans by metis
next
  case False
  with display_emits(2) [of st env i] show ?thesis
    by (auto simp: handle_switch_display_def split: prod.split bool.split)
qed

lemma voice_emits: "emits st (close_voice_call st)" "on_voice_call_request env b ts st = Some st' \<Longrightarrow> emits st st'"
proof -
  show *: "emits st (close_voice_call st)" for st :: "'a sst"
    by (cases st) (auto simp: close_voice_call_def Let_def powers_def act_permitted_def intro!: emits_tell)
  show "on_voice_call_request env b ts st = Some st' \<Longrightarrow> emits st st'"
    using * by (cases st) (auto simp: on_voice_call_request_def powers_def act_permitted_def intro!: emits_tell split: if_splits)
qed

lemma terminal_emits: "emits st (handle_terminal_action env a st)" "emits st (update_terminal_persistence b st)"
  by (cases st; simp add: handle_terminal_action_def update_terminal_persistence_def act_permitted_def powers_def emits_def split: option.split sum.split prod.split)+

lemma eff_resub_audio [simp]: "eff (resub_audio s h) = eff h"
  by (simp add: resub_audio_def)

lemma option_emits:
  "update_quality t o' st = Some st' \<Longrightarrow> emits st st'" "emits st (update_video_options o' st)" "emits st (update_cursor_options o' st)"
  "emits st (update_media_options env o' st)" "emits st (update_shared_options env o' st)"
proof -
  show "update_quality t o' st = Some st' \<Longrightarrow> emits st st'"
    by (cases st) (auto simp: update_quality_def Let_def intro!: emits_silent split: if_splits)
  show "emits st (update_video_options o' st)"
    by (cases st) (auto simp: update_video_options_def Let_def powers_def act_permitted_def intro!: emits_tell split: option.split)
  have "eff (snd (update_cursor_options o' st)) = eff (snd st)" "powers (fst (update_cursor_options o' st)) = powers (fst st)"
    by (auto simp: update_cursor_options_def Let_def powers_def split: option.split)
  then show "emits st (update_cursor_options o' st)" by (simp add: emits_def)
  have "eff (snd (update_media_options env o' st)) = eff (snd st) @ (if set_bool (enable_file_transfer o') = Some False then [E_EmptyFileClipboard (sid (fst st))] else [])"
    "powers (fst (update_media_options env o' st)) = powers (fst st)"
    by (auto simp: update_media_options_def Let_def powers_def sid_def split: option.split)
  then show "emits st (update_media_options env o' st)" by (simp add: emits_def act_permitted_def)
  have shared: "emits st (case x of None \<Rightarrow> st | Some b \<Rightarrow> ((fst st)\<lparr>c_show_my_cursor := b\<rparr>,
      tell (if whiteboard_supported env then [E_Whiteboard (sid ((fst st)\<lparr>c_show_my_cursor := b\<rparr>)) b] else if b then [E_CursorUnsupported] else []) (snd st)))"
    for x and st :: "'a sst"
    by (simp add: emits_def powers_def act_permitted_def split: option.split)
  have "emits st (case x of None \<Rightarrow> st | Some b \<Rightarrow> update_terminal_persistence b st)" for x by (simp add: terminal_emits split: option.split)
  from emits_trans [OF this shared] show "emits st (update_shared_options env o' st)" unfolding update_shared_options_def Let_def by blast
qed

lemma control_emits:
  assumes "set_bool (block_input o') \<noteq> None \<Longrightarrow> authed_conn_id (conn (fst st)) = Some Remote"
  shows "emits st (update_control_options env o' st)"
proof -
  define st1 where "st1 = (if get_version_number (lenv env) (version (lr (conn (fst st)))) < get_version_number (lenv env) ''1.2.4'' \<and> keyboard (conn (fst st))
      then case set_bool (privacy_mode o') of Some True \<Rightarrow> turn_on_privacy env [] st | Some False \<Rightarrow> turn_off_privacy env [] st | None \<Rightarrow> st
      else st)"
  have 1: "emits st st1" by (simp add: st1_def privacy_emits split: option.split bool.split)
  have "update_control_options env o' st = (case set_bool (block_input o') of None \<Rightarrow> st1
      | Some b \<Rightarrow> (fst st1, tell [if keyboard (conn (fst st1)) \<and> p_block_input (fst st1) then E_BlockInput b else E_BlockInputError b] (snd st1)))"
    unfolding update_control_options_def Let_def case_prod_beta st1_def by (rule refl)
  moreover have "authed_conn_id (conn (fst st1)) = authed_conn_id (conn (fst st))" using 1 by (simp add: emits_def powers_def)
  then have "emits st1 (case set_bool (block_input o') of None \<Rightarrow> st1
      | Some b \<Rightarrow> (fst st1, tell [if keyboard (conn (fst st1)) \<and> p_block_input (fst st1) then E_BlockInput b else E_BlockInputError b] (snd st1)))"
    using assms by (auto simp: act_permitted_def intro!: emits_pair split: option.split)
  ultimately show ?thesis using emits_trans [OF 1] by simp
qed

lemma update_options_emits:
  assumes "update_options env t o' st = Some st'" "set_bool (block_input o') \<noteq> None \<Longrightarrow> authed_conn_id (conn (fst st)) = Some Remote"
  shows "emits st st'"
proof -
  from assms(1) obtain st1 where q: "update_quality t o' st = Some st1" and st': "st' = update_shared_options env o' (update_control_options env o'
        (update_media_options env o' (update_cursor_options o' (update_video_options o' st1))))" by (auto simp: update_options_def)
  let ?st = "update_media_options env o' (update_cursor_options o' (update_video_options o' st1))"
  have 1: "emits st ?st" using emits_trans option_emits(1) [OF q] option_emits(2-4) by metis
  then have "authed_conn_id (conn (fst ?st)) = authed_conn_id (conn (fst st))" by (simp add: emits_def powers_def)
  then have "emits ?st (update_control_options env o' ?st)" using assms(2) control_emits by metis
  with 1 show ?thesis unfolding st' using emits_trans option_emits(5) by metis
qed

lemma on_option_emits:
  assumes "on_option env t o' st = Some st'"
  shows "emits st st'"
proof (cases "authed_conn_id (conn (fst st)) = Some Remote")
  case True
  with assms update_options_emits [of env "int t" o' st st'] show ?thesis by (simp add: on_option_def)
next
  case False
  have "block_input o'' = 0" if "scoped_update_option_message ty o' = Some o''" for ty o''
    using that by (auto simp: scoped_update_option_message_def scoped_view_camera_option_def scoped_terminal_login_option_def new_option_message_def Let_def
      then_some_def split: option.splits auth_conn_type.splits if_splits sum.splits)
  moreover have "set_bool 0 = None" by (simp add: set_bool_def bool_option_enum_value_def)
  ultimately have "set_bool (block_input o'') = None" if "scoped_update_option_message ty o' = Some o''" for ty o'' using that by simp
  then have scoped: "scoped_update_option_message (authed_conn_id (conn (fst st))) o' = Some o'' \<Longrightarrow> update_options env (int t) o'' st = Some st' \<Longrightarrow> emits st st'" for o''
    by (intro update_options_emits [of env "int t" o'' st st']) auto
  show ?thesis using assms False scoped by (auto simp: on_option_def Let_def split: option.splits)
qed

lemma touch_emits: "emits (sess L) (sess (touch t L))"
  by (cases "sess L") (simp add: touch_def update_auto_disconnect_timer_def emits_silent powers_def)

lemma switch_sides_emits: "emits (sess L) (sess (fst (on_switch_sides_request env t u L)))"
proof -
  obtain s h where st: "sess L = (s, h)" by (meson surj_pair)
  have "emits (s, h) (s\<lparr>conn := fst (on_close e r b (conn s, w))\<rparr>, h\<lparr>hw := w'\<rparr>)" for e r b w w'
    by (rule emits_silent) (simp_all add: on_close_def powers_def)
  then show ?thesis by (simp add: on_switch_sides_request_def st Let_def case_prod_beta split: option.splits)
qed

lemma handle_message_emits:
  assumes "handle_message env t m L = Some (L', es, keep)"
  shows "emits (sess L) (sess L')"
proof (cases m)
  case (PM_SwitchSides u)
  with assms switch_sides_emits [of L env t u] show ?thesis by (simp add: handle_message_def)
next
  case (PM_Chat x)
  let ?L = "upd_sess (\<lambda>(s, h). (s\<lparr>conn := (conn s)\<lparr>chat_unanswered := True\<rparr>\<rparr>, h)) L"
  have "emits (sess L) (sess ?L)" by (cases "sess L") (simp add: emits_silent powers_def)
  with emits_trans touch_emits have "emits (sess L) (sess (touch t ?L))" by blast
  with assms PM_Chat show ?thesis by (auto simp: handle_message_def)
next
  case (PM_RefreshVideo b)
  have "emits (sess L) (sess (touch t (if b then upd_sess (refresh_video_display None) L else L)))"
    by (rule emits_trans [OF _ touch_emits]) (simp add: display_emits)
  with assms PM_RefreshVideo show ?thesis by (auto simp: handle_message_def)
next
  case (PM_RefreshVideoDisplay d)
  have "emits (sess L) (sess (touch t (upd_sess (refresh_video_display (Some (i32_as_u64 d))) L)))"
    by (rule emits_trans [OF _ touch_emits]) (simp add: display_emits)
  with assms PM_RefreshVideoDisplay show ?thesis by (auto simp: handle_message_def)
next
  case (PM_Key e)
  with assms touch_emits [of L t] touch_emits [of "L\<lparr>pressed_modifiers := p\<rparr>" t for p] show ?thesis
    by (auto simp: handle_message_def on_key_event_def Let_def split: if_splits option.splits)
next
  case (PM_Cliprdr c)
  with assms on_cliprdr_sess [of env c L] show ?thesis by (auto simp: handle_message_def)
next
  case (PM_Option o')
  with assms on_option_emits [of "senv env" t o' "sess L"] show ?thesis by (auto simp: handle_message_def simp del: split_paired_All)
next
  case (PM_VoiceCallRequest b ts)
  with assms voice_emits(2) [of env b ts "sess L"] show ?thesis by (auto simp: handle_message_def)
qed (use assms touch_emits [of L t] in \<open>auto simp: handle_message_def on_mouse_event_def on_pointer_event_def Let_def
   switch_display_emits display_emits change_resolution_emits toggle_privacy_mode_def privacy_emits terminal_emits powers_def
   intro!: emits_silent split: if_splits prod.splits\<close>)


section \<open>The type of a session does not change\<close>

definition kind_of :: "'m sst \<Rightarrow> auth_conn_type option" where
  "kind_of st = authed_conn_id (conn (fst st))"

lemma emits_kind: "emits st st' \<Longrightarrow> kind_of st' = kind_of st"
  by (simp add: emits_def powers_def kind_of_def)

lemma receive_kind:
  assumes "receive env t m L = Some (L', es, keep)"
  shows "kind_of (sess L') = kind_of (sess L)"
proof -
  obtain s h where st: "sess L = (s, h)" by (meson surj_pair)
  obtain c w v where o: "on_message (lenv (senv env)) t (M_Other (wire m)) (conn s, hw h) = ((c, w), v)" by (metis surj_pair)
  from assms on_message_other [OF o] emits_kind [OF handle_message_emits, of env t m "L\<lparr>sess := (s\<lparr>conn := c\<rparr>, h\<lparr>hw := w\<rparr>)\<rparr>" L'] show ?thesis
    by (auto simp: receive_def st o Let_def kind_of_def split: if_splits)
qed

lemma session_run_kind: "session_run evs L = Some L' \<Longrightarrow> kind_of (sess L') = kind_of (sess L)"
proof (induction evs L rule: session_run.induct)
  case (2 e t ev evs L)
  obtain L1 es keep where step: "session_step e t ev L = Some (L1, es, keep)" using "2.prems" by (auto split: option.splits)
  have "kind_of (switch_permission env name b st) = kind_of st" for env name b and st :: "'a sst"
    by (cases st) (simp add: switch_permission_def switch_privacy_permission_def kind_of_def Let_def split: option.split sum.split)
  moreover have "kind_of (handle_voice_call b st) = kind_of st" "kind_of (close_voice_call st) = kind_of st" for b and st :: "'a sst"
    by (cases st; simp add: handle_voice_call_def close_voice_call_def kind_of_def Let_def split: option.split)+
  ultimately have "kind_of (sess L1) = kind_of (sess L)"
    using step receive_kind [of e t _ L L1 es keep] by (cases ev; cases "sess L") (auto simp: session_step_def kind_of_def)
  with "2.IH" [OF step] "2.prems" step show ?case by (auto split: if_splits)
qed simp

lemma begin_session_kind:
  assumes "fresh (s, h)" "begin_session env t (s, h) = Some st'"
  shows "kind_of st' = Some (session_type (conn s))"
proof -
  have ty: "kind_of (s, h) = Some (session_type (conn s))" using assms(1) by (simp add: fresh_def typed_def kind_of_def)
  have start: "kind_of (start_kind env t ok st) = kind_of st" for ok and st :: "'a sst"
    by (cases st) (auto simp: start_kind_def try_sub_monitor_services_def init_terminal_service_def kind_of_def Let_def split: option.split)
  show ?thesis
  proof (cases "port_forward_socket (conn s) \<or> is_remote s \<and> display_server_error env \<noteq> []")
    case True
    with assms(2) ty show ?thesis by (auto simp: begin_session_def kind_of_def split: if_splits)
  next
    case False
    obtain s1 okd where d: "login_display env s = (s1, okd)" by (meson surj_pair)
    have c: "conn s1 = conn s" using login_display_ok(2) [OF fresh_ok [OF assms(1)] d] .
    define es where "es = (if file_transfer (conn s1) \<noteq> None \<or> terminal (conn s1) then [] else [update_codec_on_login s1]) @ [E_LoginResponse okd]"
    have "begin_session env t (s, h) = map_option (start_kind env t okd) (apply_login_options env (int t) (s1, tell es h))"
      using False d by (auto simp: begin_session_def Let_def es_def)
    with assms(2) obtain st2 where a: "apply_login_options env (int t) (s1, tell es h) = Some st2" "st' = start_kind env t okd st2" by auto
    have "subs_ok False env (s1, tell es h)" using login_display_ok(1) [OF fresh_ok [OF assms(1)] d] by simp
    from apply_login_options_ok(2) [OF this a(1)] have "kind_of st2 = kind_of (s1, h)" by (simp add: shape_defs kind_of_def)
    also have "\<dots> = kind_of (s, h)" by (simp add: kind_of_def c)
    finally show ?thesis using ty by (simp add: a(2) start)
  qed
qed

definition start_live :: "'m sst \<Rightarrow> clip_files \<Rightarrow> 'm live" where
  "start_live st cf = \<lparr>sess = st, pressed_modifiers = {}, audio_sender = False, clip = cf\<rparr>"

section \<open>Theorems\<close>

text \<open>
  C3. Permissions and subscriptions of a remote desktop session agree: after its start and any
  sequence of messages of the peer and switches of the host's user, it is subscribed to the clipboard,
  to audio and to the cursor position exactly when the permissions and options in force allow it. The
  other three are bounded on one side: it is subscribed to the cursor only with the keyboard permission
  or the option to show the cursor, to the file clipboard only with the permission for files and the
  peer's option for them, whatever the clipboard permission is, and to the window focus only with the
  option to follow it.
\<close>

theorem subscriptions_follow_permissions:
  assumes "fresh (s, h)" "session_type (conn s) = Remote" "display_server_error env = []" "login_displays env = Inr i"
    "begin_session env t (s, h) = Some st" "session_run evs (start_live st cf) = Some L"
    "\<forall>(e, _, _) \<in> set evs. one_way_clipboard (senv e) = one_way_clipboard env" "sess L = (s', h')"
  shows "(sub_of (sid s') NAME_CLIPBOARD (hub h') \<longleftrightarrow> contains NAME_CLIPBOARD (hub h') \<and> can_sub_clipboard_service env s')
    \<and> (sub_of (sid s') NAME_AUDIO (hub h') \<longleftrightarrow> contains NAME_AUDIO (hub h') \<and> audio_enabled s')
    \<and> (sub_of (sid s') NAME_POS (hub h') \<longleftrightarrow> contains NAME_POS (hub h') \<and> c_show_remote_cursor s')
    \<and> (sub_of (sid s') NAME_CURSOR (hub h') \<longrightarrow> keyboard (conn s') \<or> c_show_remote_cursor s')
    \<and> (sub_of (sid s') FILE_NAME (hub h') \<longrightarrow> file_transfer_enabled s')
    \<and> (sub_of (sid s') NAME_WINDOW_FOCUS (hub h') \<longrightarrow> c_follow_remote_window s')"
proof -
  have "subs_ok True env (sess L)"
    by (rule session_run_ok [OF _ assms(6,7)]) (simp add: start_live_def begin_session_ok(2) [OF assms(1,5,2,3,4)])
  moreover have "authed_conn_id (conn s') = Some Remote"
    using session_run_kind [OF assms(6)] begin_session_kind [OF assms(1,5)] assms(2,8) by (simp add: kind_of_def start_live_def)
  ultimately have r: "remote_subs True env s' (hub h')" using assms(8) by (simp add: subs_ok_def)
  have "n \<in> plain_names \<Longrightarrow> (sub_of (sid s') n (hub h') \<longrightarrow> allowed env s' n) \<and> (contains n (hub h') \<and> required env s' n \<longrightarrow> sub_of (sid s') n (hub h'))" for n
    using r by (simp add: remote_subs_def)
  from this [of NAME_CLIPBOARD] this [of NAME_AUDIO] this [of NAME_POS] this [of NAME_CURSOR] this [of FILE_NAME] this [of NAME_WINDOW_FOCUS] sub_of_contains
  show ?thesis by (simp add: allowed_def required_def) blast
qed

text \<open>
  C19. A camera session hears the host only during a voice call: after its start and any sequence of
  messages and switches, it is subscribed to audio only while a call is on and audio is allowed.
\<close>

theorem camera_hears_only_calls:
  assumes "fresh (s, h)" "session_type (conn s) = ViewCamera" "begin_session env t (s, h) = Some st"
    "session_run evs (start_live st cf) = Some L" "sess L = (s', h')" "sub_of (sid s') NAME_AUDIO (hub h')"
  shows "voice_calling s' \<and> audio_enabled s'"
proof -
  have other: "subs_ok False e st1 = subs_ok False e' st1" if "kind_of st1 = Some ViewCamera" for e e' and st1 :: "'a sst"
    using that by (auto simp: subs_ok_def kind_of_def split: prod.split)
  have "subs_ok False env (sess L2)" if "session_run evs L1 = Some L2" "subs_ok False env (sess L1)" "kind_of (sess L1) = Some ViewCamera" for evs and L1 L2 :: "'a live"
    using that
  proof (induction evs L1 rule: session_run.induct)
    case (2 e t ev evs L)
    obtain L1 es keep where step: "session_step e t ev L = Some (L1, es, keep)" using "2.prems"(1) by (auto split: option.splits)
    have "session_run [(e, t, ev)] L = Some L1" using step by simp
    from session_run_kind [OF this] "2.prems"(3) have k: "kind_of (sess L1) = Some ViewCamera" by simp
    have "subs_ok False (senv e) (sess L)" using "2.prems"(2) other [OF "2.prems"(3), of env "senv e"] by simp
    from session_step_ok [OF this step] have "subs_ok False env (sess L1)" using other [OF k, of env "senv e"] by simp
    with "2.IH" [OF step] "2.prems" step k show ?case by (auto split: if_splits)
  qed simp
  from this [OF assms(4)] begin_session_ok(1) [OF assms(1,3)] begin_session_kind [OF assms(1,3)] assms(2)
  have "subs_ok False env (sess L)" by (simp add: start_live_def)
  moreover have "kind_of (sess L) = Some ViewCamera"
    using session_run_kind [OF assms(4)] begin_session_kind [OF assms(1,3)] assms(2) by (simp add: start_live_def)
  ultimately show ?thesis using assms(5,6) by (auto simp: subs_ok_def camera_subs_def kind_of_def)
qed


text \<open>
  C32. The file clipboard is served without a permission check: whatever the permissions for files and
  the clipboard are, a request of a remote desktop peer gets every answer that the table of copied
  files gives, file contents included.
\<close>

theorem file_clipboard_ignores_permission:
  assumes "sess L = (s, h)" "authorized (conn s)" "authed_conn_id (conn s) = Some Remote" "\<not> port_forward_socket (conn s)"
    "is_support_file_copy_paste (lenv (senv env)) (version (lr (conn s)))" "msg_2_clip m = Some c" "\<forall>fs. m \<noteq> CliprdrFiles fs"
    "serve_clip_messages (files_of env) c (sid s) (clip L) = Some (cf, rs, acts)"
  shows "\<exists>L' es. receive env t (PM_Cliprdr m) L = Some (L', es, True)
    \<and> (\<forall>flags st d. FileContentsResponse flags st d \<in> set rs \<longrightarrow> I_Cliprdr (FileContentsResponse flags st d) \<in> set es)"
proof -
  have "authorized_scope_violation b (Some Remote) (wire (PM_Cliprdr m)) = None" for b
    by (simp add: authorized_scope_violation_def authorized_message_scope_violation_def wire_def then_some_def Let_def)
  with assms(1-4) have o: "on_message (lenv (senv env)) t (M_Other (wire (PM_Cliprdr m))) (conn s, hw h) = ((conn s, hw h), Dispatch)"
    by (simp add: on_message_def as_message_def is_login_def)
  let ?es = "map I_Clip acts @ map (\<lambda>r. case r of Files fs \<Rightarrow> I_PostFileAudit False fs | _ \<Rightarrow> I_Cliprdr r) rs"
  have "on_cliprdr env m L = Some (L\<lparr>clip := cf\<rparr>, ?es)"
    using assms by (cases m) (auto simp: on_cliprdr_def)
  moreover have "L\<lparr>sess := ((fst (sess L))\<lparr>conn := conn s\<rparr>, (snd (sess L))\<lparr>hw := hw h\<rparr>)\<rparr> = L" using assms(1) by simp
  moreover have "on_message (lenv (senv env)) t (M_Other (wire (PM_Cliprdr m))) (conn (fst (sess L)), hw (snd (sess L))) = ((conn s, hw h), Dispatch)"
    using o assms(1) by simp
  ultimately have "receive env t (PM_Cliprdr m) L = Some (L\<lparr>clip := cf\<rparr>, ?es, True)"
    unfolding receive_def Let_def handle_message_def by (simp only: prod.case peer_msg.case if_True option.map refl)
  then show ?thesis by force
qed

text \<open>
  C34. On Linux the connection never records a modifier in its own set of pressed modifiers, whatever
  keys the peer presses, so that \<open>release_pressed_modifiers\<close> has nothing to release when the connection
  is dropped. This is about the set of the connection; the keys that the input service counts as
  pressed are released by that service and are not part of the model.
\<close>

theorem modifiers_never_recorded:
  assumes "session_run evs (start_live st cf) = Some L"
  shows "snd (release_pressed_modifiers L) = {}"
proof -
  have handle: "pressed_modifiers L' \<subseteq> pressed_modifiers L" if "handle_message env t m L = Some (L', es, keep)" for env t m es keep and L L' :: "'a live"
  proof (cases m)
    case (PM_Key e)
    with that show ?thesis by (auto simp: handle_message_def on_key_event_def touch_def Let_def split: if_splits option.splits)
  next
    case (PM_Cliprdr c)
    with that show ?thesis by (auto simp: handle_message_def on_cliprdr_def Let_def split: cliprdr.splits option.splits if_splits)
  next
    case (PM_SwitchSides u)
    with that show ?thesis by (auto simp: handle_message_def on_switch_sides_request_def Let_def split: prod.splits option.splits if_splits)
  qed (use that in \<open>auto simp: handle_message_def on_mouse_event_def on_pointer_event_def touch_def Let_def split: if_splits\<close>)
  have recv: "pressed_modifiers L' \<subseteq> pressed_modifiers L" if "receive env t m L = Some (L', es, keep)" for env t m es keep and L L' :: "'a live"
    using that handle by (fastforce simp: receive_def Let_def split: prod.splits if_splits)
  have step: "pressed_modifiers L' \<subseteq> pressed_modifiers L" if "session_step env t ev L = Some (L', es, keep)" for env t ev es keep and L L' :: "'a live"
    using that recv by (cases ev) (auto simp: session_step_def)
  have "pressed_modifiers L' \<subseteq> pressed_modifiers L" if "session_run evs L = Some L'" for evs and L L' :: "'a live"
    using that
  proof (induction evs L rule: session_run.induct)
    case (2 e t ev evs L)
    obtain L1 es keep where s: "session_step e t ev L = Some (L1, es, keep)" using "2.prems" by (auto split: option.splits)
    show ?case using "2.IH" [OF s refl refl] "2.prems" step [OF s] s by (auto split: if_splits)
  qed simp
  from this [OF assms] show ?thesis by (simp add: start_live_def release_pressed_modifiers_def)
qed

text \<open>
  C33. Revoking the clipboard does not end the file clipboard: a session that was subscribed to it stays
  subscribed, although it may no longer subscribe.
\<close>

theorem revoked_clipboard_keeps_files:
  assumes "hub_inv (hub h)" "sub_of (sid s) FILE_NAME (hub h)" "switch_permission env ''clipboard'' False (s, h) = (s', h')"
  shows "sub_of (sid s') FILE_NAME (hub h') \<and> \<not> can_sub_file_clipboard_service env s'"
  using assms by (auto simp: switch_permission_def Let_def sub_of_subscribe permission_defs sid_def)

section \<open>Witnesses\<close>

definition empty_clip :: clip_files where
  "empty_clip = \<lparr>cf_files = [], cf_sigs = [], cf_list = [], cf_first = 0, cf_pdu = []\<rparr>"

definition demo_env :: session_env where
  "demo_env = \<lparr>lenv = Login.sample_env, tenv = TerminalService.sample_env, shell = sample_shell 1, one_way_clipboard = False, one_way_file_transfer = False,
     monitor_count = 1, camera_count = 1, primary_camera_exists = True, auto_disconnect = None, privacy_supported = False, privacy_conn_id = None,
     privacy_impl_key = None, privacy_is_current = (\<lambda>_. False), privacy_turn_on = (\<lambda>_ _. None), privacy_check_err = [], privacy_turn_off = None,
     display_count = Some 1, display_server_error = [], login_displays = Inr 0, is_dir = (\<lambda>_. False), whiteboard_supported = True,
     generated_service_id = ''ts''\<rparr>"

definition demo_conn :: "auth_conn_type \<Rightarrow> conn_session" where
  "demo_conn ty = \<lparr>conn = sample_conn\<lparr>authorized := True, view_camera := (ty = ViewCamera), authed_conn_id := Some ty\<rparr>,
     p_clipboard = True, p_audio = True, p_file = True, p_restart = False, p_recording = True, p_block_input = True, p_privacy_mode = True,
     c_show_remote_cursor = False, c_follow_remote_cursor = False, c_follow_remote_window = False, c_show_my_cursor = False,
     c_disable_audio = False, c_disable_clipboard = False, c_disable_keyboard = False, c_enable_file_transfer = True,
     multi_ui_session = False, services_subed = False, voice_calling = False, voice_call_request_timestamp = None, display_idx = 0,
     auto_disconnect_timer = None, terminal_generic_service = False\<rparr>"

definition demo_host :: "unit host" where
  "demo_host = \<lparr>hw = sample_world, hub = server_new 0 False True, terms = term_init, eff = []\<rparr>"

definition demo_live_env :: live_env where
  "demo_live_env = \<lparr>senv = demo_env, key_of = (\<lambda>n. if n = 42 then ShiftLeft else OtherKey n), files_of = two_files, display_info = (\<lambda>_. True),
     uuid_text = (\<lambda>_. []), get_time = 1\<rparr>"

lemma demo_fresh: "fresh (demo_conn Remote, demo_host)" "fresh (demo_conn ViewCamera, demo_host)"
  by code_simp+

definition demo_run :: "auth_conn_type \<Rightarrow> (live_env \<times> nat \<times> session_event) list \<Rightarrow> unit live option" where
  "demo_run ty evs = Option.bind (begin_session demo_env 1 (demo_conn ty, demo_host)) (\<lambda>st. session_run evs (start_live st two_cf))"

definition demo_events :: "(live_env \<times> nat \<times> session_event) list" where
  "demo_events = [(demo_live_env, 2, SwitchPermission ''clipboard'' False), (demo_live_env, 3, Peer (PM_Mouse 0))]"

lemma demo_run_some:
  assumes "demo_run ty evs \<noteq> None"
  obtains st L where "begin_session demo_env 1 (demo_conn ty, demo_host) = Some st" "session_run evs (start_live st two_cf) = Some L"
    "demo_run ty evs = Some L"
  using assms by (auto simp: demo_run_def bind_eq_Some_conv)

theorem subscriptions_follow_permissions_witness:
  "\<not> sub_of 1 NAME_CLIPBOARD (hub (snd (sess (the (demo_run Remote demo_events)))))"
proof -
  have "demo_run Remote demo_events \<noteq> None" by code_simp
  then obtain st L where r: "begin_session demo_env 1 (demo_conn Remote, demo_host) = Some st" "session_run demo_events (start_live st two_cf) = Some L"
    "demo_run Remote demo_events = Some L" by (rule demo_run_some)
  have d: "sid (fst (sess (the (demo_run Remote demo_events)))) = 1 \<and> \<not> p_clipboard (fst (sess (the (demo_run Remote demo_events))))" by code_simp
  have "display_server_error demo_env = []" "login_displays demo_env = Inr 0" "session_type (conn (demo_conn Remote)) = Remote"
    by (simp_all add: demo_env_def demo_conn_def sample_conn_def session_type_def)
  moreover have "\<forall>(e, _, _) \<in> set demo_events. one_way_clipboard (senv e) = one_way_clipboard demo_env" by (simp add: demo_events_def demo_live_env_def)
  ultimately have "\<not> sub_of (sid (fst (sess L))) NAME_CLIPBOARD (hub (snd (sess L)))"
    using subscriptions_follow_permissions [OF demo_fresh(1) _ _ _ r(1,2), of 0 "fst (sess L)" "snd (sess L)"] d
    by (simp add: r(3) can_sub_clipboard_service_def clipboard_enabled_def)
  with d show ?thesis by (simp add: r(3))
qed

definition camera_events :: "(live_env \<times> nat \<times> session_event) list" where
  "camera_events = [(demo_live_env, 2, Peer (PM_VoiceCallRequest True 5)), (demo_live_env, 3, CmVoiceCallResponse True)]"

theorem camera_hears_only_calls_witness: "voice_calling (fst (sess (the (demo_run ViewCamera camera_events))))"
proof -
  have "demo_run ViewCamera camera_events \<noteq> None" by code_simp
  then obtain st L where r: "begin_session demo_env 1 (demo_conn ViewCamera, demo_host) = Some st" "session_run camera_events (start_live st two_cf) = Some L"
    "demo_run ViewCamera camera_events = Some L" by (rule demo_run_some)
  have "sub_of (sid (fst (sess (the (demo_run ViewCamera camera_events))))) NAME_AUDIO (hub (snd (sess (the (demo_run ViewCamera camera_events)))))" by code_simp
  moreover have "session_type (conn (demo_conn ViewCamera)) = ViewCamera" by (simp add: demo_conn_def sample_conn_def session_type_def)
  ultimately show ?thesis
    using camera_hears_only_calls [OF demo_fresh(2) _ r(1,2), of "fst (sess L)" "snd (sess L)"] by (simp add: r(3))
qed

definition demo_live :: "unit live" where
  "demo_live = start_live ((demo_conn Remote)\<lparr>p_file := False, p_clipboard := False\<rparr>, demo_host) two_cf"


theorem file_clipboard_ignores_permission_witness:
  "\<not> p_file (fst (sess demo_live)) \<and> (\<exists>L' es. receive demo_live_env 3 (PM_Cliprdr (CliprdrFileContentsRequest 5 1 2 1 0 9 False 0)) demo_live = Some (L', es, True)
     \<and> I_Cliprdr (FileContentsResponse 1 5 [2, 3]) \<in> set es)"
proof -
  let ?m = "CliprdrFileContentsRequest 5 1 2 1 0 9 False 0" and ?c = "FileContentsRequest 5 1 2 1 0 9 False 0"
  have m: "msg_2_clip ?m = Some ?c" by (simp add: msg_2_clip_def)
  obtain cf rs acts where r: "serve_clip_messages (files_of demo_live_env) ?c 1 (clip demo_live) = Some (cf, rs, acts)" "FileContentsResponse 1 5 [2, 3] \<in> set rs"
    by (simp add: demo_live_def start_live_def demo_live_env_def serve_clip_messages_def read_file_contents_def two_cf_def two_list_def two_files_def serve_file_contents_def Let_def
        read_exact_at_def load_handle_def read_exact_def wrap_u64_eq i32_as_u64_def request_offset_def)
  have s: "sid (fst (sess demo_live)) = 1" "authorized (conn (fst (sess demo_live)))" "authed_conn_id (conn (fst (sess demo_live))) = Some Remote"
    "\<not> port_forward_socket (conn (fst (sess demo_live)))"
    "is_support_file_copy_paste (lenv (senv demo_live_env)) (version (lr (conn (fst (sess demo_live)))))" "\<not> p_file (fst (sess demo_live))"
    by (simp_all add: demo_live_def start_live_def demo_conn_def sample_conn_def sid_def is_support_file_copy_paste_def demo_live_env_def demo_env_def Login.sample_env_def)
  with r file_clipboard_ignores_permission [of demo_live "fst (sess demo_live)" "snd (sess demo_live)" demo_live_env ?m ?c cf rs acts 3] m show ?thesis by auto
qed

text \<open>The peer holds the left shift key down: the key is simulated, and nothing is recorded.\<close>

definition shift_down :: key_event where
  "shift_down = \<lparr>down = True, press = False, ke_union = Some (Chr 42), ke_mode = Inr ModeMap\<rparr>"

definition shift_events :: "(live_env \<times> nat \<times> session_event) list" where
  "shift_events = [(demo_live_env, 2, Peer (PM_Key shift_down))]"

theorem modifiers_never_recorded_witness:
  "modifier_of (key_of demo_live_env) shift_down = Some ShiftLeft
     \<and> map_option (\<lambda>(_, es, _). es) (receive demo_live_env 2 (PM_Key shift_down) (the (demo_run Remote []))) = Some [I_MouseMoveTime, I_Key shift_down False]
     \<and> snd (release_pressed_modifiers (the (demo_run Remote shift_events))) = {}"
proof -
  have "modifier_of (key_of demo_live_env) shift_down = Some ShiftLeft" by code_simp
  moreover have "map_option (\<lambda>(_, es, _). es) (receive demo_live_env 2 (PM_Key shift_down) (the (demo_run Remote []))) = Some [I_MouseMoveTime, I_Key shift_down False]" by code_simp
  moreover have "demo_run Remote shift_events \<noteq> None" by code_simp
  then obtain st L where r: "session_run shift_events (start_live st two_cf) = Some L" "demo_run Remote shift_events = Some L" by (rule demo_run_some)
  from modifiers_never_recorded [OF r(1)] have "snd (release_pressed_modifiers (the (demo_run Remote shift_events))) = {}" by (simp add: r(2))
  ultimately show ?thesis by blast
qed

theorem revoked_clipboard_keeps_files_witness:
  "sub_of 1 FILE_NAME (hub (snd (switch_permission demo_env ''clipboard'' False (sess (the (demo_run Remote []))))))"
proof -
  obtain s h s' h' where st: "sess (the (demo_run Remote [])) = (s, h)" "switch_permission demo_env ''clipboard'' False (s, h) = (s', h')" by (meson surj_pair)
  have "hub_inv (hub (snd (sess (the (demo_run Remote [])))))" "sub_of (sid (fst (sess (the (demo_run Remote []))))) FILE_NAME (hub (snd (sess (the (demo_run Remote [])))))"
    by code_simp+
  from revoked_clipboard_keeps_files [of h s demo_env s' h'] this have "sub_of (sid s') FILE_NAME (hub h')" by (simp add: st)
  moreover have "sid (fst (switch_permission demo_env ''clipboard'' False (sess (the (demo_run Remote []))))) = 1" by code_simp
  ultimately show ?thesis by (simp add: st)
qed

end
