(* ===== verification/ConnectionLoop.thy ===== *)
theory ConnectionLoop
  imports SessionMessages
begin

text \<open>
  The loop of an authorized connection (\<open>Connection::start\<close> in \<open>src/server/connection.rs\<close>) around the
  messages of \<^verbatim>\<open>SessionMessages\<close>: the timers, the messages of the services on their way to the peer, what
  closes the connection, and what is done when the loop has ended. Times are in milliseconds. The
  timer of the file jobs is a step of \<^verbatim>\<open>FileTransferRuns\<close>. The theorems say when a connection is closed
  and that the server keeps no subscription of it.
\<close>

section \<open>State and events\<close>

definition SEC30 :: nat where "SEC30 = 30000"

record 'm loop =
  lv :: "'m live"
  last_recv :: nat

text \<open>A message of a service: only what the loop looks at.\<close>

datatype service_msg =
    SM_AudioFrame
  | SM_StopService
  | SM_PeerInfo
  | SM_CursorPosition int int
  | SM_MultiClipboards "(string \<times> bool) list"
  | SM_Other

datatype loop_event =
    CmSession session_event
  | CmClose
  | CmErr string
  | CmRawMessage
  | CmPrivacyModeState privacy_state string
  | CmSwitchSidesBack
  | StreamError string
  | StreamEnd
  | Received peer_msg
  | ReceivedTestDelay bool
  | ReceivedGarbage
  | WebConsole "int list"
  | VideoMessage nat "nat option" "string option"
  | ServiceMessage nat service_msg "string option"
  | SecondTick
  | DelayTick
  | ClipFile clipboard_file

datatype loop_effect =
    L_Input input_effect
  | L_Raw
  | L_Privacy privacy_state string
  | L_SwitchBack
  | L_Sent service_msg
  | L_Video
  | L_TextClipboard string
  | L_FollowDisplay nat
  | L_TestDelay nat nat
  | L_Clip clipboard_file
  | L_Notify int

text \<open>What the loop reads besides: the option for the wake lock and its cached value, and the display at a position.\<close>

record loop_env =
  venv :: live_env
  keep_awake_now :: bool
  keep_awake_cached :: "bool option"
  display_at :: "int \<Rightarrow> int \<Rightarrow> nat option"
  multi_clipboard_ok :: "string \<Rightarrow> string \<Rightarrow> bool"

type_synonym 'm looped = "('m loop \<times> loop_effect list \<times> bool) option"

definition the_conn :: "'m loop \<Rightarrow> connection" where
  "the_conn lp = conn (fst (sess (lv lp)))"

definition the_id :: "'m loop \<Rightarrow> int" where
  "the_id lp = c_id (the_conn lp)"

definition on_st :: "(st \<Rightarrow> st) \<Rightarrow> 'm loop \<Rightarrow> 'm loop" where
  "on_st f lp =
     (case sess (lv lp) of (s, h) \<Rightarrow>
        case f (conn s, hw h) of (c, w) \<Rightarrow> lp\<lparr>lv := (lv lp)\<lparr>sess := (s\<lparr>conn := c\<rparr>, h\<lparr>hw := w\<rparr>)\<rparr>\<rparr>)"

definition close_with :: "loop_env \<Rightarrow> string \<Rightarrow> bool \<Rightarrow> 'm loop \<Rightarrow> 'm looped" where
  "close_with env reason lock lp = Some (on_st (on_close (lenv (senv (venv env))) reason lock) lp, [], False)"

definition go_on :: "loop_effect list \<Rightarrow> 'm loop \<Rightarrow> 'm looped" where
  "go_on es lp = Some (lp, es, True)"

definition close_after_send :: "loop_env \<Rightarrow> string option \<Rightarrow> loop_effect \<Rightarrow> 'm loop \<Rightarrow> 'm looped" where
  "close_after_send env err e lp = (case err of Some x \<Rightarrow> close_with env x False lp | None \<Rightarrow> go_on [e] lp)"

section \<open>Events\<close>

text \<open>Bytes of the peer: the time is noted here and in the cell of the session.\<close>

definition note_recv :: "nat \<Rightarrow> 'm loop \<Rightarrow> 'm loop" where
  "note_recv t lp =
     (on_st (\<lambda>(c, w). (c, case session_last_recv_time c of
        None \<Rightarrow> w | Some k \<Rightarrow> w\<lparr>w_reg := (w_reg w)\<lparr>cells := (cells (w_reg w))[k := t]\<rparr>\<rparr>)) lp)\<lparr>last_recv := t\<rparr>"

text \<open>After a message, the loop of a port forwarding session ends unless a delay test is open.\<close>

definition after_message :: "'m loop \<Rightarrow> bool" where
  "after_message lp \<longleftrightarrow> \<not> (port_forward_socket (the_conn lp) \<and> authorized (the_conn lp) \<and> last_test_delay (the_conn lp) = None)"

definition on_received :: "loop_env \<Rightarrow> nat \<Rightarrow> peer_msg \<Rightarrow> 'm loop \<Rightarrow> 'm looped" where
  "on_received env t m lp =
     (let lp = note_recv t lp
      in case receive (venv env) t m (lv lp) of
           None \<Rightarrow> None
         | Some (L, es, keep) \<Rightarrow> let lp = lp\<lparr>lv := L\<rparr> in Some (lp, map L_Input es, keep \<and> after_message lp))"

definition on_received_delay :: "loop_env \<Rightarrow> nat \<Rightarrow> bool \<Rightarrow> 'm loop \<Rightarrow> 'm looped" where
  "on_received_delay env t b lp =
     (let lp = note_recv t lp; (s, h) = sess (lv lp)
      in case on_message (lenv (senv (venv env))) t (M_TestDelay b) (conn s, hw h) of
           (cw, v) \<Rightarrow>
             if v = Panicked then None
             else let lp = on_st (\<lambda>_. cw) lp in Some (lp, [], v = Keep \<and> after_message lp))"

definition on_service_message :: "loop_env \<Rightarrow> nat \<Rightarrow> service_msg \<Rightarrow> string option \<Rightarrow> 'm loop \<Rightarrow> 'm looped" where
  "on_service_message env latency m err lp =
     (let s = fst (sess (lv lp)); env' = lenv (senv (venv env))
      in if latency > 1000 \<and> m = SM_AudioFrame then go_on [] lp
         else case m of
           SM_StopService \<Rightarrow> close_with env ''stop service'' False (on_st (send_close_reason_no_retry []) lp)
         | SM_PeerInfo \<Rightarrow> close_after_send env err (L_Sent m) (lp\<lparr>lv := upd_sess (refresh_video_display None) (lv lp)\<rparr>)
         | SM_CursorPosition x y \<Rightarrow>
             (let follow = (if c_follow_remote_cursor s \<and> \<not> multi_ui_session s
                            then case display_at env x y of Some d \<Rightarrow> if display_idx s \<noteq> d then [L_FollowDisplay d] else [] | None \<Rightarrow> []
                            else [])
              in map_option (\<lambda>(lp, es, keep). (lp, follow @ es, keep)) (close_after_send env err (L_Sent m) lp))
         | SM_MultiClipboards cbs \<Rightarrow>
             (case (if multi_clipboard_ok env (version (lr (conn s))) (my_platform (lr (conn s))) then None else find snd cbs) of
                Some (cb, _) \<Rightarrow> close_after_send env err (L_TextClipboard cb) lp
              | None \<Rightarrow> close_after_send env err (L_Sent m) lp)
         | _ \<Rightarrow> close_after_send env err (L_Sent m) lp)"

definition on_second_tick :: "loop_env \<Rightarrow> nat \<Rightarrow> 'm loop \<Rightarrow> 'm looped" where
  "on_second_tick env t lp =
     (let lp = on_st (\<lambda>(c, w). (c, w\<lparr>w_reg := check_wake_lock_on_setting_changed (keep_awake_now env) (keep_awake_cached env) (w_reg w)\<rparr>)) lp
      in case auto_disconnect_timer (fst (sess (lv lp))) of
           Some (instant, minute) \<Rightarrow>
             if (t - instant) div 1000 > minute * 60
             then close_with env ''auto disconnect'' True (on_st (send_close_reason_no_retry ''Connection failed due to inactivity'') lp)
             else go_on [] lp
         | None \<Rightarrow> go_on [] lp)"

definition on_delay_tick :: "loop_env \<Rightarrow> nat \<Rightarrow> 'm loop \<Rightarrow> 'm looped" where
  "on_delay_tick env t lp =
     (if t - last_recv lp \<ge> SEC30 then close_with env ''Timeout'' True lp
      else
        let c = the_conn lp;
            ask = (last_test_delay c = None \<and> \<not> (port_forward_socket c \<and> authorized c));
            es = (if ask then [L_TestDelay (network_delay c) (bitrate (qos (w_reg (hw (snd (sess (lv lp)))))))] else []);
            lp = (if ask then on_st (\<lambda>(c, w). (c\<lparr>last_test_delay := Some t\<rparr>, w)) lp else lp);
            s = fst (sess (lv lp))
        in case (if is_authed_remote_conn s \<or> view_camera (conn s) then last_test_delay (conn s) else None) of
             None \<Rightarrow> go_on es lp
           | Some t0 \<Rightarrow>
               (case user_delay_response_elapsed t (sid s) (t - t0) (qos (w_reg (hw (snd (sess (lv lp)))))) of
                  None \<Rightarrow> None
                | Some q \<Rightarrow> go_on es (lp\<lparr>lv := upd_sess (\<lambda>(s, h). (s, upd_qos (\<lambda>_. q) h)) (lv lp)\<rparr>)))"

text \<open>A message of the file clipboard for the peer.\<close>

definition handle_file_clip :: "loop_env \<Rightarrow> clipboard_file \<Rightarrow> 'm loop \<Rightarrow> loop_effect list" where
  "handle_file_clip env c lp =
     (let stop = (is_stopping_allowed c \<and> \<not> file_transfer_enabled (fst (sess (lv lp))))
      in if stop then []
         else if is_beginning_message c \<and> one_way_file_transfer (senv (venv env)) then []
         else [L_Clip c])"

definition loop_step :: "loop_env \<Rightarrow> nat \<Rightarrow> loop_event \<Rightarrow> 'm loop \<Rightarrow> 'm looped" where
  "loop_step env t ev lp =
     (let env' = lenv (senv (venv env))
      in case ev of
           CmSession x \<Rightarrow>
             (case x of
                Peer _ \<Rightarrow> go_on [] lp
              | _ \<Rightarrow> map_option (\<lambda>(L, es, keep). (lp\<lparr>lv := L\<rparr>, map L_Input es, keep)) (session_step (venv env) t x (lv lp)))
         | CmClose \<Rightarrow>
             close_with env ''connection manager'' True
               (on_st (send_close_reason_no_retry [] \<circ> (\<lambda>(c, w). (c\<lparr>chat_unanswered := False, file_transferred := False\<rparr>, w))) lp)
         | CmErr e \<Rightarrow> if e \<noteq> ''expected'' then close_with env (''connection manager error: '' @ e) False lp else go_on [] lp
         | CmRawMessage \<Rightarrow> go_on [L_Raw] lp
         | CmPrivacyModeState st k \<Rightarrow> go_on [L_Privacy st k] lp
         | CmSwitchSidesBack \<Rightarrow> go_on (if flutter env' then [L_SwitchBack] else []) lp
         | StreamError e \<Rightarrow> close_with env e True lp
         | StreamEnd \<Rightarrow> close_with env ''Reset by the peer'' True lp
         | Received m \<Rightarrow> on_received env t m lp
         | ReceivedTestDelay b \<Rightarrow> on_received_delay env t b lp
         | ReceivedGarbage \<Rightarrow> go_on [] (note_recv t lp)
         | WebConsole conns \<Rightarrow>
             if the_id lp \<in> set conns
             then close_with env ''web console'' True (on_st (send_close_reason_no_retry ''Closed manually by web console'') lp)
             else go_on [] lp
         | VideoMessage _ frame err \<Rightarrow>
             map_option (\<lambda>(lp, es, keep). (lp, (if \<not> video_ack_required (the_conn lp) \<and> frame \<noteq> None then [L_Notify (the_id lp)] else []) @ es, keep))
               (close_after_send env err L_Video lp)
         | ServiceMessage latency m err \<Rightarrow> on_service_message env latency m err lp
         | SecondTick \<Rightarrow> on_second_tick env t lp
         | DelayTick \<Rightarrow> on_delay_tick env t lp
         | ClipFile c \<Rightarrow>
             go_on (if is_support_file_copy_paste env' (version (lr (the_conn lp))) then handle_file_clip env c lp else []) lp)"

fun loop_run :: "(loop_env \<times> nat \<times> loop_event) list \<Rightarrow> 'm loop \<Rightarrow> ('m loop \<times> loop_effect list \<times> bool) option" where
  "loop_run [] lp = Some (lp, [], True)"
| "loop_run ((env, t, ev) # evs) lp =
     (case loop_step env t ev lp of
        None \<Rightarrow> None
      | Some (lp', es, keep) \<Rightarrow>
          if keep then map_option (\<lambda>(lp, es', k). (lp, es @ es', k)) (loop_run evs lp') else Some (lp', es, False))"

section \<open>The end of a connection\<close>

datatype end_effect = EE_EmptyFileClipboard int | EE_PrivacyOff int | EE_Notify int | EE_Audit | EE_Release "rdev_key set" | EE_JoinTerminal

text \<open>
  After the loop. A port forwarding session then runs its own loop, which ends with an error (\<open>fwd\<close>) or not;
  the modifiers that the connection has recorded are released when it is dropped.
\<close>

definition end_connection :: "loop_env \<Rightarrow> string option \<Rightarrow> 'm loop \<Rightarrow> 'm loop \<times> end_effect list" where
  "end_connection env fwd lp =
     (let env' = lenv (senv (venv env)); i = the_id lp;
          es = [EE_EmptyFileClipboard i] @ (if privacy_conn_id (senv (venv env)) = Some i then [EE_PrivacyOff i] else []) @ [EE_Notify i];
          lp = (if authorized (the_conn lp)
                then on_st (\<lambda>(c, w). (c, w\<lparr>temporary_password := new_temporary_password env' (temporary_password w)\<rparr>)) lp else lp);
          lp = (if port_forward_socket (the_conn lp)
                then let lp = on_st (\<lambda>(c, w). (c\<lparr>port_forward_socket := False\<rparr>, w)) lp
                     in case fwd of
                          None \<Rightarrow> lp
                        | Some e \<Rightarrow> on_st (\<lambda>(c, w). (c, w\<lparr>w_reg := check_remove_session (c_id c) (c_session_key c) (w_reg w)\<rparr>))
                                      (on_st (on_close env' e False) lp)
                else lp);
          lp = lp\<lparr>lv := upd_sess (\<lambda>(s, h). (s, h\<lparr>hub := remove_connection i (hub h)\<rparr>)) (lv lp)\<rparr>;
          lp = on_st (on_close env' ''End'' True) lp;
          (L, ks) = release_pressed_modifiers (lv lp)
      in (lp\<lparr>lv := L\<rparr>, es @ [EE_Audit, EE_Release ks] @ (if terminal_generic_service (fst (sess L)) then [EE_JoinTerminal] else [])))"

section \<open>What the steps leave alone\<close>

text \<open>A change of the connection and the tables that leaves the grants of the session alone.\<close>

definition quiet_on :: "(st \<Rightarrow> st) \<Rightarrow> bool" where
  "quiet_on f \<longleftrightarrow> (\<forall>x. authorized (fst (f x)) = authorized (fst x) \<and> authed_conn_id (fst (f x)) = authed_conn_id (fst x)
     \<and> keyboard (fst (f x)) = keyboard (fst x) \<and> c_id (fst (f x)) = c_id (fst x))"

lemma quiet_close [simp]: "quiet_on (on_close env r b)" "quiet_on (send_close_reason_no_retry r)"
  by (simp_all add: quiet_on_def on_close_frame send_close_reason_no_retry_def case_prod_beta)

lemma quiet_comp [simp]: "quiet_on f \<Longrightarrow> quiet_on g \<Longrightarrow> quiet_on (f \<circ> g)"
  unfolding quiet_on_def comp_def by (simp del: split_paired_All)

lemma on_st_simps [simp]:
  "last_recv (on_st f lp) = last_recv lp" "hub (snd (sess (lv (on_st f lp)))) = hub (snd (sess (lv lp)))"
  "pressed_modifiers (lv (on_st f lp)) = pressed_modifiers (lv lp)"
  "the_conn (on_st f lp) = fst (f (the_conn lp, hw (snd (sess (lv lp)))))"
  "auto_disconnect_timer (fst (sess (lv (on_st f lp)))) = auto_disconnect_timer (fst (sess (lv lp)))"
  by (simp_all add: on_st_def the_conn_def case_prod_beta)

lemma on_st_ok:
  assumes "subs_ok full env (sess (lv lp))" "quiet_on f"
  shows "subs_ok full env (sess (lv (on_st f lp)))"
proof -
  obtain s h where st: "sess (lv lp) = (s, h)" by (meson surj_pair)
  from subs_ok_conn [OF assms(1), of "s\<lparr>conn := fst (f (conn s, hw h))\<rparr>" "h\<lparr>hw := snd (f (conn s, hw h))\<rparr>"] assms(2) show ?thesis
    by (simp add: st on_st_def case_prod_beta grants_defs quiet_on_def)
qed

definition loop_ok :: "bool \<Rightarrow> session_env \<Rightarrow> 'm looped \<Rightarrow> bool" where
  "loop_ok full env r \<longleftrightarrow> (case r of Some (lp, _, _) \<Rightarrow> subs_ok full env (sess (lv lp)) | None \<Rightarrow> True)"

lemma close_ok:
  assumes "subs_ok full env (sess (lv lp))"
  shows "loop_ok full env (close_with e r b lp)" "loop_ok full env (go_on es lp)" "loop_ok full env (close_after_send e err x lp)"
  using assms by (simp_all add: loop_ok_def close_with_def go_on_def close_after_send_def on_st_ok split: option.split)

lemma loop_ok_map [simp]: "loop_ok full env (map_option (\<lambda>(lp, es, keep). (lp, g lp es, keep)) r) = loop_ok full env r"
  by (auto simp: loop_ok_def split: option.split)

lemma quiet_world [simp]: "quiet_on (\<lambda>(c, w). (c, g c w))"
  by (simp add: quiet_on_def case_prod_beta)

lemma note_recv_ok: "subs_ok full env (sess (lv lp)) \<Longrightarrow> subs_ok full env (sess (lv (note_recv t lp)))"
  unfolding note_recv_def by (simp add: on_st_ok)

lemma on_received_ok:
  assumes "subs_ok full (senv (venv env)) (sess (lv lp))"
  shows "loop_ok full (senv (venv env)) (on_received env t m lp)"
proof (cases "receive (venv env) t m (lv (note_recv t lp))")
  case (Some r)
  obtain L es keep where r: "r = (L, es, keep)" by (metis prod_cases3)
  from receive_ok [OF note_recv_ok [OF assms] Some [unfolded r]] Some show ?thesis by (simp add: on_received_def loop_ok_def r Let_def)
qed (simp add: on_received_def loop_ok_def)

lemma test_delay_frame:
  assumes "on_message env t (M_TestDelay b) st = (cw, v)"
  shows "authorized (fst cw) = authorized (fst st)" "authed_conn_id (fst cw) = authed_conn_id (fst st)" "keyboard (fst cw) = keyboard (fst st)"
    "c_id (fst cw) = c_id (fst st)"
proof -
  have "authorized_scope_violation win ty (Some (TestDelay ())) = None" for win and ty
    by (cases ty) (simp_all add: authorized_scope_violation_def authorized_message_scope_violation_def is_connection_housekeeping_message_def then_some_def)
  with assms have "on_test_delay env t b st = (cw, v)" by (auto simp: on_message_def is_login_def as_message_def split: if_splits option.splits)
  then show "authorized (fst cw) = authorized (fst st)" "authed_conn_id (fst cw) = authed_conn_id (fst st)" "keyboard (fst cw) = keyboard (fst st)"
    "c_id (fst cw) = c_id (fst st)"
    by (auto simp: on_test_delay_def Let_def split: prod.splits option.splits if_splits)
qed

lemma on_received_delay_ok:
  assumes "subs_ok full (senv (venv env)) (sess (lv lp))"
  shows "loop_ok full (senv (venv env)) (on_received_delay env t b lp)"
proof -
  let ?lp = "note_recv t lp"
  obtain s h where st: "sess (lv ?lp) = (s, h)" by (meson surj_pair)
  obtain cw v where o: "on_message (lenv (senv (venv env))) t (M_TestDelay b) (conn s, hw h) = (cw, v)" by (meson surj_pair)
  have "subs_ok full (senv (venv env)) (s\<lparr>conn := fst cw\<rparr>, h\<lparr>hw := snd cw\<rparr>)"
    by (rule subs_ok_conn [OF note_recv_ok [OF assms, of t]]) (use test_delay_frame [OF o] in \<open>simp_all add: st grants_defs\<close>)
  then show ?thesis by (simp add: on_received_delay_def st o Let_def loop_ok_def on_st_def case_prod_beta)
qed

lemma on_service_message_ok:
  assumes "subs_ok full env (sess (lv lp))"
  shows "loop_ok full env (on_service_message e latency m err lp)"
proof -
  have "subs_ok full env (sess (lv (lp\<lparr>lv := upd_sess (refresh_video_display None) (lv lp)\<rparr>)))" using refresh_video_display_ok [OF assms] by simp
  note ref = close_ok(3) [OF this]
  have stop: "loop_ok full env (close_with e r b (on_st (send_close_reason_no_retry []) lp))" for r b by (rule close_ok(1)) (simp add: on_st_ok assms)
  show ?thesis using close_ok [OF assms] ref stop
    by (cases m) (simp_all add: on_service_message_def Let_def split: option.split if_split prod.split)
qed

lemma on_second_tick_ok:
  assumes "subs_ok full env (sess (lv lp))"
  shows "loop_ok full env (on_second_tick e t lp)"
proof -
  let ?lp = "on_st (\<lambda>(c, w). (c, w\<lparr>w_reg := check_wake_lock_on_setting_changed (keep_awake_now e) (keep_awake_cached e) (w_reg w)\<rparr>)) lp"
  have ok: "subs_ok full env (sess (lv ?lp))" by (rule on_st_ok [OF assms]) simp
  have stop: "loop_ok full env (close_with e r b (on_st (send_close_reason_no_retry q) ?lp))" for r b q by (rule close_ok(1)) (simp add: on_st_ok ok)
  show ?thesis using close_ok(2) [OF ok] stop unfolding on_second_tick_def Let_def by (simp split: option.split prod.split)
qed

lemma on_delay_tick_ok:
  assumes "subs_ok full env (sess (lv lp))"
  shows "loop_ok full env (on_delay_tick e t lp)"
proof -
  have "quiet_on (\<lambda>(c, w). (c\<lparr>last_test_delay := Some t\<rparr>, w))" by (simp add: quiet_on_def)
  from on_st_ok [OF assms this] have 1: "subs_ok full env (sess (lv (on_st (\<lambda>(c, w). (c\<lparr>last_test_delay := Some t\<rparr>, w)) lp)))" .
  have go: "loop_ok full env (case x of None \<Rightarrow> go_on es lp' | Some t0 \<Rightarrow> (case u t0 of None \<Rightarrow> None
      | Some q \<Rightarrow> go_on es (lp'\<lparr>lv := upd_sess (\<lambda>(s, h). (s, upd_qos (\<lambda>_. q) h)) (lv lp')\<rparr>)))"
    if "subs_ok full env (sess (lv lp'))" for x es u and lp' :: "'a loop"
    using that qos_step_ok [OF that] by (auto simp: loop_ok_def go_on_def split: option.split)
  have 2: "subs_ok full env (sess (lv (if b then on_st (\<lambda>(c, w). (c\<lparr>last_test_delay := Some t\<rparr>, w)) lp else lp)))" for b
    using 1 assms by simp
  show ?thesis
  proof (cases "t - last_recv lp \<ge> SEC30")
    case True
    with close_ok(1) [OF assms] show ?thesis unfolding on_delay_tick_def by simp
  next
    case False
    then show ?thesis unfolding on_delay_tick_def Let_def by (simp only: if_False) (rule go [OF 2])
  qed
qed

lemma loop_step_ok:
  assumes "subs_ok full (senv (venv env)) (sess (lv lp))"
  shows "loop_ok full (senv (venv env)) (loop_step env t ev lp)"
proof -
  let ?e = "senv (venv env)"
  note c = close_ok [OF assms]
  have st: "loop_ok full ?e (close_with env r b (on_st f lp))" if "quiet_on f" for r b f by (rule close_ok(1)) (simp add: on_st_ok assms that)
  have cm: "loop_ok full ?e (map_option (\<lambda>(L, es, keep). (lp\<lparr>lv := L\<rparr>, map L_Input es, keep)) (session_step (venv env) t x (lv lp)))" for x
    using session_step_ok [OF assms] by (auto simp: loop_ok_def split: option.split)
  have seen: "quiet_on (\<lambda>(c, w). (c\<lparr>chat_unanswered := False, file_transferred := False\<rparr>, w))" by (simp add: quiet_on_def)
  have garbage: "loop_ok full ?e (go_on [] (note_recv t lp))" by (rule close_ok(2)) (rule note_recv_ok [OF assms])
  show ?thesis
  proof (cases ev)
    case (CmSession x)
    with c(2) cm show ?thesis by (cases x) (simp_all add: loop_step_def)
  next
    case CmClose
    with st [OF quiet_comp [OF quiet_close(2) seen]] show ?thesis by (simp add: loop_step_def)
  qed (simp_all add: loop_step_def c st garbage on_received_ok [OF assms] on_received_delay_ok [OF assms] on_service_message_ok [OF assms]
      on_second_tick_ok [OF assms] on_delay_tick_ok [OF assms])
qed

lemma loop_run_ok:
  assumes "subs_ok full env (sess (lv lp))" "loop_run evs lp = Some (lp', es, keep)" "\<forall>(e, _, _) \<in> set evs. one_way_clipboard (senv (venv e)) = one_way_clipboard env"
  shows "subs_ok full env (sess (lv lp'))"
  using assms
proof (induction evs lp arbitrary: es rule: loop_run.induct)
  case (2 e t ev evs lp)
  have same: "subs_ok full (senv (venv e)) st = subs_ok full env st" for st :: "'a sst" using "2.prems"(3) by (auto intro!: subs_ok_env)
  obtain lp1 es1 k1 where step: "loop_step e t ev lp = Some (lp1, es1, k1)" using "2.prems"(2) by (auto split: option.splits)
  have "subs_ok full env (sess (lv lp1))" using loop_step_ok [of full e lp t ev] "2.prems"(1) step by (simp add: same loop_ok_def)
  with "2.IH" [OF step refl refl] "2.prems"(2,3) step show ?case by (auto split: if_splits)
qed simp

section \<open>The end leaves nothing\<close>

lemma end_connection_hub: "hub (snd (sess (lv (fst (end_connection env fwd lp))))) = remove_connection (the_id lp) (hub (snd (sess (lv lp))))"
proof -
  have "hub (snd (upd (sess (lv (on_st f lp1))))) = hub (snd (upd (sess (lv lp1))))" if "upd = (\<lambda>(s, h). (s, h\<lparr>hub := remove_connection i (hub h)\<rparr>))"
    for upd i f and lp1 :: "'a loop" by (simp add: that case_prod_beta)
  then show ?thesis by (simp add: end_connection_def release_pressed_modifiers_def Let_def case_prod_beta split: option.split)
qed

text \<open>
  C17. What is left in the server of a connection that ends: after any run of the loop of a session,
  for whatever reason it was left, and the steps after the loop, no service has the connection among
  its subscribers, the server does not list it and it is closed, while the subscriptions of other
  connections are as they were.
\<close>

theorem ended_connection_unsubscribed:
  assumes "fresh (s, h)" "begin_session env t (s, h) = Some st" "loop_run evs \<lparr>lv = start_live st cf, last_recv = t\<rparr> = Some (lp, es, keep)"
    "\<forall>(e, _, _) \<in> set evs. one_way_clipboard (senv (venv e)) = one_way_clipboard env" "end_connection e fwd lp = (lp', ees)"
  shows "(\<forall>j n. sub_of j n (hub (snd (sess (lv lp')))) = (j \<noteq> the_id lp \<and> sub_of j n (hub (snd (sess (lv lp))))))
    \<and> the_id lp \<notin> set (connections (hub (snd (sess (lv lp'))))) \<and> closed (the_conn lp')"
proof -
  have "subs_ok False env (sess (lv lp))"
    by (rule loop_run_ok [OF _ assms(3,4)]) (simp add: start_live_def begin_session_ok(1) [OF assms(1,2)])
  then have inv: "hub_inv (hub (snd (sess (lv lp))))" by (auto simp: subs_ok_def split: prod.splits)
  have lp': "lp' = fst (end_connection e fwd lp)" using assms(5) by simp
  have hub: "hub (snd (sess (lv lp'))) = remove_connection (the_id lp) (hub (snd (sess (lv lp))))" unfolding lp' by (rule end_connection_hub)
  have "closed (fst (on_close x r b y))" for x r b y by (cases y) (simp add: on_close_def)
  then have "closed (the_conn lp')" unfolding lp' by (simp add: end_connection_def release_pressed_modifiers_def Let_def the_conn_def on_st_def case_prod_beta)
  moreover have "the_id lp \<notin> set (connections (hub (snd (sess (lv lp')))))" unfolding hub by (simp add: ServerHub.remove_connection_def)
  ultimately show ?thesis unfolding hub using remove_connection_ok(3) [OF inv] by blast
qed

section \<open>Silence and inactivity\<close>

definition receives :: "loop_event \<Rightarrow> bool" where
  "receives ev = (case ev of Received _ \<Rightarrow> True | ReceivedTestDelay _ \<Rightarrow> True | ReceivedGarbage \<Rightarrow> True | _ \<Rightarrow> False)"

lemma send_last_recv: "close_after_send env err x lp = Some (lp', es, keep) \<Longrightarrow> last_recv lp' = last_recv lp"
  "close_with env r b lp = Some (lp', es, keep) \<Longrightarrow> last_recv lp' = last_recv lp" "go_on es' lp = Some (lp', es, keep) \<Longrightarrow> last_recv lp' = last_recv lp"
  by (auto simp: close_after_send_def close_with_def go_on_def split: option.splits)

lemma step_last_recv:
  assumes "loop_step env t ev lp = Some (lp', es, keep)" "\<not> receives ev"
  shows "last_recv lp' = last_recv lp"
proof (cases ev)
  case (ServiceMessage latency m err)
  with assms(1) show ?thesis
    by (cases m) (auto simp: loop_step_def on_service_message_def Let_def dest!: send_last_recv split: if_splits option.splits)
next
  case SecondTick
  with assms(1) show ?thesis by (auto simp: loop_step_def on_second_tick_def Let_def dest!: send_last_recv split: if_splits option.splits)
next
  case DelayTick
  with assms(1) show ?thesis by (auto simp: loop_step_def on_delay_tick_def Let_def dest!: send_last_recv split: if_splits option.splits)
next
  case (CmSession x)
  with assms(1) show ?thesis by (auto simp: loop_step_def dest!: send_last_recv split: session_event.splits)
qed (use assms in \<open>auto simp: loop_step_def receives_def Let_def dest!: send_last_recv split: if_splits\<close>)

text \<open>
  C28. A peer that falls silent is dropped: when nothing arrives from it, the loop has ended at the latest
  with the first delay tick that is thirty seconds after the last message, whatever else happens.
\<close>

theorem silent_peer_is_dropped:
  assumes "loop_run evs lp = Some (lp', es, keep)" "list_all (\<lambda>(_, _, ev). \<not> receives ev) evs" "(env, t, DelayTick) \<in> set evs" "last_recv lp + SEC30 \<le> t"
  shows "\<not> keep"
  using assms
proof (induction evs lp arbitrary: es rule: loop_run.induct)
  case (2 e t1 ev evs lp)
  obtain lp1 es1 k1 where step: "loop_step e t1 ev lp = Some (lp1, es1, k1)" using "2.prems"(1) by (auto split: option.splits)
  have r: "last_recv lp1 = last_recv lp" using step_last_recv [OF step] "2.prems"(2) by simp
  show ?case
  proof (cases "k1")
    case True
    have "t - last_recv lp \<ge> SEC30" using "2.prems"(4) by linarith
    then have "loop_step env t DelayTick lp = close_with env ''Timeout'' True lp" by (simp add: loop_step_def on_delay_tick_def)
    with step True have "(env, t, DelayTick) \<noteq> (e, t1, ev)" by (auto simp: close_with_def)
    with "2.prems"(3) have "(env, t, DelayTick) \<in> set evs" by auto
    with "2.IH" [OF step refl refl True] "2.prems" step r True show ?thesis by auto
  qed (use step "2.prems"(1) in simp)
qed simp

text \<open>Messages that count as activity.\<close>

definition activity :: "peer_msg \<Rightarrow> bool" where
  "activity m = (case m of PM_Mouse _ \<Rightarrow> True | PM_Pointer \<Rightarrow> True | PM_Key _ \<Rightarrow> True | PM_Chat _ \<Rightarrow> True | PM_RefreshVideo _ \<Rightarrow> True
      | PM_RefreshVideoDisplay _ \<Rightarrow> True | _ \<Rightarrow> False)"

lemma activity_touches:
  assumes "activity m" "authed_conn_id (conn (fst (sess L))) = Some Remote" "auto_disconnect_timer (fst (sess L)) = Some (t1, k)"
    "handle_message env t m L = Some (L', es, keep)"
  shows "auto_disconnect_timer (fst (sess L')) = Some (t, k)"
proof -
  have touch: "auto_disconnect_timer (fst (sess (touch t L1))) = map_option (\<lambda>(_, m). (t, m)) (auto_disconnect_timer (fst (sess L1)))" for L1 :: "'a live"
    by (simp add: touch_def update_auto_disconnect_timer_def)
  show ?thesis
    using assms
    by (cases m) (auto simp: activity_def handle_message_def on_mouse_event_def on_pointer_event_def on_key_event_def is_authed_view_camera_conn_def
        should_handle_render_broadcast_message_def refresh_video_display_def touch Let_def case_prod_beta split: if_splits option.splits)
qed

text \<open>
  The limit for inactivity counts from the last activity: when a remote desktop session has the limit
  of some minutes and its peer was active at a time, the next tick of the second timer ends the
  connection exactly when more than these minutes have passed since then.
\<close>

theorem inactivity_counts_from_activity:
  assumes "authorized (the_conn lp)" "authed_conn_id (the_conn lp) = Some Remote" "\<not> port_forward_socket (the_conn lp)" "activity m"
    "auto_disconnect_timer (fst (sess (lv lp))) = Some (t0, k)" "loop_step env t (Received m) lp = Some (lp1, es, keep)"
    "loop_step env' t' SecondTick lp1 = Some (lp2, es', keep')"
  shows "keep' \<longleftrightarrow> (t' - t) div 1000 \<le> k * 60"
proof -
  let ?lp = "note_recv t lp"
  obtain s h where st: "sess (lv ?lp) = (s, h)" by (meson surj_pair)
  have c: "conn s = the_conn lp" using st by (auto simp: note_recv_def on_st_def the_conn_def case_prod_beta)
  have "wire m \<noteq> None \<Longrightarrow> authorized_scope_violation b (Some Remote) (wire m) = None" for b
    by (simp add: authorized_scope_violation_def authorized_message_scope_violation_def then_some_def Let_def)
  moreover have "wire m \<noteq> None" by (cases m) (simp_all add: wire_def)
  ultimately have "on_message (lenv (senv (venv env))) t (M_Other (wire m)) (conn s, hw h) = ((conn s, hw h), Dispatch)"
    using assms(1-3) by (simp add: on_message_def as_message_def is_login_def c)
  moreover have "(lv ?lp)\<lparr>sess := ((fst (sess (lv ?lp)))\<lparr>conn := conn s\<rparr>, (snd (sess (lv ?lp)))\<lparr>hw := hw h\<rparr>)\<rparr> = lv ?lp" using st by simp
  ultimately have "receive (venv env) t m (lv ?lp) = handle_message (venv env) t m (lv ?lp)" unfolding receive_def Let_def
    by (simp only: st fst_conv snd_conv prod.case if_True refl)
  with assms(6) obtain L es1 k1 where h: "handle_message (venv env) t m (lv ?lp) = Some (L, es1, k1)" "lv lp1 = L"
    by (auto simp: loop_step_def on_received_def Let_def split: option.splits)
  have "auto_disconnect_timer (fst (sess (lv ?lp))) = Some (t0, k)" using assms(5) by (simp add: note_recv_def)
  from activity_touches [OF assms(4) _ this h(1)] have "auto_disconnect_timer (fst (sess (lv lp1))) = Some (t, k)"
    using assms(2) by (simp add: h(2) st c)
  with assms(7) show ?thesis by (auto simp: loop_step_def on_second_tick_def Let_def close_with_def go_on_def split: if_splits)
qed

section \<open>Witnesses\<close>

definition demo_loop_env :: loop_env where
  "demo_loop_env = \<lparr>venv = demo_live_env, keep_awake_now = True, keep_awake_cached = Some True, display_at = (\<lambda>_ _. None), multi_clipboard_ok = (\<lambda>_ _. True)\<rparr>"

definition demo_loop :: "unit loop" where
  "demo_loop = \<lparr>lv = start_live (the (begin_session (demo_env\<lparr>auto_disconnect := Some None\<rparr>) 1 (demo_conn Remote, demo_host))) two_cf, last_recv = 1\<rparr>"

theorem ended_connection_unsubscribed_witness:
  "\<not> sub_of 1 NAME_CLIPBOARD (hub (snd (sess (lv (fst (end_connection demo_loop_env None (fst (the (loop_run [(demo_loop_env, 2, StreamEnd)] demo_loop)))))))))"
proof -
  let ?env = "demo_env\<lparr>auto_disconnect := Some None\<rparr>"
  have "begin_session ?env 1 (demo_conn Remote, demo_host) \<noteq> None" by code_simp
  then obtain st where st: "begin_session ?env 1 (demo_conn Remote, demo_host) = Some st" by auto
  then have lp: "demo_loop = \<lparr>lv = start_live st two_cf, last_recv = 1\<rparr>" by (simp add: demo_loop_def)
  have "loop_run [(demo_loop_env, 2, StreamEnd)] demo_loop \<noteq> None" by (simp add: loop_step_def close_with_def)
  then obtain lq es keep where r: "loop_run [(demo_loop_env, 2, StreamEnd)] demo_loop = Some (lq, es, keep)" by auto
  obtain l2 ees where e: "end_connection demo_loop_env None lq = (l2, ees)" by (meson surj_pair)
  have "the_id (fst (the (loop_run [(demo_loop_env, 2, StreamEnd)] demo_loop))) = 1" by code_simp
  then have "the_id lq = 1" by (simp only: r option.sel fst_conv)
  moreover have "\<forall>(e, _, _) \<in> set [(demo_loop_env, 2 :: nat, StreamEnd)]. one_way_clipboard (senv (venv e)) = one_way_clipboard ?env"
    by (simp add: demo_loop_env_def demo_live_env_def)
  ultimately show ?thesis
    using ended_connection_unsubscribed [OF demo_fresh(1) st r [unfolded lp] _ e] by (simp only: r e option.sel fst_conv) simp
qed

theorem silent_peer_is_dropped_witness: "\<not> snd (snd (the (loop_run [(demo_loop_env, 30001, DelayTick), (demo_loop_env, 30002, SecondTick)] demo_loop)))"
proof -
  let ?evs = "[(demo_loop_env, 30001, DelayTick), (demo_loop_env, 30002, SecondTick)]"
  have "loop_step demo_loop_env 30001 DelayTick demo_loop \<noteq> None" by (simp add: loop_step_def on_delay_tick_def demo_loop_def SEC30_def close_with_def)
  then have "loop_run ?evs demo_loop \<noteq> None" by (auto simp: loop_step_def on_second_tick_def Let_def close_with_def go_on_def split: option.split)
  then obtain lq es keep where r: "loop_run ?evs demo_loop = Some (lq, es, keep)" by auto
  have "\<not> keep" by (rule silent_peer_is_dropped [OF r, of demo_loop_env 30001]) (simp_all add: receives_def demo_loop_def SEC30_def)
  then show ?thesis by (simp only: r option.sel snd_conv not_False_eq_True)
qed

theorem inactivity_counts_from_activity_witness:
  "\<not> snd (snd (the (loop_step demo_loop_env 700000 SecondTick (fst (the (loop_step demo_loop_env 5 (Received (PM_Mouse 0)) demo_loop))))))"
proof -
  have "loop_step demo_loop_env 5 (Received (PM_Mouse 0)) demo_loop \<noteq> None" by code_simp
  then obtain l1 e1 k1 where a: "loop_step demo_loop_env 5 (Received (PM_Mouse 0)) demo_loop = Some (l1, e1, k1)" by auto
  have "loop_step demo_loop_env 700000 SecondTick (fst (the (loop_step demo_loop_env 5 (Received (PM_Mouse 0)) demo_loop))) \<noteq> None"
    by (auto simp: loop_step_def on_second_tick_def Let_def close_with_def go_on_def split: option.split)
  then obtain l2 e2 k2 where b: "loop_step demo_loop_env 700000 SecondTick l1 = Some (l2, e2, k2)" by (auto simp: a)
  have "authorized (the_conn demo_loop)" "authed_conn_id (the_conn demo_loop) = Some Remote" "\<not> port_forward_socket (the_conn demo_loop)"
    "auto_disconnect_timer (fst (sess (lv demo_loop))) = Some (1, 10)" by code_simp+
  from inactivity_counts_from_activity [OF this(1-3) _ this(4) a b] have "k2 \<longleftrightarrow> (700000 - 5) div 1000 \<le> 10 * (60 :: nat)" by (simp add: activity_def)
  then show ?thesis by (simp add: a b)
qed

end
