(* ===== verification/ConnThreads.thy ===== *)
theory ConnThreads
  imports ConnRegistry "HOL-Library.Sublist"
begin

text \<open>
  Authorizing and dropping a connection (\<open>AuthedConnID\<close> in \<open>src/server/connection.rs\<close>) touch the table of
  authorized connections, the video quality controller and the wake lock thread, each under a lock of
  its own. Here the two operations are the lists of their locked actions, and the actions of any
  number of connections are interleaved with each other and with the other users of the quality
  controller. The theorems say how the tables agree in every interleaving, and that the count the
  wake lock thread is left with may be out of date.
\<close>

section \<open>Actions between locks\<close>

datatype reg_action =
    PushConn authed_conn
  | RetainConn int
  | ReadAll
  | ReadRemote
  | SendCounts
  | LastGone
  | QosOpen nat string int
  | QosClose nat int
  | Emit reg_effect

text \<open>One action, with the two counts that the thread has read so far.\<close>

definition exec :: "reg_action \<Rightarrow> (nat \<times> nat) \<times> registry \<Rightarrow> (nat \<times> nat) \<times> registry" where
  "exec a st =
     (let (v, r) = st
      in case a of
           PushConn c \<Rightarrow> (v, r\<lparr>authed_conns := authed_conns r @ [c]\<rparr>)
         | RetainConn i \<Rightarrow> (v, r\<lparr>authed_conns := filter (\<lambda>c. conn_id c \<noteq> i) (authed_conns r)\<rparr>)
         | ReadAll \<Rightarrow> ((length (authed_conns r), snd v), r)
         | ReadRemote \<Rightarrow> ((fst v, remote_count r), r)
         | SendCounts \<Rightarrow> (v, emit [WakeLockCounts (fst v) (snd v)] r)
         | LastGone \<Rightarrow> (v, if snd v = 0 then emit [LastRemoteGone] r else r)
         | QosOpen now abr i \<Rightarrow> (v, r\<lparr>qos := on_connection_open now abr i (qos r)\<rparr>)
         | QosClose now i \<Rightarrow> (v, r\<lparr>qos := on_connection_close now i (qos r)\<rparr>)
         | Emit e \<Rightarrow> (v, emit [e] r))"

definition wake_actions :: "reg_action list" where
  "wake_actions = [ReadAll, ReadRemote, SendCounts]"

definition new_actions :: "nat \<Rightarrow> string \<Rightarrow> int \<Rightarrow> auth_conn_type \<Rightarrow> session_key \<Rightarrow> bool \<Rightarrow> reg_action list" where
  "new_actions now abr i t key can_print =
     [PushConn \<lparr>conn_id = i, conn_type = t, conn_key = key, printer = (t = Remote \<and> can_print)\<rparr>]
     @ wake_actions @ (if uses_video t then [QosOpen now abr i] else [])"

definition drop_actions :: "nat \<Rightarrow> int \<Rightarrow> auth_conn_type \<Rightarrow> reg_action list" where
  "drop_actions now i t =
     (if uses_video t then [Emit (EncoderRemove i), QosClose now i] else [])
     @ [Emit (ClearRelativeMouse i), RetainConn i, ReadRemote, LastGone] @ wake_actions @ [Emit (UnregisterWhiteboard i)]"

text \<open>Without interruption they are the operations of the registry.\<close>

lemma exec_simps [simp]:
  "exec (PushConn c) (v, r) = (v, r\<lparr>authed_conns := authed_conns r @ [c]\<rparr>)"
  "exec (RetainConn i) (v, r) = (v, r\<lparr>authed_conns := filter (\<lambda>c. conn_id c \<noteq> i) (authed_conns r)\<rparr>)"
  "exec ReadAll (v, r) = ((length (authed_conns r), snd v), r)" "exec ReadRemote (v, r) = ((fst v, remote_count r), r)"
  "exec SendCounts (v, r) = (v, emit [WakeLockCounts (fst v) (snd v)] r)" "exec LastGone (v, r) = (v, if snd v = 0 then emit [LastRemoteGone] r else r)"
  "exec (QosOpen now abr i) (v, r) = (v, r\<lparr>qos := on_connection_open now abr i (qos r)\<rparr>)"
  "exec (QosClose now i) (v, r) = (v, r\<lparr>qos := on_connection_close now i (qos r)\<rparr>)" "exec (Emit e) (v, r) = (v, emit [e] r)"
  by (simp_all add: exec_def)

lemma emit_fields [simp]:
  "authed_conns (emit es r) = authed_conns r" "qos (emit es r) = qos r" "effects (emit es r) = effects r @ es" "remote_count (emit es r) = remote_count r"
  by (simp_all add: emit_def remote_count_def)

lemma new_actions_run: "snd (fold exec (new_actions now abr i t key p) (v, r)) = authed_conn_id_new now abr i t key p r"
  by (simp add: new_actions_def wake_actions_def authed_conn_id_new_def check_wake_lock_def Let_def)

lemma drop_actions_run: "snd (fold exec (drop_actions now i t) (v, r)) = authed_conn_id_drop now i t r"
  by (simp add: drop_actions_def wake_actions_def authed_conn_id_drop_def check_wake_lock_def Let_def emit_def)

section \<open>Threads\<close>

datatype reg_job = Opening int auth_conn_type | Closing int auth_conn_type | Setting

type_synonym reg_thread = "reg_job \<times> reg_action list \<times> (nat \<times> nat)"

text \<open>
  The tables, the operations under way, the guards that are held (\<open>AuthedConnID\<close> values), and the
  numbers given to connections so far.
\<close>

record reg_sys =
  tables :: registry
  threads :: "reg_thread list"
  guards :: "(int \<times> auth_conn_type) list"
  issued :: "int set"

definition sys_init :: "nat \<Rightarrow> reg_sys" where
  "sys_init now = \<lparr>tables = empty_registry now, threads = [], guards = [], issued = {}\<rparr>"

text \<open>The operations on the other tables, which leave these alone.\<close>

inductive table_step :: "registry \<Rightarrow> registry \<Rightarrow> bool" where
  conn_new: "table_step r (connection_id_new i r)"
| conn_drop: "table_step r (connection_id_drop i r)"
| session_remove: "table_step r (check_remove_session i key r)"
| session_update: "table_step r (update_or_insert_session now key p b r)"
| session_2fa: "table_step r (set_session_2fa now key r)"
| session_retain: "table_step r (retain_recent now r)"
| session_touch: "session_cell key r = Some a \<Longrightarrow> table_step r (touch_cell now a r)"
| permissions_new: "table_step r (control_permissions_id_new i cp r)"
| permissions_drop: "table_step r (control_permissions_id_drop i cp r)"

definition opens_or_closes :: "qos_op \<Rightarrow> bool" where
  "opens_or_closes x = (case x of Open _ _ _ \<Rightarrow> True | Close _ _ \<Rightarrow> True | _ \<Rightarrow> False)"

text \<open>
  The server numbers connections with a counter, so that an authorization has a number that was not
  given before. A guard is dropped with the type it was made with, once, after it was made.
\<close>

inductive sys_step :: "reg_sys \<Rightarrow> reg_sys \<Rightarrow> bool" where
  authorize: "i \<notin> issued S \<Longrightarrow>
    sys_step S (S\<lparr>threads := threads S @ [(Opening i t, new_actions now abr i t key p, 0, 0)], issued := insert i (issued S)\<rparr>)"
| advance: "threads S = xs @ (j, a # as, v) # ys \<Longrightarrow> exec a (v, tables S) = (v', r') \<Longrightarrow>
    sys_step S (S\<lparr>tables := r', threads := xs @ (j, as, v') # ys\<rparr>)"
| finish: "threads S = xs @ (j, [], v) # ys \<Longrightarrow>
    sys_step S (S\<lparr>threads := xs @ ys, guards := guards S @ (case j of Opening i t \<Rightarrow> [(i, t)] | _ \<Rightarrow> [])\<rparr>)"
| drop_guard: "guards S = xs @ (i, t) # ys \<Longrightarrow>
    sys_step S (S\<lparr>guards := xs @ ys, threads := threads S @ [(Closing i t, drop_actions now i t, 0, 0)]\<rparr>)"
| setting_changed: "sys_step S (S\<lparr>threads := threads S @ [(Setting, wake_actions, 0, 0)]\<rparr>)"
| quality: "qos_apply linux x (qos (tables S)) = Some q \<Longrightarrow> \<not> opens_or_closes x \<Longrightarrow> sys_step S (S\<lparr>tables := (tables S)\<lparr>qos := q\<rparr>\<rparr>)"
| other: "table_step (tables S) r \<Longrightarrow> sys_step S (S\<lparr>tables := r\<rparr>)"

inductive sys_reachable :: "reg_sys \<Rightarrow> bool" where
  sys_start: "sys_reachable (sys_init now)"
| sys_next: "sys_reachable S \<Longrightarrow> sys_step S S' \<Longrightarrow> sys_reachable S'"

section \<open>The interface to the quality controller\<close>

text \<open>
  What the registry needs of a component it tells of arriving and leaving users: the set of users it
  knows follows the two notifications, and nothing else changes it.
\<close>

locale user_observer =
  fixes known :: "'q \<Rightarrow> int set"
    and opened :: "nat \<Rightarrow> string \<Rightarrow> int \<Rightarrow> 'q \<Rightarrow> 'q"
    and closed :: "nat \<Rightarrow> int \<Rightarrow> 'q \<Rightarrow> 'q"
    and others :: "'q \<Rightarrow> 'q \<Rightarrow> bool"
  assumes known_opened: "known (opened now abr i q) = insert i (known q)"
    and known_closed: "known (closed now i q) = known q - {i}"
    and known_others: "others q q' \<Longrightarrow> known q' = known q"
begin

lemma open_close: "i \<notin> known q \<Longrightarrow> known (closed now' i (opened now abr i q)) = known q"
  by (simp add: known_opened known_closed)

lemma known_kept: "others\<^sup>*\<^sup>* q q' \<Longrightarrow> known q' = known q"
  by (induction rule: rtranclp_induct) (simp_all add: known_others)

end

definition qos_users :: "video_qos \<Rightarrow> int set" where
  "qos_users q = fst ` set (q_users q)"

definition qos_other :: "video_qos \<Rightarrow> video_qos \<Rightarrow> bool" where
  "qos_other q q' \<longleftrightarrow> (\<exists>linux x. \<not> opens_or_closes x \<and> qos_apply linux x q = Some q')"

lemma keys_update: "fst ` set (AList.update k v m) = insert k (fst ` set m)"
  by (induction m) auto

lemma keys_modify: "map fst (modify_entry k f m) = map fst m"
  by (induction m) (auto simp: modify_entry_def)

lemma adjust_users: "adjust_fps now q = Some q' \<Longrightarrow> q_users q' = q_users q" "adjust_ratio now b q = Some q' \<Longrightarrow> q_users q' = q_users q"
  by (auto simp: adjust_fps_def adjust_ratio_def Let_def bind_eq_Some_conv split: if_splits option.splits)

lemma ratio_users: "ratio q = Some (q', x) \<Longrightarrow> q_users q' = q_users q"
  by (auto simp: ratio_def Let_def bind_eq_Some_conv split: if_splits)

lemma delay_users:
  assumes "user_network_delay linux now i d q = Some q'"
  shows "map fst (q_users q') = map fst (q_users q)"
proof -
  obtain lo hi where "fps_limits (quality_ratio (latest_quality q)) = (lo, hi)" by (meson surj_pair)
  with assms show ?thesis
    by (auto simp: user_network_delay_def keys_modify Let_def bind_eq_Some_conv dest!: adjust_users split: if_splits option.splits)
qed

lemma qos_other_users:
  assumes "qos_other q q'"
  shows "qos_users q' = qos_users q"
proof -
  obtain linux x where x: "\<not> opens_or_closes x" "qos_apply linux x q = Some q'" using assms by (auto simp: qos_other_def)
  then have "map fst (q_users q') = map fst (q_users q)"
    by (cases x) (auto simp: opens_or_closes_def store_bitrate_def set_support_changing_quality_def user_custom_fps_def user_auto_adjust_fps_def
        user_image_quality_def user_record_def user_delay_response_elapsed_def new_display_def remove_display_def update_display_data_def
        keys_modify Let_def bind_eq_Some_conv dest!: adjust_users ratio_users dest: delay_users split: if_splits option.splits prod.splits)
  then show ?thesis unfolding qos_users_def by (metis list.set_map)
qed

interpretation qos_observer: user_observer qos_users on_connection_open on_connection_close qos_other
proof
  fix now abr i q
  show "qos_users (on_connection_open now abr i q) = insert i (qos_users q)"
    unfolding qos_users_def on_connection_open_def by (simp add: keys_update)
  show "qos_users (on_connection_close now i q) = qos_users q - {i}"
    by (auto simp: qos_users_def on_connection_close_def Let_def default_qos_def AList.delete_eq filter_empty_conv)
qed (rule qos_other_users)

section \<open>The invariant\<close>

definition conn_table :: "registry \<Rightarrow> (int \<times> auth_conn_type) set" where
  "conn_table r = (\<lambda>c. (conn_id c, conn_type c)) ` set (authed_conns r)"

text \<open>
  How far the operation on a connection has come: whether it is in the table and whether it is a user
  of the quality controller. A guard that is held belongs to a connection that is both, if it has video.
\<close>

definition listed :: "reg_job \<Rightarrow> reg_action list \<Rightarrow> bool" where
  "listed j as = (case j of
      Opening _ _ \<Rightarrow> \<not> list_ex (\<lambda>a. case a of PushConn _ \<Rightarrow> True | _ \<Rightarrow> False) as
    | Closing _ _ \<Rightarrow> list_ex (\<lambda>a. case a of RetainConn _ \<Rightarrow> True | _ \<Rightarrow> False) as
    | Setting \<Rightarrow> False)"

definition watched :: "reg_job \<Rightarrow> reg_action list \<Rightarrow> bool" where
  "watched j as = (case j of
      Opening _ t \<Rightarrow> uses_video t \<and> \<not> list_ex (\<lambda>a. case a of QosOpen _ _ _ \<Rightarrow> True | _ \<Rightarrow> False) as
    | Closing _ _ \<Rightarrow> list_ex (\<lambda>a. case a of QosClose _ _ \<Rightarrow> True | _ \<Rightarrow> False) as
    | Setting \<Rightarrow> False)"

definition thread_owner :: "reg_thread \<Rightarrow> (int \<times> auth_conn_type \<times> bool \<times> bool) list" where
  "thread_owner th = (case th of
      (Opening i t, as, _) \<Rightarrow> [(i, t, listed (Opening i t) as, watched (Opening i t) as)]
    | (Closing i t, as, _) \<Rightarrow> [(i, t, listed (Closing i t) as, watched (Closing i t) as)]
    | (Setting, _) \<Rightarrow> [])"

definition owners :: "reg_sys \<Rightarrow> (int \<times> auth_conn_type \<times> bool \<times> bool) list" where
  "owners S = concat (map thread_owner (threads S)) @ map (\<lambda>(i, t). (i, t, True, uses_video t)) (guards S)"

definition in_program :: "reg_thread \<Rightarrow> bool" where
  "in_program th = (case th of
      (Opening i t, as, _) \<Rightarrow> \<exists>now abr key p. suffix as (new_actions now abr i t key p)
    | (Closing i t, as, _) \<Rightarrow> \<exists>now. suffix as (drop_actions now i t)
    | (Setting, as, _) \<Rightarrow> suffix as wake_actions)"

fun table_of :: "(int \<times> auth_conn_type \<times> bool \<times> bool) list \<Rightarrow> (int \<times> auth_conn_type) set" where
  "table_of [] = {}"
| "table_of ((i, t, l, u) # os) = (if l then {(i, t)} else {}) \<union> table_of os"

fun users_of :: "(int \<times> auth_conn_type \<times> bool \<times> bool) list \<Rightarrow> int set" where
  "users_of [] = {}"
| "users_of ((i, t, l, u) # os) = (if u then {i} else {}) \<union> users_of os"

definition sys_inv :: "reg_sys \<Rightarrow> bool" where
  "sys_inv S \<longleftrightarrow> list_all in_program (threads S) \<and> distinct (map fst (owners S)) \<and> fst ` set (owners S) \<subseteq> issued S
     \<and> list_all (\<lambda>(i, t, l, u). u \<longrightarrow> l \<and> uses_video t) (owners S)
     \<and> conn_table (tables S) = table_of (owners S) \<and> qos_users (qos (tables S)) = users_of (owners S)"

lemma owners_append [simp]:
  "table_of (os @ os') = table_of os \<union> table_of os'" "users_of (os @ os') = users_of os \<union> users_of os'"
  by (induction os rule: table_of.induct; simp) (induction os rule: users_of.induct; simp)

lemma owner_ids: "fst ` table_of os \<subseteq> fst ` set os" "users_of os \<subseteq> fst ` set os"
  by (induction os rule: table_of.induct) auto

lemma video_users: "list_all (\<lambda>(i, t, l, u). u \<longrightarrow> l \<and> uses_video t) os \<Longrightarrow> users_of os \<subseteq> fst ` {p \<in> table_of os. uses_video (snd p)}"
proof (induction os rule: table_of.induct)
  case (2 i t l u os)
  have "fst ` {p \<in> table_of os. uses_video (snd p)} \<subseteq> fst ` {p \<in> table_of ((i, t, l, u) # os). uses_video (snd p)}" by auto
  moreover have "u \<Longrightarrow> i \<in> fst ` {p \<in> table_of ((i, t, l, u) # os). uses_video (snd p)}" using "2.prems" by (simp add: image_iff) metis
  ultimately show ?case using 2 by (cases u) auto
qed simp

text \<open>The effect of the next action of an operation on the entry of its connection.\<close>

definition neutral :: "reg_action \<Rightarrow> bool" where
  "neutral a = (case a of PushConn _ \<Rightarrow> False | RetainConn _ \<Rightarrow> False | QosOpen _ _ _ \<Rightarrow> False | QosClose _ _ \<Rightarrow> False | _ \<Rightarrow> True)"

lemma neutral_exec: "neutral a \<Longrightarrow> exec a (v, r) = (v', r') \<Longrightarrow> conn_table r' = conn_table r \<and> qos_users (qos r') = qos_users (qos r)"
  by (cases a) (auto simp: neutral_def conn_table_def split: if_splits)

lemmas program_defs = new_actions_def drop_actions_def wake_actions_def listed_def watched_def neutral_def

lemma opening_cases:
  assumes "suffix (a # as) (new_actions now abr i t key p)"
  obtains (same) "neutral a" "listed (Opening i t) as = listed (Opening i t) (a # as)" "watched (Opening i t) as = watched (Opening i t) (a # as)"
      "watched (Opening i t) as \<longrightarrow> listed (Opening i t) as \<and> uses_video t"
  | (push) c where "a = PushConn c" "conn_id c = i" "conn_type c = t" "\<not> listed (Opening i t) (a # as)" "listed (Opening i t) as"
      "\<not> watched (Opening i t) (a # as)" "\<not> watched (Opening i t) as"
  | (qos) "a = QosOpen now abr i" "listed (Opening i t) (a # as)" "listed (Opening i t) as" "watched (Opening i t) as" "uses_video t"
proof -
  obtain zs where zs: "new_actions now abr i t key p = zs @ a # as" using assms by (auto simp: suffix_def)
  show ?thesis
  proof (cases "uses_video t")
    case True
    with zs have "a # as \<in> set [new_actions now abr i t key p, wake_actions @ [QosOpen now abr i], [ReadRemote, SendCounts, QosOpen now abr i], [SendCounts, QosOpen now abr i], [QosOpen now abr i]]"
      by (simp add: new_actions_def wake_actions_def Cons_eq_append_conv) (elim disjE exE conjE; simp)
    with True same push qos show ?thesis by (simp add: program_defs) (elim disjE; simp)
  next
    case False
    with zs have "a # as \<in> set [new_actions now abr i t key p, wake_actions, [ReadRemote, SendCounts], [SendCounts]]"
      by (simp add: new_actions_def wake_actions_def Cons_eq_append_conv) (elim disjE exE conjE; simp)
    with False same push show ?thesis by (simp add: program_defs) (elim disjE; simp)
  qed
qed

lemma closing_cases:
  assumes "suffix (a # as) (drop_actions now i t)"
  obtains (same) "neutral a" "listed (Closing i t) as = listed (Closing i t) (a # as)" "watched (Closing i t) as = watched (Closing i t) (a # as)"
      "watched (Closing i t) as \<longrightarrow> listed (Closing i t) as \<and> uses_video t"
  | (qos) "a = QosClose now i" "listed (Closing i t) (a # as)" "listed (Closing i t) as" "\<not> watched (Closing i t) as"
  | (retain) "a = RetainConn i" "\<not> listed (Closing i t) as" "\<not> watched (Closing i t) (a # as)" "\<not> watched (Closing i t) as"
proof -
  obtain zs where zs: "drop_actions now i t = zs @ a # as" using assms by (auto simp: suffix_def)
  show ?thesis
  proof (cases "uses_video t")
    case True
    with zs same qos retain show ?thesis by (auto simp: program_defs Cons_eq_append_conv)
  next
    case False
    with zs same retain show ?thesis by (auto simp: program_defs Cons_eq_append_conv)
  qed
qed

definition entry_at :: "(int \<times> auth_conn_type) set \<Rightarrow> int set \<Rightarrow> int \<Rightarrow> auth_conn_type \<Rightarrow> bool \<Rightarrow> bool \<Rightarrow> registry \<Rightarrow> bool" where
  "entry_at T U i t l u r \<longleftrightarrow> conn_table r = T \<union> (if l then {(i, t)} else {}) \<and> qos_users (qos r) = U \<union> (if u then {i} else {})"

lemma opening_action:
  assumes "suffix (a # as) (new_actions now abr i t key p)" "exec a (v, r) = (v', r')" "entry_at T U i t (listed (Opening i t) (a # as)) (watched (Opening i t) (a # as)) r"
  shows "entry_at T U i t (listed (Opening i t) as) (watched (Opening i t) as) r' \<and> (watched (Opening i t) as \<longrightarrow> listed (Opening i t) as \<and> uses_video t)"
  using assms(1)
proof (cases rule: opening_cases)
  case same
  with neutral_exec [OF same(1) assms(2)] assms(3) show ?thesis by (simp add: entry_at_def)
next
  case (push c)
  with assms(2,3) show ?thesis by (auto simp: entry_at_def conn_table_def)
next
  case qos
  with assms(2,3) show ?thesis by (auto simp: entry_at_def conn_table_def qos_observer.known_opened split: if_splits)
qed

lemma closing_action:
  assumes "suffix (a # as) (drop_actions now i t)" "exec a (v, r) = (v', r')" "i \<notin> fst ` T" "i \<notin> U"
    "entry_at T U i t (listed (Closing i t) (a # as)) (watched (Closing i t) (a # as)) r"
  shows "entry_at T U i t (listed (Closing i t) as) (watched (Closing i t) as) r' \<and> (watched (Closing i t) as \<longrightarrow> listed (Closing i t) as \<and> uses_video t)"
  using assms(1)
proof (cases rule: closing_cases)
  case same
  with neutral_exec [OF same(1) assms(2)] assms(5) show ?thesis by (simp add: entry_at_def)
next
  case qos
  have "conn_table r' = conn_table r" "qos_users (qos r') = qos_users (qos r) - {i}"
    using assms(2) qos(1) by (auto simp: conn_table_def qos_observer.known_closed)
  with qos assms(4,5) show ?thesis by (auto simp: entry_at_def split: if_splits)
next
  case retain
  have "conn_table r' = {p \<in> conn_table r. fst p \<noteq> i}" "qos_users (qos r') = qos_users (qos r)"
    using assms(2) retain(1) by (auto simp: conn_table_def)
  moreover have "{p \<in> T. fst p \<noteq> i} = T" using assms(3) by force
  ultimately show ?thesis using retain assms(5) by (auto simp: entry_at_def split: if_splits)
qed

lemma setting_action:
  "suffix (a # as) wake_actions \<Longrightarrow> exec a (v, r) = (v', r') \<Longrightarrow> conn_table r' = conn_table r \<and> qos_users (qos r') = qos_users (qos r)"
  by (erule neutral_exec [rotated]) (auto simp: wake_actions_def suffix_Cons neutral_def)

text \<open>An operation under way is in the middle of its program, so that one lemma covers each of its actions.\<close>

lemma advance_inv:
  assumes inv: "sys_inv S" and th: "threads S = xs @ (j, a # as, v) # ys" and ex: "exec a (v, tables S) = (v', r')"
  shows "sys_inv (S\<lparr>tables := r', threads := xs @ (j, as, v') # ys\<rparr>)" (is "sys_inv ?S")
proof -
  define A B where "A = concat (map thread_owner xs)" and "B = concat (map thread_owner ys) @ map (\<lambda>(i, t). (i, t, True, uses_video t)) (guards S)"
  have o: "owners S = A @ thread_owner (j, a # as, v) @ B" "owners ?S = A @ thread_owner (j, as, v') @ B"
    by (simp_all add: owners_def th A_def B_def)
  have prog: "in_program (j, a # as, v)" and rest: "list_all in_program xs" "list_all in_program ys" using inv th by (simp_all add: sys_inv_def)
  have "in_program (j, as, v')" using prog by (cases j; simp add: in_program_def; blast dest: suffix_ConsD)
  with rest have P: "list_all in_program (threads ?S)" by simp
  note I = inv [unfolded sys_inv_def o]
  show ?thesis
  proof (cases j)
    case Setting
    with setting_action [OF _ ex] prog I P o show ?thesis by (simp add: sys_inv_def thread_owner_def in_program_def)
  next
    case (Opening i t)
    obtain now abr key p where pr: "suffix (a # as) (new_actions now abr i t key p)" using prog by (auto simp: in_program_def Opening)
    have T: "entry_at (table_of (A @ B)) (users_of (A @ B)) i t (listed (Opening i t) (a # as)) (watched (Opening i t) (a # as)) (tables S)"
      using I by (auto simp: thread_owner_def Opening entry_at_def)
    from opening_action [OF pr ex T] I P o show ?thesis by (auto simp: sys_inv_def thread_owner_def Opening entry_at_def)
  next
    case (Closing i t)
    obtain now where pr: "suffix (a # as) (drop_actions now i t)" using prog by (auto simp: in_program_def Closing)
    have i: "i \<notin> fst ` table_of (A @ B)" "i \<notin> users_of (A @ B)" using I owner_ids [of "A @ B"] by (auto simp: thread_owner_def Closing)
    have T: "entry_at (table_of (A @ B)) (users_of (A @ B)) i t (listed (Closing i t) (a # as)) (watched (Closing i t) (a # as)) (tables S)"
      using I by (auto simp: thread_owner_def Closing entry_at_def)
    from closing_action [OF pr ex i T] I P o show ?thesis by (auto simp: sys_inv_def thread_owner_def Closing entry_at_def)
  qed
qed

lemma finish_inv:
  assumes inv: "sys_inv S" and th: "threads S = xs @ (j, [], v) # ys"
  shows "sys_inv (S\<lparr>threads := xs @ ys, guards := guards S @ (case j of Opening i t \<Rightarrow> [(i, t)] | _ \<Rightarrow> [])\<rparr>)"
proof -
  have "in_program (j, [], v)" using inv th by (simp add: sys_inv_def)
  show ?thesis
  proof (cases j)
    case (Opening i t)
    with inv th show ?thesis by (auto simp: sys_inv_def owners_def thread_owner_def listed_def watched_def)
  next
    case (Closing i t)
    with inv th show ?thesis by (auto simp: sys_inv_def owners_def thread_owner_def listed_def watched_def)
  qed (use inv th in \<open>simp add: sys_inv_def owners_def thread_owner_def\<close>)
qed

lemma drop_inv:
  assumes inv: "sys_inv S" and g: "guards S = xs @ (i, t) # ys"
  shows "sys_inv (S\<lparr>guards := xs @ ys, threads := threads S @ [(Closing i t, drop_actions now i t, 0, 0)]\<rparr>)" (is "sys_inv ?S")
proof -
  have "thread_owner (Closing i t, drop_actions now i t, 0, 0) = [(i, t, True, uses_video t)]"
    by (simp add: thread_owner_def listed_def watched_def drop_actions_def wake_actions_def)
  moreover define A B C where "A = concat (map thread_owner (threads S))" and "B = map (\<lambda>(i, t). (i, t, True, uses_video t)) xs"
    and "C = map (\<lambda>(i, t). (i, t, True, uses_video t)) ys"
  ultimately have o: "owners S = A @ B @ (i, t, True, uses_video t) # C" "owners ?S = A @ (i, t, True, uses_video t) # B @ C" by (simp_all add: owners_def g)
  have "in_program (Closing i t, drop_actions now i t, 0, 0)" by (auto simp: in_program_def)
  with inv show ?thesis unfolding sys_inv_def o by auto
qed

lemma authorize_inv:
  assumes inv: "sys_inv S" and i: "i \<notin> issued S"
  shows "sys_inv (S\<lparr>threads := threads S @ [(Opening i t, new_actions now abr i t key p, 0, 0)], issued := insert i (issued S)\<rparr>)"
  (is "sys_inv ?S")
proof -
  define A B where "A = concat (map thread_owner (threads S))" and "B = map (\<lambda>(i, t). (i, t, True, uses_video t)) (guards S)"
  have "thread_owner (Opening i t, new_actions now abr i t key p, 0, 0) = [(i, t, False, False)]"
    by (simp add: thread_owner_def listed_def watched_def new_actions_def wake_actions_def)
  then have o: "owners S = A @ B" "owners ?S = A @ (i, t, False, False) # B" by (simp_all add: owners_def A_def B_def)
  have "in_program (Opening i t, new_actions now abr i t key p, 0, 0)" by (auto simp: in_program_def)
  with inv i show ?thesis unfolding sys_inv_def o by auto
qed

lemma table_step_same: "table_step r r' \<Longrightarrow> authed_conns r' = authed_conns r \<and> qos r' = qos r"
  by (induction rule: table_step.induct)
    (auto simp: connection_id_new_def connection_id_drop_def check_remove_session_def update_or_insert_session_def set_session_2fa_def new_session_def
      retain_recent_def touch_cell_def control_permissions_id_new_def control_permissions_id_drop_def Let_def split: option.splits if_splits)

lemma sys_inv_step: "sys_step S S' \<Longrightarrow> sys_inv S \<Longrightarrow> sys_inv S'"
proof (induction rule: sys_step.induct)
  case (quality linux x S q)
  then have "qos_users q = qos_users (qos (tables S))" by (intro qos_observer.known_others) (auto simp: qos_other_def)
  with quality show ?case by (simp add: sys_inv_def owners_def conn_table_def)
next
  case (other S r)
  with table_step_same [OF other.hyps] show ?case by (simp add: sys_inv_def owners_def conn_table_def)
next
  case (setting_changed S)
  then show ?case by (simp add: sys_inv_def owners_def thread_owner_def in_program_def)
qed (simp_all add: advance_inv finish_inv drop_inv authorize_inv)

lemma sys_inv_reachable: "sys_reachable S \<Longrightarrow> sys_inv S"
proof (induction rule: sys_reachable.induct)
  case (sys_start now)
  then show ?case by (simp add: sys_init_def sys_inv_def owners_def conn_table_def empty_registry_def qos_users_def default_qos_def)
qed (simp add: sys_inv_step)

lemma guard_owner:
  assumes "sys_inv S" "(i, t) \<in> set (guards S)"
  shows "(i, t) \<in> conn_table (tables S)" "uses_video t \<Longrightarrow> i \<in> qos_users (qos (tables S))"
proof -
  from assms(2) obtain xs ys where "guards S = xs @ (i, t) # ys" by (meson split_list)
  with assms(1) show "(i, t) \<in> conn_table (tables S)" "uses_video t \<Longrightarrow> i \<in> qos_users (qos (tables S))"
    by (auto simp: sys_inv_def owners_def)
qed

lemma idle_owners:
  "table_of (map (\<lambda>(i, t). (i, t, True, uses_video t)) gs) = set gs" "users_of (map (\<lambda>(i, t). (i, t, True, uses_video t)) gs) = fst ` {g \<in> set gs. uses_video (snd g)}"
  by (induction gs) force+

section \<open>Properties\<close>

text \<open>
  C15. The tables of connections agree in every interleaving. Whatever operations are under way, every
  user of the quality controller is an authorized remote desktop or camera connection; a connection
  that holds its guard is in the table with its type and, if it has video, is a user; and when no
  operation is under way the table is that of the guards and the users are exactly those with video.
  The numbers of connections do not repeat; the other operations of the quality controller and of
  the tables of sessions and permissions run at any time.
\<close>

theorem registry_tables_agree:
  assumes "sys_reachable S"
  shows "qos_users (qos (tables S)) \<subseteq> conn_id ` {c \<in> set (authed_conns (tables S)). uses_video (conn_type c)}
    \<and> (\<forall>i t. (i, t) \<in> set (guards S) \<longrightarrow>
         (i, t) \<in> conn_table (tables S) \<and> (uses_video t \<longrightarrow> i \<in> qos_users (qos (tables S))))
    \<and> (threads S = [] \<longrightarrow> conn_table (tables S) = set (guards S)
         \<and> qos_users (qos (tables S)) = fst ` {g \<in> set (guards S). uses_video (snd g)})"
proof -
  have inv: "sys_inv S" using sys_inv_reachable [OF assms] .
  have "users_of (owners S) \<subseteq> fst ` {p \<in> table_of (owners S). uses_video (snd p)}" using inv by (intro video_users) (simp add: sys_inv_def)
  moreover have "fst ` {p \<in> conn_table (tables S). uses_video (snd p)} = conn_id ` {c \<in> set (authed_conns (tables S)). uses_video (conn_type c)}"
    by (force simp: conn_table_def)
  ultimately have "qos_users (qos (tables S)) \<subseteq> conn_id ` {c \<in> set (authed_conns (tables S)). uses_video (conn_type c)}" using inv by (simp add: sys_inv_def)
  moreover have "conn_table (tables S) = set (guards S) \<and> qos_users (qos (tables S)) = fst ` {g \<in> set (guards S). uses_video (snd g)}" if "threads S = []"
    using inv that by (simp add: sys_inv_def owners_def idle_owners)
  ultimately show ?thesis using guard_owner [OF inv] by blast
qed

section \<open>The wake lock\<close>

text \<open>The counts sent, and the thread that receives them.\<close>

fun counts_of :: "reg_effect list \<Rightarrow> (nat \<times> nat) list" where
  "counts_of [] = []"
| "counts_of (WakeLockCounts a b # es) = (a, b) # counts_of es"
| "counts_of (_ # es) = counts_of es"

definition wakelock_run :: "bool \<Rightarrow> bool \<Rightarrow> (nat \<times> nat) list \<Rightarrow> wakelock_state" where
  "wakelock_run linux keep_awake msgs =
     fold (wakelock_recv linux keep_awake True) msgs \<lparr>wakelock = None, last_display = False, cached_keep_awake = None\<rparr>"

lemma counts_append [simp]: "counts_of (es @ es') = counts_of es @ counts_of es'"
  by (induction es rule: counts_of.induct) simp_all

lemma last_zero: "wakelock (wakelock_run linux keep (msgs @ [(0, n)])) = None"
  by (simp add: wakelock_run_def wakelock_recv_def Let_def)

lemma run_actions:
  assumes "sys_reachable S" "threads S = xs @ (j, as @ bs, v) # ys" "fold exec as (v, tables S) = (v', r')"
  shows "sys_reachable (S\<lparr>tables := r', threads := xs @ (j, bs, v') # ys\<rparr>)"
  using assms
proof (induction as arbitrary: S v)
  case Nil
  then show ?case by (metis append_Nil fold_simps(1) prod.inject reg_sys.surjective reg_sys.update_convs(1,2) id_apply fold_Nil)
next
  case (Cons a as)
  obtain v1 r1 where e: "exec a (v, tables S) = (v1, r1)" by (meson surj_pair)
  let ?S = "S\<lparr>tables := r1, threads := xs @ (j, as @ bs, v1) # ys\<rparr>"
  have "sys_reachable ?S" using sys_next [OF Cons.prems(1) advance [OF _ e]] Cons.prems(2) by simp
  from Cons.IH [OF this] Cons.prems(3) e show ?case by simp
qed

text \<open>
  The count the wake lock thread is left with may be out of date: from every reachable state in which
  one connection is authorized and nothing is under way, a run that drops it and authorizes another
  one ends with the new connection in the table and the wake lock released, since the count of the
  first operation, taken before, is sent after that of the second.
\<close>

theorem wake_lock_released_in_use:
  assumes "sys_reachable S" "threads S = []" "guards S = [(i, t)]" "j \<notin> issued S"
  shows "\<exists>S'. sys_reachable S' \<and> threads S' = [] \<and> guards S' = [(j, u)] \<and> conn_table (tables S') = {(j, u)}
    \<and> wakelock (wakelock_run linux keep_awake (counts_of (effects (tables S')))) = None"
proof -
  let ?pre = "(if uses_video t then [Emit (EncoderRemove i), QosClose 0 i] else []) @ [Emit (ClearRelativeMouse i), RetainConn i, ReadRemote, LastGone, ReadAll, ReadRemote]"
  let ?post = "[SendCounts, Emit (UnregisterWhiteboard i)]"
  define k :: session_key where "k = sample_key"
  have tab: "conn_table (tables S) = {(i, t)}" using sys_inv_reachable [OF assms(1)] assms(2,3) by (simp add: sys_inv_def owners_def)
  have gone: "filter (\<lambda>c. conn_id c \<noteq> i) (authed_conns (tables S)) = []" using tab by (auto simp: conn_table_def filter_empty_conv)
  obtain r1 where r1: "fold exec ?pre ((0, 0), tables S) = ((0, 0), r1)" "authed_conns r1 = []"
    using gone by (cases "uses_video t") (simp_all add: remote_count_def emit_def)
  obtain r2 v2 where r2: "fold exec (new_actions 0 [] j u k False) ((0, 0), r1) = (v2, r2)" by (meson surj_pair)
  let ?S1 = "S\<lparr>guards := [], threads := [(Closing i t, drop_actions 0 i t, 0, 0)]\<rparr>"
  have "sys_reachable ?S1" using sys_next [OF assms(1) drop_guard [of S "[]" i t "[]" 0]] assms(2,3) by simp
  from run_actions [OF this, of "[]" "Closing i t" ?pre ?post "(0, 0)" "[]"] r1(1)
  have "sys_reachable (?S1\<lparr>tables := r1, threads := [(Closing i t, ?post, 0, 0)]\<rparr>)" (is "sys_reachable ?S2") by (simp add: drop_actions_def wake_actions_def)
  from sys_next [OF this authorize [of j ?S2 u 0 "[]" k False]] assms(4)
  have "sys_reachable (?S2\<lparr>threads := [(Closing i t, ?post, 0, 0), (Opening j u, new_actions 0 [] j u k False, 0, 0)], issued := insert j (issued S)\<rparr>)"
    (is "sys_reachable ?S3") by simp
  from run_actions [OF this, of "[(Closing i t, ?post, 0, 0)]" "Opening j u" "new_actions 0 [] j u k False" "[]" "(0, 0)" "[]"] r2
  have "sys_reachable (?S3\<lparr>tables := r2, threads := [(Closing i t, ?post, 0, 0), (Opening j u, [], v2)]\<rparr>)" (is "sys_reachable ?S4") by simp
  from sys_next [OF this finish [of ?S4 "[(Closing i t, ?post, 0, 0)]" "Opening j u" v2 "[]"]]
  have "sys_reachable (?S4\<lparr>threads := [(Closing i t, ?post, 0, 0)], guards := [(j, u)]\<rparr>)" (is "sys_reachable ?S5") by simp
  from run_actions [OF this, of "[]" "Closing i t" ?post "[]" "(0, 0)" "[]"]
  have "sys_reachable (?S5\<lparr>tables := emit [WakeLockCounts 0 0, UnregisterWhiteboard i] r2, threads := [(Closing i t, [], 0, 0)]\<rparr>)" (is "sys_reachable ?S6")
    by (simp add: emit_def)
  from sys_next [OF this finish [of ?S6 "[]" "Closing i t" "(0, 0)" "[]"]] have S7: "sys_reachable (?S6\<lparr>threads := [], guards := [(j, u)]\<rparr>)" (is "sys_reachable ?S7") by simp
  have "conn_table (tables ?S7) = {(j, u)}" using sys_inv_reachable [OF S7] by (simp add: sys_inv_def owners_def)
  moreover have "wakelock (wakelock_run linux keep_awake (counts_of (effects (tables ?S7)))) = None" by (simp add: last_zero)
  ultimately show ?thesis using S7 by (intro exI [of _ ?S7]) simp
qed

section \<open>Witnesses\<close>

definition sample_sys :: reg_sys where
  "sample_sys = \<lparr>tables = authed_conn_id_new 5 ''Y'' 1 Remote sample_key False (empty_registry 0), threads = [], guards = [(1, Remote)], issued = {1}\<rparr>"

lemma sample_sys_reachable: "sys_reachable sample_sys"
proof -
  let ?as = "new_actions 5 ''Y'' 1 Remote sample_key False"
  obtain v where r: "fold exec ?as ((0, 0), empty_registry 0) = (v, authed_conn_id_new 5 ''Y'' 1 Remote sample_key False (empty_registry 0))"
    using new_actions_run [of 5 "''Y''" 1 Remote sample_key False "(0, 0)" "empty_registry 0"] by (metis prod.collapse)
  from sys_next [OF sys_start authorize [of 1 "sys_init 0" Remote 5 "''Y''" sample_key False]]
  have "sys_reachable ((sys_init 0)\<lparr>threads := [(Opening 1 Remote, ?as @ [], 0, 0)], issued := {1}\<rparr>)" by (simp add: sys_init_def)
  from run_actions [OF this, of "[]" "Opening 1 Remote" ?as "[]" "(0, 0)" "[]" v] r
  have "sys_reachable ((sys_init 0)\<lparr>tables := tables sample_sys, threads := [(Opening 1 Remote, [], v)], issued := {1}\<rparr>)"
    by (simp add: sys_init_def sample_sys_def)
  from sys_next [OF this finish [of _ "[]" "Opening 1 Remote" v "[]"]] show ?thesis by (simp add: sys_init_def sample_sys_def)
qed

theorem registry_tables_agree_witness: "qos_users (qos (authed_conn_id_new 5 ''Y'' 1 Remote sample_key False (empty_registry 0))) = {1}"
  using registry_tables_agree [OF sample_sys_reachable] by (auto simp: sample_sys_def uses_video_def)

theorem wake_lock_released_in_use_witness:
  "\<exists>S'. sys_reachable S' \<and> guards S' = [(2, FileTransfer)] \<and> wakelock (wakelock_run True True (counts_of (effects (tables S')))) = None"
  using wake_lock_released_in_use [OF sample_sys_reachable, of 1 Remote 2 FileTransfer True True] by (auto simp: sample_sys_def)

end
