(* ===== verification/Spec2Isabelle.thy ===== *)
theory Spec2Isabelle
  imports Login TerminalService PortableExtract Service FileTransferRuns ConnectionLoop ConnThreads
begin

text \<open>
  A verification library for the host side of the remote desktop program: the process that is
  controlled, from the login of a peer to the end of its session, and the launcher that unpacks the
  program.

  \<^bold>\<open>The parts and how they interact.\<close> A peer connects to the host; \<open>Connection\<close>
  (\<open>src/server/connection.rs\<close>) runs one loop per connection (\<^verbatim>\<open>ConnectionLoop\<close>). Its first messages are the login
  (\<^verbatim>\<open>Login\<close>, \<^verbatim>\<open>LoginFrame\<close>), which is throttled by the tables of failures (\<^verbatim>\<open>LoginFailures\<close>). A login
  enters the connection into the tables of authorized connections and sessions (\<^verbatim>\<open>ConnRegistry\<close>, and
  \<^verbatim>\<open>ConnThreads\<close> for the interleaving of several connections), which
  also hold the quality controller of the video services (\<^verbatim>\<open>VideoQos\<close>, on the arithmetic of \<^verbatim>\<open>Float32\<close>).
  From then on every message is checked against the type of the session (\<^verbatim>\<open>SessionScope\<close>) and handled on
  the state of the session (\<^verbatim>\<open>SessionMessages\<close> on \<^verbatim>\<open>SessionState\<close>), which subscribes the connection to
  the services (\<^verbatim>\<open>Service\<close>) in the table of the server (\<^verbatim>\<open>ServerHub\<close>). A terminal session uses the
  registry of terminal services (\<^verbatim>\<open>TerminalService\<close>) and the path of the output (\<^verbatim>\<open>TerminalBuffer\<close>, \<^verbatim>\<open>Utf8\<close>);
  a file session works with the connection manager over two queues (\<^verbatim>\<open>FileTransfers\<close>,
  \<^verbatim>\<open>FileTransferRuns\<close>); copied files are listed and served by the file clipboard (\<^verbatim>\<open>ClipboardFiles\<close>). The
  launcher reads an archive (\<^verbatim>\<open>PortableArchive\<close>) and extracts it onto a file system with links and
  failing calls (\<^verbatim>\<open>FileSystem\<close>, \<^verbatim>\<open>PortableExtract\<close>). \<^verbatim>\<open>Prelude\<close> holds what they share.

  \<^bold>\<open>Theories, sources and theorems.\<close>

  \<^item> \<^verbatim>\<open>Login\<close>, \<^verbatim>\<open>LoginFrame\<close>: \<open>Connection::on_message\<close> up to the dispatch, with \<open>on_open\<close>, passwords,
    second factor, trusted devices, switch-sides, port forwarding, headless logins and the click of the
    user. The record \<open>connection\<close> has the fields of \<open>Connection\<close> these read, \<open>world\<close> the tables shared by
    all connections, and \<open>login_env\<close> what is asked of the configuration, the platform and the libraries.
    Only the listed credentials authorize, each as the kind of session stated; the finding is that a
    second-factor code suffices.
  \<^item> \<^verbatim>\<open>LoginFailures\<close>: the counters per address and per IPv6 prefix and the back-off of
    operating-system logins (\<open>login_failure_check.rs\<close>). Wrong guesses are bounded, also when the checks and
    the records of several connections interleave, which the source does under separate locks.
  \<^item> \<^verbatim>\<open>ConnRegistry\<close>: the module \<open>raii\<close>, the sessions of returning clients, control permissions,
    switch-sides tokens and the wake lock thread.
  \<^item> \<^verbatim>\<open>ConnThreads\<close>: the same authorization and drop of a connection as the lists of the actions they do
    between two locks, interleaved with each other and with everything else that changes the tables. The
    locale \<open>user_observer\<close> is what this needs of the quality controller. The tables agree in every
    reachable state; the finding is that the count sent to the wake lock thread may be out of date.
  \<^item> \<^verbatim>\<open>VideoQos\<close>: \<open>video_qos.rs\<close>, with \<open>f32\<close> as rationals rounded to 24 bits. No operation panics and the
    rates stay in their ranges.
  \<^item> \<^verbatim>\<open>SessionScope\<close>: the scope checks of \<open>connection.rs\<close>, refined to a policy table by message.
  \<^item> \<^verbatim>\<open>Service\<close>, \<^verbatim>\<open>ServerHub\<close>: \<open>service.rs\<close> and \<open>server.rs\<close>. Subscriptions are exact, subscribers get the
    messages of a snapshot step first, except one that subscribes while it is sent; the locale \<open>subscriber_hub\<close> is what a session needs of the hub, interpreted on it.
  \<^item> \<^verbatim>\<open>SessionState\<close>, \<^verbatim>\<open>SessionInvariant\<close>, \<^verbatim>\<open>SessionMessages\<close>: permission switches, options, voice calls,
    displays, privacy mode, the start of a session, and every message of the peer as on Linux. Along every
    run the subscriptions follow the permissions, and the effects on the host need theirs; the findings are
    the file clipboard, which is served and written without one, and the connection's own set of pressed
    modifiers, in which none is recorded.
  \<^item> \<^verbatim>\<open>ConnectionLoop\<close>: \<open>Connection::start\<close> of an authorized connection, with its timers, the messages of
    the services, what closes it, and the steps after the loop. A connection that ends is subscribed to
    nothing, a silent peer is dropped, and inactivity counts from the last activity.
  \<^item> \<^verbatim>\<open>TerminalService\<close>, \<^verbatim>\<open>TerminalBuffer\<close>, \<^verbatim>\<open>Utf8\<close>: \<open>terminal_service.rs\<close>. Bounded registries, which
    steps may lose a child, what a client that reconnects receives of the output still held, whole
    characters, and the resize that settles.
  \<^item> \<^verbatim>\<open>FileTransfers\<close>, \<^verbatim>\<open>FileTransferRuns\<close>: the file actions and responses at the connection and
    \<open>handle_fs\<close> of \<open>ui_cm_interface.rs\<close>, composed as two processes with their queues. The jobs are those
    of the protocol library, a parameter \<open>jobs_lib\<close>, also in the file timer of the connection. The blocks
    sent are those of the job, in its order, a cancelled transfer sends nothing more, and one-way transfer
    reads no file.
  \<^item> \<^verbatim>\<open>ClipboardFiles\<close>: \<open>libs/clipboard/src/platform/unix\<close> and \<open>clipboard_file.rs\<close>. The list of copied
    files is complete, decodes to what is served, and every range served is exact.
  \<^item> \<^verbatim>\<open>PortableArchive\<close>, \<^verbatim>\<open>PortableExtract\<close>, \<^verbatim>\<open>FileSystem\<close>: \<open>libs/portable\<close>. The reader accepts exactly what
    the packaging script writes; extraction stays in its directory for every failure of a system call.
    \<open>setup\<close> is that of each platform (metadata is embedded on Windows only); the finding is the metadata
    file, which is written through a link.

  \<^bold>\<open>Modelling.\<close> State is passed explicitly; a step that can panic returns an option, errors are values of
  \<open>result\<close>. Integers are \<open>int\<close> or \<open>nat\<close> with the wrap-around written out (\<open>wrap_i32\<close>, \<open>wrap_u64\<close>) where the
  code can reach it, bytes are words of 8 bits. Hash maps are association lists or maps, where nothing
  depends on their order. What is not source of this repository is a parameter: hashes, the decompressor,
  the one-time passwords, the configuration, UTF-16, key codes, transfer jobs, the desktop and the kernel.
  What the theorems need of a parameter is a named hypothesis (\<open>jobs_lib_ok\<close>, \<open>jobs_keep_ids\<close>, \<open>streams_ok\<close>,
  \<open>fs_consistent\<close>, \<open>ranked\<close>),
  and a witness gives an instance.

  \<^bold>\<open>Locks.\<close> Where the source takes several locks in one operation, the model has a step per lock when a
  property depends on it: authorizing and dropping a connection, the check and the record of a login
  failure, the parts of a snapshot, the two processes of a file transfer. Elsewhere an operation is one step,
  as its theory says: an action and a poll of a terminal service, the two reads of \<open>is_subed\<close>, a message
  of a session. A run of requests for copied files sees one unchanging file system.

  \<^bold>\<open>Bounds and fuel.\<close> Path resolution follows at most 40 links, the limit of Linux. The walk over copied
  directories has fuel, and \<open>copy_terminates\<close> shows that the depth of the file system is enough; with a
  loop of links no fuel is. The resize after a reconnection ends within nine polls. Everything else
  recurses on its data.

  \<^bold>\<open>Not modelled.\<close> The contents of the peer information in the login response, the
  loop of port forwarding, and the branches that only Windows, macOS or mobile builds have (virtual displays,
  elevation, the portable service, the helper process of terminals). The injection of input, with the keys
  that the input service counts as pressed and releases, capture and
  encoding, the clipboards of the desktop, the FUSE and Windows sides of pasting, privacy mode
  implementations and the platform layer are calls into operating systems and foreign libraries. The client
  side, the user interface and its generated bindings, translations, the rendezvous protocol, interprocess
  sockets, web services and drivers are loops around sockets, user interfaces or generated code.
\<close>

end
